(* ===== verification/LIM_Prelude.thy ===== *)
theory LIM_Prelude
  imports Main "HOL-Library.AList"
begin

text \<open>
  Shared material of the development.

  \<^item> \<open>jsmap\<close>: a JavaScript \<open>Map\<close> as an association list in insertion order. \<open>set\<close> on a key
    that is present replaces the value in place, on a new key appends; this is
    \<open>AList.update\<close>. Iteration order is list order.
  \<^item> \<open>set_add\<close>, \<open>set_del\<close>: a JavaScript \<open>Set\<close> as a duplicate-free list in insertion order.
  \<^item> \<open>arr_set\<close>, \<open>arr_get\<close>: a sparse JavaScript array; a write past the end extends it with holes.
  \<^item> \<open>show_nat\<close>: decimal printing, as in a template literal \<open>`t-${n}`\<close>.
  \<^item> the locales \<open>keyed_store\<close> (what every map-backed registry of the client relies on) and
    \<open>transition_system\<close> (initial states, steps and an inductive invariant), with their
    interpretations where the model provides the operations.
\<close>

named_theorems js_defs \<open>unfold the thin wrappers around library operations\<close>

type_synonym ('k, 'v) jsmap = "('k \<times> 'v) list"

subsection \<open>Maps in insertion order\<close>

definition mget :: "('k, 'v) jsmap \<Rightarrow> 'k \<Rightarrow> 'v option" where
  [js_defs]: "mget m k = map_of m k"

definition mset_key :: "'k \<Rightarrow> 'v \<Rightarrow> ('k, 'v) jsmap \<Rightarrow> ('k, 'v) jsmap" where
  [js_defs]: "mset_key k v m = AList.update k v m"

definition mdel :: "'k \<Rightarrow> ('k, 'v) jsmap \<Rightarrow> ('k, 'v) jsmap" where
  [js_defs]: "mdel k m = AList.delete k m"

definition mhas :: "('k, 'v) jsmap \<Rightarrow> 'k \<Rightarrow> bool" where
  [js_defs]: "mhas m k = (map_of m k \<noteq> None)"

definition mkeys :: "('k, 'v) jsmap \<Rightarrow> 'k list" where
  [js_defs]: "mkeys m = map fst m"

definition mvals :: "('k, 'v) jsmap \<Rightarrow> 'v list" where
  [js_defs]: "mvals m = map snd m"

text \<open>The representation invariant of a map: no key twice.\<close>

definition mwf :: "('k, 'v) jsmap \<Rightarrow> bool" where
  [js_defs]: "mwf m = distinct (map fst m)"

lemma mget_empty [simp]: "mget [] k = None"
  by (simp add: js_defs)

lemma mget_set [simp]: "mget (mset_key k v m) k' = (if k' = k then Some v else mget m k')"
  by (simp add: js_defs update_conv')

lemma mget_del [simp]: "mget (mdel k m) k' = (if k' = k then None else mget m k')"
  by (simp add: js_defs delete_conv')

lemma mhas_get: "mhas m k = (mget m k \<noteq> None)"
  by (simp add: js_defs)

lemma mhas_empty [simp]: "\<not> mhas [] k"
  by (simp add: js_defs)

lemma mhas_set [simp]: "mhas (mset_key k v m) k' = (k' = k \<or> mhas m k')"
  by (simp add: mhas_get)

lemma mhas_del [simp]: "mhas (mdel k m) k' = (k' \<noteq> k \<and> mhas m k')"
  by (simp add: mhas_get)

lemma mwf_empty [simp]: "mwf []"
  by (simp add: js_defs)

lemma mwf_set [simp]: "mwf m \<Longrightarrow> mwf (mset_key k v m)"
  by (simp add: js_defs distinct_update)

lemma mwf_del [simp]: "mwf m \<Longrightarrow> mwf (mdel k m)"
  by (simp add: js_defs distinct_delete)

lemma mkeys_mhas: "k \<in> set (mkeys m) \<longleftrightarrow> mhas m k"
  by (auto simp: js_defs map_of_eq_None_iff)

lemma mget_in_set: "mwf m \<Longrightarrow> mget m k = Some v \<longleftrightarrow> (k, v) \<in> set m"
  by (simp add: js_defs)

lemma mget_SomeD: "mget m k = Some v \<Longrightarrow> (k, v) \<in> set m"
  by (simp add: js_defs map_of_SomeD)

lemma mset_key_new: "\<not> mhas m k \<Longrightarrow> mset_key k v m = m @ [(k, v)]"
  by (induction m) (auto simp: js_defs)

text \<open>
  Replacing the value of a key leaves the order and the number of the entries alone: only a new
  key makes the map grow.
\<close>

lemma mkeys_set: "mkeys (mset_key k v m) = (if mhas m k then mkeys m else mkeys m @ [k])"
  by (induction m) (auto simp: js_defs)

lemma mkeys_del: "mkeys (mdel k m) = removeAll k (mkeys m)"
  by (induction m) (auto simp: js_defs)

lemma set_mdel: "set (mdel k m) = {e \<in> set m. fst e \<noteq> k}"
  by (induction m) (auto simp: js_defs)

lemma mget_filter_key:
  "mget (filter (\<lambda>e. P (fst e)) m) k = (if P k then mget m k else None)"
  by (induction m) (auto simp: js_defs)

lemma mwf_filter [simp]: "mwf m \<Longrightarrow> mwf (filter P m)"
  by (simp add: js_defs distinct_map_filter)

lemma mget_fold_set:
  "distinct (map fst es) \<Longrightarrow> mget (fold (\<lambda>(k, v). mset_key k v) es t) k
     = (case map_of es k of Some v \<Rightarrow> Some v | None \<Rightarrow> mget t k)"
proof (induction es arbitrary: t)
  case (Cons e es)
  obtain k' v where e: "e = (k', v)" by fastforce
  then have "map_of es k' = None" using Cons.prems by (auto simp: map_of_eq_None_iff)
  then show ?case using Cons e by (auto split: option.split)
qed simp

lemma mget_filter_val:
  "mwf m \<Longrightarrow> mget (filter P m) k = (case mget m k of None \<Rightarrow> None | Some v \<Rightarrow> if P (k, v) then Some v else None)"
proof (induction m)
  case Nil
  then show ?case by simp
next
  case (Cons e m)
  obtain a b where e: "e = (a, b)" by (cases e)
  from Cons.prems have wf: "mwf m" and new: "a \<notin> fst ` set m"
    by (auto simp: js_defs e)
  have none: "mget (filter P m) a = None"
    using new by (auto simp: js_defs map_of_eq_None_iff)
  show ?case
    using Cons.IH[OF wf] none new
    by (auto simp: js_defs e map_of_eq_None_iff split: option.splits if_splits)
qed

subsection \<open>Sets in insertion order\<close>

definition set_add :: "'a \<Rightarrow> 'a list \<Rightarrow> 'a list" where
  "set_add x xs = (if x \<in> set xs then xs else xs @ [x])"

definition set_del :: "'a \<Rightarrow> 'a list \<Rightarrow> 'a list" where
  "set_del x xs = removeAll x xs"

lemma set_set_add [simp]: "set (set_add x xs) = insert x (set xs)"
  by (auto simp: set_add_def)

lemma set_set_del [simp]: "set (set_del x xs) = set xs - {x}"
  by (simp add: set_del_def)

lemma distinct_set_add [simp]: "distinct xs \<Longrightarrow> distinct (set_add x xs)"
  by (simp add: set_add_def)

lemma distinct_set_del [simp]: "distinct xs \<Longrightarrow> distinct (set_del x xs)"
  by (simp add: set_del_def distinct_removeAll)

text \<open>\<open>new Set(xs)\<close>: the elements of a list, first occurrences kept.\<close>

definition set_of_list :: "'a list \<Rightarrow> 'a list" where
  "set_of_list xs = fold set_add xs []"

lemma set_fold_set_add [simp]: "set (fold set_add xs acc) = set acc \<union> set xs"
  by (induction xs arbitrary: acc) auto

lemma distinct_fold_set_add: "distinct acc \<Longrightarrow> distinct (fold set_add xs acc)"
  by (induction xs arbitrary: acc) auto

lemma set_set_of_list [simp]: "set (set_of_list xs) = set xs"
  by (simp add: set_of_list_def)

lemma distinct_set_of_list [simp]: "distinct (set_of_list xs)"
  by (simp add: set_of_list_def distinct_fold_set_add)

subsection \<open>Sparse arrays\<close>

definition arr_get :: "'a option list \<Rightarrow> nat \<Rightarrow> 'a option" where
  "arr_get xs i = (if i < length xs then xs ! i else None)"

definition arr_set :: "'a option list \<Rightarrow> nat \<Rightarrow> 'a \<Rightarrow> 'a option list" where
  "arr_set xs i v =
     (if i < length xs then xs[i := Some v]
      else xs @ replicate (i - length xs) None @ [Some v])"

lemma arr_get_set [simp]: "arr_get (arr_set xs i v) j = (if j = i then Some v else arr_get xs j)"
  by (auto simp: arr_get_def arr_set_def nth_append nth_list_update nth_Cons')

lemma length_arr_set: "length (arr_set xs i v) = max (length xs) (Suc i)"
  by (auto simp: arr_set_def)

lemma arr_get_empty [simp]: "arr_get [] i = None"
  by (simp add: arr_get_def)

lemma arr_get_SomeD: "arr_get xs i = Some v \<Longrightarrow> i < length xs"
  by (auto simp: arr_get_def split: if_splits)

subsection \<open>Replacing the first match of a list\<close>

text \<open>\<open>findIndex\<close> and a write at the index found: used on the message lists.\<close>

fun find_index :: "('a \<Rightarrow> bool) \<Rightarrow> 'a list \<Rightarrow> nat option" where
  "find_index P [] = None"
| "find_index P (x # xs) = (if P x then Some 0 else map_option Suc (find_index P xs))"

lemma find_index_SomeD:
  "find_index P xs = Some i \<Longrightarrow> i < length xs \<and> P (xs ! i) \<and> (\<forall>j < i. \<not> P (xs ! j))"
proof (induction xs arbitrary: i)
  case Nil
  then show ?case by simp
next
  case (Cons x xs)
  then show ?case
    by (auto simp: less_Suc_eq_0_disj nth_Cons' split: if_splits)
qed

lemma find_index_None: "find_index P xs = None \<longleftrightarrow> (\<forall>x \<in> set xs. \<not> P x)"
  by (induction xs) auto

lemma find_first_split:
  "find P xs = Some x \<Longrightarrow> \<exists>ys zs. xs = ys @ x # zs \<and> P x \<and> (\<forall>y \<in> set ys. \<not> P y)"
proof (induction xs)
  case (Cons a xs)
  show ?case
  proof (cases "P a")
    case True
    with Cons.prems show ?thesis by (intro exI[of _ "[]"] exI[of _ xs]) auto
  next
    case False
    with Cons obtain ys zs where "xs = ys @ x # zs \<and> P x \<and> (\<forall>y \<in> set ys. \<not> P y)" by auto
    with False show ?thesis by (intro exI[of _ "a # ys"] exI[of _ zs]) auto
  qed
qed simp

subsection \<open>Truth of strings\<close>

text \<open>An empty string is falsy: \<open>if (this.activeFileId)\<close>, \<open>if (!hostId)\<close>.\<close>

definition truthy :: "string option \<Rightarrow> string option" where
  "truthy x = (case x of None \<Rightarrow> None | Some i \<Rightarrow> if i = [] then None else Some i)"

subsection \<open>Decimal numbers\<close>

fun digit_char :: "nat \<Rightarrow> char" where
  "digit_char d = char_of (48 + d mod 10)"

fun show_nat :: "nat \<Rightarrow> string" where
  "show_nat n = (if n < 10 then [digit_char n] else show_nat (n div 10) @ [digit_char (n mod 10)])"

declare show_nat.simps [simp del]

definition digit_value :: "char \<Rightarrow> nat" where
  "digit_value c = of_char c - 48"

definition read_nat :: "string \<Rightarrow> nat" where
  "read_nat s = foldl (\<lambda>acc c. 10 * acc + digit_value c) 0 s"

lemma digit_value_char [simp]: "digit_value (digit_char d) = d mod 10"
proof -
  have "d mod 10 < 10" by simp
  then have "(48 + d mod 10) mod 256 = 48 + d mod 10" by simp
  then show ?thesis by (simp add: digit_value_def)
qed

lemma read_show_nat [simp]: "read_nat (show_nat n) = n"
proof (induction n rule: show_nat.induct)
  case (1 n)
  show ?case
  proof (cases "n < 10")
    case True
    then show ?thesis by (subst show_nat.simps) (simp add: read_nat_def del: digit_char.simps)
  next
    case False
    with 1 have "read_nat (show_nat (n div 10)) = n div 10" by simp
    with False show ?thesis
      by (subst show_nat.simps) (simp add: read_nat_def del: digit_char.simps)
  qed
qed

lemma show_nat_inj [simp]: "show_nat m = show_nat n \<longleftrightarrow> m = n"
  by (metis read_show_nat)

subsection \<open>The registry interface\<close>

text \<open>
  What the client's registries (pending requests, sessions, conversations, rooms, receivers)
  rely on: reading after a write or a removal, and a representation invariant that every
  operation keeps. The lemmas of the locale are the facts the components use.
\<close>

locale keyed_store =
  fixes get :: "'m \<Rightarrow> 'k \<Rightarrow> 'v option"
    and put :: "'k \<Rightarrow> 'v \<Rightarrow> 'm \<Rightarrow> 'm"
    and del :: "'k \<Rightarrow> 'm \<Rightarrow> 'm"
    and keys :: "'m \<Rightarrow> 'k list"
    and inv :: "'m \<Rightarrow> bool"
  assumes get_put: "get (put k v m) k' = (if k' = k then Some v else get m k')"
    and get_del: "get (del k m) k' = (if k' = k then None else get m k')"
    and keys_get: "k \<in> set (keys m) \<longleftrightarrow> get m k \<noteq> None"
    and keys_distinct: "inv m \<Longrightarrow> distinct (keys m)"
    and inv_put: "inv m \<Longrightarrow> inv (put k v m)"
    and inv_del: "inv m \<Longrightarrow> inv (del k m)"
begin

lemma keys_put: "set (keys (put k v m)) = insert k (set (keys m))"
  by (auto simp: keys_get get_put split: if_splits)

lemma keys_del: "set (keys (del k m)) = set (keys m) - {k}"
  by (auto simp: keys_get get_del split: if_splits)

lemma card_put: "inv m \<Longrightarrow> length (keys (put k v m)) = (if get m k = None then Suc (length (keys m)) else length (keys m))"
proof -
  assume m: "inv m"
  have "length (keys (put k v m)) = card (set (keys (put k v m)))"
    using keys_distinct[OF inv_put[OF m]] by (simp add: distinct_card)
  also have "\<dots> = card (insert k (set (keys m)))"
    by (simp only: keys_put)
  also have "\<dots> = (if get m k = None then Suc (card (set (keys m))) else card (set (keys m)))"
    by (simp add: card_insert_if keys_get)
  finally show ?thesis
    using keys_distinct[OF m] by (simp add: distinct_card)
qed

lemma card_del: "inv m \<Longrightarrow> length (keys (del k m)) = (if get m k = None then length (keys m) else length (keys m) - 1)"
proof -
  assume m: "inv m"
  have "length (keys (del k m)) = card (set (keys m) - {k})"
    using keys_distinct[OF inv_del[OF m]] keys_del[of k m] by (metis distinct_card)
  then show ?thesis
    using keys_distinct[OF m] by (auto simp: keys_get card_Diff_singleton_if distinct_card)
qed

lemma empty_after_del: "inv m \<Longrightarrow> set (keys m) \<subseteq> {k} \<Longrightarrow> keys (del k m) = []"
  by (metis Diff_eq_empty_iff keys_del set_empty)

end

interpretation jm: keyed_store mget mset_key mdel mkeys mwf
proof unfold_locales
  show "distinct (mkeys m)" if "mwf m" for m :: "('k \<times> 'v) list"
    using that by (simp add: mwf_def mkeys_def)
qed (auto simp: mkeys_mhas mhas_get)

subsection \<open>Transition systems\<close>

text \<open>
  A component whose inputs are events: a step function on states, a start state and an
  invariant. Every state a sequence of events leads to satisfies the invariant.
\<close>

fun run_events :: "('e \<Rightarrow> 's \<Rightarrow> 's) \<Rightarrow> 'e list \<Rightarrow> 's \<Rightarrow> 's" where
  "run_events step [] s = s"
| "run_events step (e # es) s = run_events step es (step e s)"

lemma run_events_append: "run_events step (xs @ ys) s = run_events step ys (run_events step xs s)"
  by (induction xs arbitrary: s) auto

locale transition_system =
  fixes step :: "'e \<Rightarrow> 's \<Rightarrow> 's"
    and start :: "'s \<Rightarrow> bool"
    and inv :: "'s \<Rightarrow> bool"
  assumes inv_start: "start s \<Longrightarrow> inv s"
    and inv_step: "inv s \<Longrightarrow> inv (step e s)"
begin

lemma inv_run: "inv s \<Longrightarrow> inv (run_events step es s)"
  by (induction es arbitrary: s) (auto intro: inv_step)

lemma inv_reachable: "start s \<Longrightarrow> inv (run_events step es s)"
  by (intro inv_run inv_start)

end

end
