(* ===== verification/Protocol.thy ===== *)
theory Protocol
  imports LIM_Prelude
begin

text \<open>
  The protocol types of \<open>ui/src/types.ts\<close>: envelopes, payload records, enumerations and the
  request constructor \<open>req\<close> with its module counter \<open>_txnSeq\<close>.

  JSON payloads the client writes itself are values of the datatype \<open>json\<close>, so the difference
  between the boolean \<open>true\<close> and the string \<open>"true"\<close> is part of the model. Optional fields
  (\<open>x?: T\<close>) are options; a property whose value is \<open>undefined\<close> is left out by
  \<open>JSON.stringify\<close>, which \<open>opt_field\<close> writes out.
\<close>

subsection \<open>JSON values\<close>

datatype json =
    JNull
  | JBool bool
  | JNum int
  | JStr string
  | JList "json list"
  | JObj "(string \<times> json) list"

definition opt_field :: "string \<Rightarrow> ('a \<Rightarrow> json) \<Rightarrow> 'a option \<Rightarrow> (string \<times> json) list" where
  "opt_field k f v = (case v of None \<Rightarrow> [] | Some x \<Rightarrow> [(k, f x)])"

fun jfield :: "string \<Rightarrow> json \<Rightarrow> json option" where
  "jfield k (JObj fs) = map_of fs k"
| "jfield k _ = None"

subsection \<open>Envelopes\<close>

datatype dir = Req | Res | Ev

record envelope =
  ev_v :: int
  ev_txn :: "string option"
  ev_dir :: dir
  ev_ns :: string
  ev_m :: string
  ev_ok :: "bool option"
  ev_err :: "(int \<times> string) option"
  ev_d :: "json option"

text \<open>
  \<open>txn = `t-${++_txnSeq}`\<close>: the counter is incremented first, so the first transaction is
  \<open>t-1\<close>. \<open>req\<close> returns the envelope and the new counter.
\<close>

definition txn_of :: "nat \<Rightarrow> string" where
  "txn_of n = ''t-'' @ show_nat n"

definition req :: "string \<Rightarrow> string \<Rightarrow> json option \<Rightarrow> nat \<Rightarrow> envelope \<times> nat" where
  "req ns m d seq =
     (\<lparr>ev_v = 1, ev_txn = Some (txn_of (Suc seq)), ev_dir = Req, ev_ns = ns, ev_m = m,
       ev_ok = None, ev_err = None, ev_d = d\<rparr>, Suc seq)"

lemma txn_of_inj [simp]: "txn_of m = txn_of n \<longleftrightarrow> m = n"
  by (simp add: txn_of_def)

lemma txn_of_not_Nil [simp]: "txn_of n \<noteq> []"
  by (simp add: txn_of_def)

subsection \<open>Identity and discovery\<close>

datatype platform = Win | Mac | Linux

record hello_payload =
  hp_deviceId :: string
  hp_name :: string
  hp_platform :: platform
  hp_version :: string

datatype via = Lan | Relay
datatype cap = CapChat | CapMedia | CapFile | CapRemote | CapShare

record peer_info =
  pi_deviceId :: string
  pi_name :: string
  pi_host :: string
  pi_netmask :: string
  pi_via :: via
  pi_lastSeen :: int
  pi_caps :: "cap list"

subsection \<open>Messages\<close>

datatype msg_type = MText | MImage | MAudio | MVideo | MFile | MEmoji | MSystem
datatype msg_kind = KChat | KRoom

record media_ref =
  mr_name :: string
  mr_size :: nat
  mr_mime :: string
  mr_chunk :: "nat option"
  mr_sha256 :: "string option"
  mr_fileId :: "string option"
  mr_url :: "string option"
  mr_thumbUrl :: "string option"
  mr_sha256Ok :: "bool option"

datatype xfer_phase = XSending | XReceiving | XDone | XFailed | XCanceled

record xfer_state =
  xs_phase :: xfer_phase
  xs_got :: nat
  xs_total :: nat

record chat_message =
  cm_kind :: msg_kind
  cm_type :: msg_type
  cm_from :: string
  cm_to :: string
  cm_nonce :: string
  cm_ts :: int
  cm_body :: string
  cm_mediaRef :: "media_ref option"
  cm_replyTo :: "string option"

subsection \<open>Rooms, calls and remote input\<close>

text \<open>
  A room arrives as an unchecked cast of a payload, and the code spreads payloads over the stored
  room and guards \<open>members\<close>: every field but the id can be absent.
\<close>

record room_info =
  ri_roomId :: string
  ri_name :: "string option"
  ri_owner :: "string option"
  ri_members :: "string list option"
  ri_seq :: "nat option"
  ri_meshPort :: "nat option"

datatype media_mode = Voice | Video | Share | Remote

datatype sdp_type = Offer | Answer

record session_description =
  sd_sdp :: string
  sd_type :: sdp_type

record ice_candidate =
  ic_candidate :: string
  ic_sdpMLineIndex :: "nat option"
  ic_sdpMid :: "string option"

datatype input_type = MouseMove | MouseDown | MouseUp | Wheel | KeyDown | KeyUp

record remote_input =
  in_t :: input_type
  in_x :: "int option"
  in_y :: "int option"
  in_btn :: "int option"
  in_code :: "string option"
  in_d :: "int option"

subsection \<open>Files\<close>

record file_meta =
  fm_fileId :: string
  fm_to :: string
  fm_name :: string
  fm_size :: nat
  fm_mime :: string
  fm_sha256 :: "string option"

record chunk_header =
  ch_fileId :: string
  ch_chunkIndex :: nat
  ch_total :: nat
  ch_offset :: nat
  ch_len :: nat

datatype transfer_phase = TPending | TSending | TDone | TFailed | TCanceled

record transfer_status =
  ts_fileId :: string
  ts_name :: "string option"
  ts_total :: "nat option"
  ts_sent :: "nat option"
  ts_state :: transfer_phase

subsection \<open>The ready states of a data channel\<close>

datatype dc_state = DcConnecting | DcOpen | DcClosing | DcClosed

subsection \<open>Profile\<close>

record profile =
  pr_deviceId :: string
  pr_name :: string
  pr_avatar :: "string option"
  pr_joinedRooms :: "string list"

subsection \<open>Wire spellings of the enumerations\<close>

fun mode_name :: "media_mode \<Rightarrow> string" where
  "mode_name Voice = ''voice''"
| "mode_name Video = ''video''"
| "mode_name Share = ''share''"
| "mode_name Remote = ''remote''"

fun kind_name :: "msg_kind \<Rightarrow> string" where
  "kind_name KChat = ''chat''"
| "kind_name KRoom = ''room''"

fun type_name :: "msg_type \<Rightarrow> string" where
  "type_name MText = ''text''"
| "type_name MImage = ''image''"
| "type_name MAudio = ''audio''"
| "type_name MVideo = ''video''"
| "type_name MFile = ''file''"
| "type_name MEmoji = ''emoji''"
| "type_name MSystem = ''system''"

fun platform_name :: "platform \<Rightarrow> string" where
  "platform_name Win = ''win''"
| "platform_name Mac = ''mac''"
| "platform_name Linux = ''linux''"

fun input_name :: "input_type \<Rightarrow> string" where
  "input_name MouseMove = ''mousemove''"
| "input_name MouseDown = ''mousedown''"
| "input_name MouseUp = ''mouseup''"
| "input_name Wheel = ''wheel''"
| "input_name KeyDown = ''keydown''"
| "input_name KeyUp = ''keyup''"

definition media_ref_json :: "media_ref \<Rightarrow> json" where
  "media_ref_json r = JObj
     ([(''name'', JStr (mr_name r)), (''size'', JNum (int (mr_size r))), (''mime'', JStr (mr_mime r))]
      @ opt_field ''fileId'' JStr (mr_fileId r) @ opt_field ''sha256'' JStr (mr_sha256 r))"

definition file_meta_json :: "file_meta \<Rightarrow> json" where
  "file_meta_json f = JObj
     ([(''fileId'', JStr (fm_fileId f)), (''to'', JStr (fm_to f)), (''name'', JStr (fm_name f)),
       (''size'', JNum (int (fm_size f))), (''mime'', JStr (fm_mime f))]
      @ opt_field ''sha256'' JStr (fm_sha256 f))"

definition remote_input_json :: "remote_input \<Rightarrow> json" where
  "remote_input_json e = JObj
     ([(''t'', JStr (input_name (in_t e)))]
      @ opt_field ''x'' JNum (in_x e) @ opt_field ''y'' JNum (in_y e)
      @ opt_field ''btn'' JNum (in_btn e) @ opt_field ''code'' JStr (in_code e)
      @ opt_field ''d'' JNum (in_d e))"

end
