(* ===== verification/App_Store.thy ===== *)
theory App_Store
  imports Protocol
begin

text \<open>
  The reactive store of \<open>ui/src/store.ts\<close>: the application state with its initial value, the
  \<open>Store\<close> class (\<open>patch\<close>, \<open>emit\<close>, \<open>on\<close>), \<open>toast\<close>, and the part of the client state every
  handler works on: the store, the envelopes handed to the control socket and the transaction
  counter.

  A listener is an identifier; \<open>st_calls\<close> records the state each call of a listener sees. Toast
  texts are constructors of \<open>toast_text\<close>, one per message of the source, with the values interpolated.
\<close>

subsection \<open>The application state\<close>

datatype delivery = DSending | DSent | DDelivered | DFailed

record chat_item = chat_message +
  ci_localSeq :: nat
  ci_status :: "delivery option"
  ci_xfer :: "xfer_state option"

datatype call_direction = Incoming | Outgoing
datatype call_state = Ringing | Connecting | Live | Ended

record media_peer =
  mp_deviceId :: string
  mp_name :: string
  mp_mode :: media_mode

record media_session =
  ms_callId :: string
  ms_peer :: media_peer
  ms_direction :: call_direction
  ms_state :: call_state
  ms_roomShare :: bool
  ms_shareReq :: "(string \<times> string) option"
  ms_ctrlReq :: "(string \<times> string) option"
  ms_ctrl :: bool
  ms_controllers :: "string list option"

datatype route = RRoster | RChat string msg_kind

datatype toast_text =
    NFileDone string
  | NJoined "string option"
  | NInvited "string option" nat
  | NMemberIn string
  | NKicked string
  | NFileReceived string
  | NChannelUp
  | NAskStop string
  | NStopApproved
  | NStopIgnored
  | NAskControl string
  | NControlDenied
  | NControlReleased string
  | NControlRevoked
  | NShareStarted nat
  | NViewerKicked nat
  | NStopRequested
  | NControlRequested
  | NControlFailed string
  | NYouRevoked string
  | NNeedName
  | NOnline
  | NAcceptFailed
  | NCallFailed
  | NShareFailed
  | NRemoteFailed
  | NRoomVideo
  | NRoomInvited
  | NRoomShareFailed
  | NRoomCreateFailed
  | NVoiceSent
  | NNoMicrophone

record app_state =
  connected :: bool
  app_profile :: "profile option"
  peers :: "(string, peer_info) jsmap"
  app_route :: route
  conversations :: "(string, chat_item list) jsmap"
  rooms :: "(string, room_info) jsmap"
  media :: "media_session option"
  app_toast :: "toast_text option"

definition initial :: app_state where
  "initial = \<lparr>connected = False, app_profile = None, peers = [], app_route = RRoster,
     conversations = [], rooms = [], media = None, app_toast = None\<rparr>"

lemma initial_simps [simp]:
  "connected initial = False" "app_profile initial = None" "peers initial = []"
  "app_route initial = RRoster" "conversations initial = []" "rooms initial = []"
  "media initial = None" "app_toast initial = None"
  by (simp_all add: initial_def)

subsection \<open>The Store class\<close>

record 'a store =
  st_state :: 'a
  st_listeners :: "nat list"
  st_calls :: "(nat \<times> 'a) list"

definition new_store :: "'a \<Rightarrow> 'a store" where
  "new_store s = \<lparr>st_state = s, st_listeners = [], st_calls = []\<rparr>"

definition emit :: "'a store \<Rightarrow> 'a store" where
  "emit st = st\<lparr>st_calls := st_calls st @ map (\<lambda>l. (l, st_state st)) (st_listeners st)\<rparr>"

definition store_patch :: "('a \<Rightarrow> 'a) \<Rightarrow> 'a store \<Rightarrow> 'a store" where
  "store_patch p st = emit (st\<lparr>st_state := p (st_state st)\<rparr>)"

definition store_on :: "nat \<Rightarrow> 'a store \<Rightarrow> 'a store" where
  "store_on l st = st\<lparr>st_listeners := set_add l (st_listeners st)\<rparr>"

definition store_off :: "nat \<Rightarrow> 'a store \<Rightarrow> 'a store" where
  "store_off l st = st\<lparr>st_listeners := set_del l (st_listeners st)\<rparr>"

lemma st_state_patch [simp]: "st_state (store_patch p st) = p (st_state st)"
  by (simp add: store_patch_def emit_def)

lemma st_listeners_patch [simp]: "st_listeners (store_patch p st) = st_listeners st"
  by (simp add: store_patch_def emit_def)

text \<open>A patch calls every subscribed listener exactly once, in subscription order and with the
  new state, after the calls already made; a listener added twice is called once, and one that was
  removed is not called.\<close>

theorem patch_notifies:
  assumes "distinct (st_listeners st)"
  shows "st_state (store_patch p st) = p (st_state st)
    \<and> st_calls (store_patch p st) = st_calls st @ map (\<lambda>l. (l, p (st_state st))) (st_listeners st)
    \<and> distinct (st_listeners (store_on l st))
    \<and> length (filter (\<lambda>c. fst c = l) (st_calls (store_patch p (store_on l st))))
        = Suc (length (filter (\<lambda>c. fst c = l) (st_calls st)))
    \<and> filter (\<lambda>c. fst c = l) (st_calls (store_patch p (store_off l st)))
        = filter (\<lambda>c. fst c = l) (st_calls st)"
proof -
  have count: "length (filter (\<lambda>c. fst c = l) (map (\<lambda>l. (l, x)) xs)) = 1"
    if "distinct xs" "l \<in> set xs" for xs and x :: 'a
    using that by (induction xs) (auto simp: filter_empty_conv)
  have none: "filter (\<lambda>c. fst c = l) (map (\<lambda>l. (l, x)) (set_del l xs)) = []" for xs and x :: 'a
    by (auto simp: filter_empty_conv set_del_def)
  show ?thesis
    using assms count[of "set_add l (st_listeners st)"] none
    by (simp add: store_patch_def emit_def store_on_def store_off_def)
qed

theorem patch_notifies_witness:
  "st_calls (store_patch Suc (store_on 7 (new_store (0::nat)))) = [(7, 1)]"
  using patch_notifies[of "store_on 7 (new_store (0::nat))" Suc 7]
  by (simp add: new_store_def store_on_def set_add_def)

subsection \<open>The client state every handler works on\<close>

text \<open>
  \<open>ui_out\<close> lists the envelopes handed to \<open>this.ws?.send\<close>, in order; whether the socket takes
  them is the matter of \<open>Rpc_Client\<close>.
\<close>

record ui =
  ui_store :: "app_state store"
  ui_out :: "envelope list"
  ui_txn :: nat

abbreviation app :: "'a ui_scheme \<Rightarrow> app_state" where
  "app s \<equiv> st_state (ui_store s)"

definition patch :: "(app_state \<Rightarrow> app_state) \<Rightarrow> 'a ui_scheme \<Rightarrow> 'a ui_scheme" where
  "patch p s = s\<lparr>ui_store := store_patch p (ui_store s)\<rparr>"

definition send :: "string \<Rightarrow> string \<Rightarrow> json option \<Rightarrow> 'a ui_scheme \<Rightarrow> 'a ui_scheme" where
  "send ns m d s =
     (let (env, n) = req ns m d (ui_txn s) in s\<lparr>ui_out := ui_out s @ [env], ui_txn := n\<rparr>)"

definition toast :: "toast_text \<Rightarrow> 'a ui_scheme \<Rightarrow> 'a ui_scheme" where
  "toast n s = patch (\<lambda>a. a\<lparr>app_toast := Some n\<rparr>) s"

text \<open>The timer of \<open>toast\<close>, 3200 ms later: it clears whatever toast is shown by then.\<close>

definition toast_expire :: "'a ui_scheme \<Rightarrow> 'a ui_scheme" where
  "toast_expire s = patch (\<lambda>a. a\<lparr>app_toast := None\<rparr>) s"

definition self_id :: "'a ui_scheme \<Rightarrow> string option" where
  "self_id s = map_option pr_deviceId (app_profile (app s))"

definition ui_init :: ui where
  "ui_init = \<lparr>ui_store = new_store initial, ui_out = [], ui_txn = 0\<rparr>"

lemma patch_simps [simp]:
  "app (patch p s) = p (app s)" "ui_out (patch p s) = ui_out s" "ui_txn (patch p s) = ui_txn s"
  "ui.more (patch p s) = ui.more s"
  by (simp_all add: patch_def)

lemma send_simps [simp]:
  "ui_store (send ns m d s) = ui_store s" "ui_txn (send ns m d s) = Suc (ui_txn s)"
  "ui_out (send ns m d s) = ui_out s @ [fst (req ns m d (ui_txn s))]"
  "ui.more (send ns m d s) = ui.more s"
  by (simp_all add: send_def req_def)

lemma toast_simps [simp]:
  "app (toast n s) = (app s)\<lparr>app_toast := Some n\<rparr>" "ui_out (toast n s) = ui_out s"
  "ui_txn (toast n s) = ui_txn s" "ui.more (toast n s) = ui.more s"
  by (simp_all add: toast_def)

text \<open>What was sent, without the transaction numbers: namespace, method and payload.\<close>

definition sent :: "'a ui_scheme \<Rightarrow> (string \<times> string \<times> json option) list" where
  "sent s = map (\<lambda>e. (ev_ns e, ev_m e, ev_d e)) (ui_out s)"

lemma sent_simps [simp]:
  "sent (patch p s) = sent s" "sent (toast n s) = sent s"
  "sent (send ns m d s) = sent s @ [(ns, m, d)]"
  by (simp_all add: sent_def req_def)

lemma self_id_simps [simp]:
  "self_id (send ns m d s) = self_id s" "self_id (toast n s) = self_id s"
  by (simp_all add: self_id_def)

end
