(* ===== verification/Rpc_Client.thy ===== *)
theory Rpc_Client
  imports App_Store
begin

text \<open>
  The control connection of \<open>ui/src/client/native_client.ts\<close> (class \<open>NativeClient\<close>): connecting
  and reconnecting, correlation of requests and responses by transaction id, time-outs, the event
  log and the dispatch of events to the registered handlers.

  A promise of \<open>request\<close> is identified by the number of its transaction; \<open>rp_settled\<close> lists the
  calls of \<open>resolve\<close> and \<open>reject\<close> in order. \<open>JSON.parse\<close> has happened when \<open>on_message\<close> is
  called: \<open>None\<close> is a frame it throws on. Handlers are values \<open>'h\<close>; \<open>rp_invoked\<close> lists their
  calls. A socket is identified by the token \<open>connect\<close> gave it.
\<close>

datatype outcome = Resolved "json option" | Rejected string

record 'h rpc = ui +
  rp_connectSeq :: nat
  rp_ws :: "nat option"
  rp_handlers :: "(string, 'h) jsmap"
  rp_pending :: "(string, nat) jsmap"
  rp_settled :: "(nat \<times> outcome) list"
  rp_timers :: "string list"
  rp_evlog :: "(string \<times> string \<times> json option) list"
  rp_invoked :: "('h \<times> string \<times> json option \<times> string option) list"
  rp_reconnects :: nat
  rp_stored :: "(string \<times> string) option"
  rp_userAgent :: string

definition rpc_init :: "string \<Rightarrow> (string \<times> string) option \<Rightarrow> 'h rpc" where
  "rpc_init ua stored = ui.extend ui_init
     \<lparr>rp_connectSeq = 0, rp_ws = None, rp_handlers = [], rp_pending = [], rp_settled = [],
      rp_timers = [], rp_evlog = [], rp_invoked = [], rp_reconnects = 0, rp_stored = stored,
      rp_userAgent = ua\<rparr>"

subsection \<open>Platform detection\<close>

fun contains :: "string \<Rightarrow> string \<Rightarrow> bool" where
  "contains p [] = (p = [])"
| "contains p (c # cs) = (take (length p) (c # cs) = p \<or> contains p cs)"

text \<open>\<open>/Mac|iPhone|iPad/.test(ua)\<close>, then \<open>/Linux/.test(ua)\<close>, then the default.\<close>

definition detectPlatform :: "string \<Rightarrow> platform" where
  "detectPlatform ua =
     (if contains ''Mac'' ua \<or> contains ''iPhone'' ua \<or> contains ''iPad'' ua then Mac
      else if contains ''Linux'' ua then Linux
      else Win)"

subsection \<open>Connecting\<close>

text \<open>\<open>ENDPOINTS.wsControl\<close>: the \<open>port\<close> parameter of the page's query, when it is there and not empty.\<close>

definition wsControl :: "string option \<Rightarrow> string" where
  "wsControl port = ''ws://127.0.0.1:'' @ (case truthy port of None \<Rightarrow> ''7615'' | Some p \<Rightarrow> p) @ ''/ws''"

definition connect :: "'h rpc \<Rightarrow> 'h rpc" where
  "connect s = (let token = Suc (rp_connectSeq s)
     in s\<lparr>rp_connectSeq := token, rp_ws := Some token\<rparr>)"

definition hello_json :: "string \<Rightarrow> string \<Rightarrow> platform \<Rightarrow> json" where
  "hello_json did nm pf = JObj
     [(''deviceId'', JStr did), (''name'', JStr nm), (''platform'', JStr (platform_name pf)),
      (''version'', JStr ''0.1.0'')]"

definition scan_json :: json where
  "scan_json = JObj [(''requireCross'', JBool True)]"

definition ws_onopen :: "'h rpc \<Rightarrow> 'h rpc" where
  "ws_onopen s = (let s1 = patch (\<lambda>a. a\<lparr>connected := True\<rparr>) s in
     case rp_stored s1 of
       None \<Rightarrow> s1
     | Some (did, nm) \<Rightarrow>
         send ''discovery'' ''scan_start'' (Some scan_json)
           (send ''identity'' ''hello'' (Some (hello_json did nm (detectPlatform (rp_userAgent s1)))) s1))"

text \<open>The close handler of the socket with token \<open>token\<close>: a stale socket is ignored.\<close>

definition ws_onclose :: "nat \<Rightarrow> 'h rpc \<Rightarrow> 'h rpc" where
  "ws_onclose token s =
     (if rp_connectSeq s \<noteq> token then s
      else (patch (\<lambda>a. a\<lparr>connected := False\<rparr>) s)\<lparr>rp_reconnects := Suc (rp_reconnects s)\<rparr>)"

text \<open>The reconnect timer, 1500 ms after the close.\<close>

definition reconnect_timer :: "'h rpc \<Rightarrow> 'h rpc" where
  "reconnect_timer s =
     (if rp_reconnects s = 0 then s else connect (s\<lparr>rp_reconnects := rp_reconnects s - 1\<rparr>))"

subsection \<open>Requests, responses, time-outs\<close>

text \<open>\<open>request\<close>: \<open>send\<close>, then the promise is registered under the transaction id.\<close>

definition request :: "string \<Rightarrow> string \<Rightarrow> json option \<Rightarrow> 'h rpc \<Rightarrow> 'h rpc" where
  "request ns m d s =
     (let s1 = send ns m d s; n = ui_txn s1; txn = txn_of n
      in s1\<lparr>rp_pending := mset_key txn n (rp_pending s1), rp_timers := rp_timers s1 @ [txn]\<rparr>)"

definition request_timeout :: "string \<Rightarrow> 'h rpc \<Rightarrow> 'h rpc" where
  "request_timeout txn s =
     (case mget (rp_pending s) txn of
        None \<Rightarrow> s
      | Some p \<Rightarrow> s\<lparr>rp_pending := mdel txn (rp_pending s),
                   rp_settled := rp_settled s @ [(p, Rejected ''timeout'')]\<rparr>)"

definition ns_key :: "string \<Rightarrow> string \<Rightarrow> string" where
  "ns_key ns m = ns @ ''.'' @ m"

definition on_handler :: "string \<Rightarrow> string \<Rightarrow> 'h \<Rightarrow> 'h rpc \<Rightarrow> 'h rpc" where
  "on_handler ns m h s = s\<lparr>rp_handlers := mset_key (ns_key ns m) h (rp_handlers s)\<rparr>"

text \<open>\<open>evlog\<close> is trimmed to its last 200 entries before the push when it holds more than 200.\<close>

definition evlog_push :: "'e \<Rightarrow> 'e list \<Rightarrow> 'e list" where
  "evlog_push e xs = (if length xs > 200 then drop (length xs - 200) xs else xs) @ [e]"

definition on_message :: "envelope option \<Rightarrow> 'h rpc \<Rightarrow> 'h rpc" where
  "on_message frame s =
     (case frame of
        None \<Rightarrow> s
      | Some env \<Rightarrow>
        (case ev_dir env of
           Res \<Rightarrow>
            (let txn = (case ev_txn env of None \<Rightarrow> [] | Some t \<Rightarrow> t)
             in case mget (rp_pending s) txn of
                  None \<Rightarrow> s
                | Some p \<Rightarrow>
                    s\<lparr>rp_pending := mdel txn (rp_pending s),
                      rp_settled := rp_settled s @
                        [(p, if ev_ok env = Some True then Resolved (ev_d env)
                             else Rejected (case ev_err env of
                                 Some (code, msg) \<Rightarrow> if msg = [] then ''rpc error'' else msg
                               | None \<Rightarrow> ''rpc error''))]\<rparr>)
         | Ev \<Rightarrow>
            (let s1 = s\<lparr>rp_evlog := evlog_push (ev_ns env, ev_m env, ev_d env) (rp_evlog s)\<rparr>
             in case mget (rp_handlers s1) (ns_key (ev_ns env) (ev_m env)) of
                  None \<Rightarrow> s1
                | Some h \<Rightarrow> s1\<lparr>rp_invoked := rp_invoked s1 @ [(h, ev_m env, ev_d env, ev_txn env)]\<rparr>)
         | Req \<Rightarrow> s))"

subsection \<open>The connection as a transition system\<close>

datatype 'h rpc_event =
    EConnect | EOpen | EClose nat | EReconnect
  | ERequest string string "json option"
  | ESend string string "json option"
  | EMessage "envelope option"
  | ETimeout string
  | EOn string string 'h

fun rpc_step :: "'h rpc_event \<Rightarrow> 'h rpc \<Rightarrow> 'h rpc" where
  "rpc_step EConnect s = connect s"
| "rpc_step EOpen s = ws_onopen s"
| "rpc_step (EClose t) s = ws_onclose t s"
| "rpc_step EReconnect s = reconnect_timer s"
| "rpc_step (ERequest ns m d) s = request ns m d s"
| "rpc_step (ESend ns m d) s = send ns m d s"
| "rpc_step (EMessage f) s = on_message f s"
| "rpc_step (ETimeout t) s = request_timeout t s"
| "rpc_step (EOn ns m h) s = on_handler ns m h s"

text \<open>
  The bookkeeping invariant: every pending entry is keyed by the transaction id of its promise and
  was issued, a pending promise is not settled, no promise is settled twice.
\<close>

definition rpc_inv :: "'h rpc \<Rightarrow> bool" where
  "rpc_inv s \<longleftrightarrow>
     mwf (rp_pending s)
   \<and> (\<forall>t p. mget (rp_pending s) t = Some p \<longrightarrow>
        t = txn_of p \<and> 0 < p \<and> p \<le> ui_txn s \<and> p \<notin> fst ` set (rp_settled s))
   \<and> (\<forall>p \<in> fst ` set (rp_settled s). p \<le> ui_txn s)
   \<and> distinct (map fst (rp_settled s))
   \<and> length (rp_evlog s) \<le> 201"

definition rpc_start :: "'h rpc \<Rightarrow> bool" where
  "rpc_start s \<longleftrightarrow> ui_txn s = 0 \<and> rp_pending s = [] \<and> rp_settled s = [] \<and> rp_evlog s = []"

lemmas rpc_op_defs = connect_def ws_onopen_def ws_onclose_def reconnect_timer_def
  on_handler_def patch_def send_def req_def Let_def

lemma rpc_inv_frame:
  assumes "rpc_inv s" "rp_pending s' = rp_pending s" "rp_settled s' = rp_settled s"
    "rp_evlog s' = rp_evlog s" "ui_txn s \<le> ui_txn s'"
  shows "rpc_inv s'"
  using assms unfolding rpc_inv_def by (metis (no_types, lifting) order_trans)

lemma rpc_inv_settle:
  assumes inv: "rpc_inv s" and p: "mget (rp_pending s) t = Some p"
  shows "rpc_inv (s\<lparr>rp_pending := mdel t (rp_pending s), rp_settled := rp_settled s @ [(p, out)]\<rparr>)"
proof -
  have t: "t = txn_of p" "p \<le> ui_txn s" "p \<notin> fst ` set (rp_settled s)"
    using inv p by (auto simp: rpc_inv_def)
  have other: "q \<noteq> p" if "mget (rp_pending s) u = Some q" "u \<noteq> t" for u q
    using inv that t(1) by (auto simp: rpc_inv_def)
  show ?thesis
    using inv t other by (auto simp: rpc_inv_def)
qed

lemma rpc_inv_request: "rpc_inv s \<Longrightarrow> rpc_inv (request ns m d s)"
  unfolding rpc_inv_def request_def send_def req_def Let_def
  by (force simp: le_Suc_eq)

lemma evlog_push_length: "length xs \<le> 201 \<Longrightarrow> length (evlog_push e xs) \<le> 201"
  by (simp add: evlog_push_def)

lemma rpc_inv_message: "rpc_inv s \<Longrightarrow> rpc_inv (on_message f s)"
proof -
  assume inv: "rpc_inv s"
  show ?thesis
  proof (cases f)
    case None
    with inv show ?thesis by (simp add: on_message_def)
  next
    case (Some env)
    show ?thesis
    proof (cases "ev_dir env")
      case Req
      with Some inv show ?thesis by (simp add: on_message_def)
    next
      case Res
      with Some inv show ?thesis
        by (auto simp: on_message_def Let_def intro: rpc_inv_settle split: option.splits)
    next
      case Ev
      with Some inv show ?thesis
        by (auto simp: on_message_def Let_def rpc_inv_def evlog_push_length split: option.splits)
    qed
  qed
qed

lemma rpc_inv_step: "rpc_inv s \<Longrightarrow> rpc_inv (rpc_step e s)"
proof (cases e)
  case (ERequest ns m d)
  then show "rpc_inv s \<Longrightarrow> ?thesis" by (simp add: rpc_inv_request)
next
  case (EMessage f)
  then show "rpc_inv s \<Longrightarrow> ?thesis" by (simp add: rpc_inv_message)
next
  case (ETimeout t)
  then show "rpc_inv s \<Longrightarrow> ?thesis"
    by (auto simp: request_timeout_def intro: rpc_inv_settle split: option.splits)
qed (auto simp: rpc_op_defs intro: rpc_inv_frame split: option.splits)

lemma rpc_inv_start: "rpc_start s \<Longrightarrow> rpc_inv s"
  by (simp add: rpc_start_def rpc_inv_def)

interpretation rpc_sys: transition_system rpc_step rpc_start rpc_inv
  by unfold_locales (rule rpc_inv_start rpc_inv_step, assumption)+

lemma rpc_start_init: "rpc_start (rpc_init ua st)"
  by (simp add: rpc_start_def rpc_init_def ui_init_def ui.defs)

subsection \<open>Properties\<close>

text \<open>C17: over any sequence of connects, opens, closes, requests, responses, events and time-outs
  from the initial client, the promise of each request is settled at most once, a pending request
  is one that was issued and not settled, and the event log never holds more than 201 entries.\<close>

theorem rpc_settled_once:
  "let s = run_events rpc_step es (rpc_init ua stored) in
     distinct (map fst (rp_settled s))
   \<and> set (mvals (rp_pending s)) \<inter> fst ` set (rp_settled s) = {}
   \<and> set (mvals (rp_pending s)) \<union> fst ` set (rp_settled s) \<subseteq> {..ui_txn s}
   \<and> length (rp_evlog s) \<le> 201"
proof -
  define s where "s = run_events rpc_step es (rpc_init ua stored)"
  have inv: "rpc_inv s"
    unfolding s_def by (rule rpc_sys.inv_reachable[OF rpc_start_init])
  have pend: "mget (rp_pending s) t = Some p" if "(t, p) \<in> set (rp_pending s)" for t p
    using inv that by (simp add: rpc_inv_def mget_in_set)
  have vals: "p \<le> ui_txn s \<and> p \<notin> fst ` set (rp_settled s)" if "p \<in> set (mvals (rp_pending s))" for p
  proof -
    from that obtain t where "(t, p) \<in> set (rp_pending s)" by (auto simp: mvals_def)
    from pend[OF this] inv show ?thesis unfolding rpc_inv_def by blast
  qed
  have "distinct (map fst (rp_settled s))" "length (rp_evlog s) \<le> 201"
    "fst ` set (rp_settled s) \<subseteq> {..ui_txn s}"
    using inv by (auto simp: rpc_inv_def)
  moreover have "set (mvals (rp_pending s)) \<inter> fst ` set (rp_settled s) = {}"
    "set (mvals (rp_pending s)) \<subseteq> {..ui_txn s}"
    using vals by blast+
  ultimately show ?thesis
    unfolding s_def[symmetric] Let_def by simp
qed

lemma settled_grows: "p \<in> fst ` set (rp_settled s) \<Longrightarrow> p \<in> fst ` set (rp_settled (rpc_step e s))"
  by (cases e) (auto simp: rpc_op_defs request_def request_timeout_def on_message_def image_iff
      split: option.splits dir.splits)

lemma pending_or_settled_step:
  assumes inv: "rpc_inv s"
    and p: "mget (rp_pending s) (txn_of p) = Some p \<or> p \<in> fst ` set (rp_settled s)"
  shows "mget (rp_pending (rpc_step e s)) (txn_of p) = Some p
    \<or> p \<in> fst ` set (rp_settled (rpc_step e s))"
proof (cases "p \<in> fst ` set (rp_settled s)")
  case True
  then show ?thesis by (intro disjI2 settled_grows)
next
  case False
  with p have m: "mget (rp_pending s) (txn_of p) = Some p" by simp
  with inv have le: "p \<le> ui_txn s" by (simp add: rpc_inv_def)
  show ?thesis
    using m le
    by (cases e) (auto simp: rpc_op_defs request_def request_timeout_def on_message_def
        split: option.splits dir.splits if_splits)
qed

lemma pending_or_settled_run:
  assumes "rpc_inv s"
    and "mget (rp_pending s) (txn_of p) = Some p \<or> p \<in> fst ` set (rp_settled s)"
  shows "mget (rp_pending (run_events rpc_step es s)) (txn_of p) = Some p
    \<or> p \<in> fst ` set (rp_settled (run_events rpc_step es s))"
  using assms
  by (induction es arbitrary: s)
     (simp, metis run_events.simps(2) rpc_inv_step pending_or_settled_step)


text \<open>A response settles exactly the request it answers: the promise with that transaction id
  is resolved with the payload when \<open>ok\<close> is set and rejected with the error text otherwise, every
  other pending request keeps its entry, and a response to an unknown transaction changes nothing.\<close>

theorem response_correlates:
  assumes "ev_dir env = Res" "ev_txn env = Some (txn_of n)"
  shows "rp_settled (on_message (Some env) s) =
      (case mget (rp_pending s) (txn_of n) of
         None \<Rightarrow> rp_settled s
       | Some p \<Rightarrow> rp_settled s @
           [(p, if ev_ok env = Some True then Resolved (ev_d env)
                else Rejected (case ev_err env of
                    Some (c, msg) \<Rightarrow> if msg = [] then ''rpc error'' else msg
                  | None \<Rightarrow> ''rpc error''))])
    \<and> (\<forall>k. mget (rp_pending (on_message (Some env) s)) (txn_of k) =
             (if k = n then None else mget (rp_pending s) (txn_of k)))
    \<and> (mget (rp_pending s) (txn_of n) = None \<longrightarrow> on_message (Some env) s = s)"
  using assms by (auto simp: on_message_def split: option.splits)

theorem response_correlates_witness:
  "rp_settled (on_message (Some \<lparr>ev_v = 1, ev_txn = Some (txn_of 1), ev_dir = Res, ev_ns = [],
      ev_m = [], ev_ok = Some True, ev_err = None, ev_d = Some (JNum 7)\<rparr>)
      (request ''roster'' ''list'' None (rpc_init [] None :: nat rpc))) = [(1, Resolved (Some (JNum 7)))]"
  using response_correlates[of "\<lparr>ev_v = 1, ev_txn = Some (txn_of 1), ev_dir = Res, ev_ns = [],
      ev_m = [], ev_ok = Some True, ev_err = None, ev_d = Some (JNum 7)\<rparr>" 1
      "request ''roster'' ''list'' None (rpc_init [] None :: nat rpc)"]
  by (simp add: request_def rpc_init_def ui_init_def ui.defs send_def req_def Let_def)

text \<open>Only the newest socket can take the client offline: the close of a superseded socket
  changes nothing, the close of the current one marks the client disconnected and schedules one
  reconnect, and the reconnect opens a socket with a fresh token.\<close>

theorem close_only_current:
  "(t \<noteq> rp_connectSeq s \<longrightarrow> ws_onclose t s = s)
   \<and> \<not> connected (app (ws_onclose (rp_connectSeq s) s))
   \<and> rp_ws (reconnect_timer (ws_onclose (rp_connectSeq s) s)) = Some (Suc (rp_connectSeq s))
   \<and> rp_connectSeq s < rp_connectSeq (reconnect_timer (ws_onclose (rp_connectSeq s) s))"
  by (simp add: ws_onclose_def reconnect_timer_def connect_def patch_def)

theorem close_only_current_witness:
  "ws_onclose 3 (connect (rpc_init [] None :: nat rpc)) = connect (rpc_init [] None)"
  using close_only_current[of 3 "connect (rpc_init [] None :: nat rpc)"]
  by (simp add: connect_def rpc_init_def ui_init_def ui.defs)

end
