(* ===== verification/Conversations.thy ===== *)
theory Conversations
  imports Rpc_Client "HOL-Library.Multiset"
begin

text \<open>
  The event handlers of \<open>initNativeHooks\<close> in \<open>ui/src/client/native_client.ts\<close> and the two
  loaders \<open>loadHistory\<close> and \<open>loadRoster\<close>: filing messages into conversations, delivery receipts,
  merging the stored history, the peer table and the room table.

  An asynchronous loader is two operations: the request (in \<open>Rpc_Client\<close>) and the continuation of
  its promise, modelled here on the decoded payload. A payload cast (\<open>d as T\<close>) is a record.
  \<open>pushMessage\<close> pushes onto the array that is already in the map; the value of the map afterwards is
  that of a functional update, which is what the model computes.
\<close>

subsection \<open>Filing messages\<close>

definition conv_key :: "string option \<Rightarrow> 'm chat_message_scheme \<Rightarrow> string" where
  "conv_key self msg =
     (if cm_kind msg = KRoom then cm_to msg
      else if Some (cm_from msg) = self then cm_to msg else cm_from msg)"

definition mk_item :: "chat_message \<Rightarrow> nat \<Rightarrow> delivery option \<Rightarrow> xfer_state option \<Rightarrow> chat_item" where
  "mk_item msg n st xf =
     \<lparr>cm_kind = cm_kind msg, cm_type = cm_type msg, cm_from = cm_from msg, cm_to = cm_to msg,
      cm_nonce = cm_nonce msg, cm_ts = cm_ts msg, cm_body = cm_body msg,
      cm_mediaRef = cm_mediaRef msg, cm_replyTo = cm_replyTo msg,
      ci_localSeq = n, ci_status = st, ci_xfer = xf\<rparr>"

lemma mk_item_simps [simp]:
  "cm_nonce (mk_item msg n st xf) = cm_nonce msg" "cm_ts (mk_item msg n st xf) = cm_ts msg"
  "cm_mediaRef (mk_item msg n st xf) = cm_mediaRef msg" "ci_localSeq (mk_item msg n st xf) = n"
  "ci_status (mk_item msg n st xf) = st" "ci_xfer (mk_item msg n st xf) = xf"
  "cm_body (mk_item msg n st xf) = cm_body msg"
  by (simp_all add: mk_item_def)

definition conv_of :: "app_state \<Rightarrow> string \<Rightarrow> chat_item list" where
  "conv_of a k = (case mget (conversations a) k of None \<Rightarrow> [] | Some c \<Rightarrow> c)"

definition set_conv :: "string \<Rightarrow> chat_item list \<Rightarrow> app_state \<Rightarrow> app_state" where
  "set_conv k c a = a\<lparr>conversations := mset_key k c (conversations a)\<rparr>"

lemma conv_of_initial [simp]: "conv_of initial k = []"
  by (simp add: conv_of_def initial_def)

lemma conv_of_set_conv [simp]: "conv_of (set_conv k c a) k' = (if k' = k then c else conv_of a k')"
  by (simp add: conv_of_def set_conv_def)

definition push_item :: "chat_message \<Rightarrow> chat_item list \<Rightarrow> chat_item list" where
  "push_item msg conv = conv @ [mk_item msg (length conv) (Some DSent) None]"

definition pushMessage :: "chat_message \<Rightarrow> 'a ui_scheme \<Rightarrow> 'a ui_scheme" where
  "pushMessage msg s =
     (let key = conv_key (self_id s) msg
      in patch (set_conv key (push_item msg (conv_of (app s) key))) s)"

subsection \<open>History\<close>

text \<open>\<open>pushReceivedFile\<close>; \<open>Date.now()\<close> is read twice, for the nonce and for the time stamp.\<close>

definition pushReceivedFile :: "string \<Rightarrow> media_ref \<Rightarrow> msg_type \<Rightarrow> nat \<Rightarrow> int \<Rightarrow> 'a ui_scheme \<Rightarrow> 'a ui_scheme" where
  "pushReceivedFile peerId mr typ t1 t2 s = pushMessage
     \<lparr>cm_kind = KChat, cm_type = typ, cm_from = peerId,
      cm_to = (case self_id s of None \<Rightarrow> [] | Some i \<Rightarrow> i),
      cm_nonce = ''rtc-'' @ mr_name mr @ ''-'' @ show_nat t1, cm_ts = t2, cm_body = mr_name mr,
      cm_mediaRef = Some mr, cm_replyTo = None\<rparr> s"

text \<open>The loop of \<open>loadHistory\<close>: \<open>seen\<close> and \<open>merged\<close> grow together.\<close>

fun merge_loop :: "string option \<Rightarrow> string \<Rightarrow> chat_message list \<Rightarrow> string list \<Rightarrow> chat_item list
    \<Rightarrow> chat_item list" where
  "merge_loop self target [] seen merged = merged"
| "merge_loop self target (it # items) seen merged =
     (if cm_nonce it \<noteq> [] \<and> cm_nonce it \<in> set seen then merge_loop self target items seen merged
      else if conv_key self it \<noteq> target then merge_loop self target items seen merged
      else merge_loop self target items
             (if cm_nonce it \<noteq> [] then set_add (cm_nonce it) seen else seen)
             (merged @ [mk_item it (length merged) (Some DSent) None]))"

text \<open>\<open>merged.sort((a, b) => a.ts - b.ts)\<close>: the sort of JavaScript is stable, as \<open>sort_key\<close> is.\<close>

definition merge_history :: "string option \<Rightarrow> string \<Rightarrow> chat_message list \<Rightarrow> chat_item list \<Rightarrow> chat_item list" where
  "merge_history self target items conv =
     sort_key cm_ts (merge_loop self target items (set_of_list (map cm_nonce conv)) conv)"

definition history_loaded :: "string \<Rightarrow> chat_message list \<Rightarrow> 'a ui_scheme \<Rightarrow> 'a ui_scheme" where
  "history_loaded target items s =
     patch (set_conv target (merge_history (self_id s) target items (conv_of (app s) target))) s"

definition history_json :: "string \<Rightarrow> msg_kind \<Rightarrow> json" where
  "history_json target k = JObj [(''to'', JStr target), (''kind'', JStr (kind_name k))]"

definition loadHistory :: "string \<Rightarrow> msg_kind \<Rightarrow> 'h rpc \<Rightarrow> 'h rpc" where
  "loadHistory target k s = request ''message'' ''history'' (Some (history_json target k)) s"

subsection \<open>Delivery receipts\<close>

definition mark_delivered :: "chat_item \<Rightarrow> chat_item" where
  "mark_delivered c = c\<lparr>ci_status := Some DDelivered\<rparr>"

text \<open>The loop over the conversations stops at the first one that holds the nonce.\<close>

fun ack_convs :: "string \<Rightarrow> (string, chat_item list) jsmap \<Rightarrow> (string, chat_item list) jsmap" where
  "ack_convs nonce [] = []"
| "ack_convs nonce ((k, arr) # m) =
     (case find_index (\<lambda>c. cm_nonce c = nonce) arr of
        None \<Rightarrow> (k, arr) # ack_convs nonce m
      | Some i \<Rightarrow> (k, arr[i := mark_delivered (arr ! i)]) # m)"

definition on_ack :: "string \<Rightarrow> 'a ui_scheme \<Rightarrow> 'a ui_scheme" where
  "on_ack nonce s =
     (if nonce = [] then s
      else patch (\<lambda>a. a\<lparr>conversations := ack_convs nonce (conversations a)\<rparr>) s)"

subsection \<open>Peers\<close>

definition on_peer_found :: "peer_info \<Rightarrow> 'a ui_scheme \<Rightarrow> 'a ui_scheme" where
  "on_peer_found p s = patch (\<lambda>a. a\<lparr>peers := mset_key (pi_deviceId p) p (peers a)\<rparr>) s"

definition on_peer_lost :: "string \<Rightarrow> 'a ui_scheme \<Rightarrow> 'a ui_scheme" where
  "on_peer_lost did s = patch (\<lambda>a. a\<lparr>peers := mdel did (peers a)\<rparr>) s"

text \<open>\<open>roster_loaded None\<close>: the response carries no array.\<close>

definition roster_loaded :: "peer_info list option \<Rightarrow> 'a ui_scheme \<Rightarrow> 'a ui_scheme" where
  "roster_loaded ps s =
     (case ps of None \<Rightarrow> s
      | Some l \<Rightarrow> patch (\<lambda>a. a\<lparr>peers := fold (\<lambda>p m. mset_key (pi_deviceId p) p m) l []\<rparr>) s)"

definition loadRoster :: "'h rpc \<Rightarrow> 'h rpc" where
  "loadRoster s = request ''roster'' ''list'' (Some (JObj [])) s"

subsection \<open>Call state and file status events\<close>

definition set_connecting :: "app_state \<Rightarrow> app_state" where
  "set_connecting a = a\<lparr>media := map_option (\<lambda>m. m\<lparr>ms_state := Connecting\<rparr>) (media a)\<rparr>"

datatype media_event = MAccepted | MEnded | MOther

fun on_media :: "media_event \<Rightarrow> 'a ui_scheme \<Rightarrow> 'a ui_scheme" where
  "on_media MAccepted s = patch set_connecting s"
| "on_media MEnded s = patch (\<lambda>a. a\<lparr>media := None\<rparr>) s"
| "on_media MOther s = s"

definition on_transfer_status :: "transfer_status \<Rightarrow> 'a ui_scheme \<Rightarrow> 'a ui_scheme" where
  "on_transfer_status st s =
     (if ts_state st = TDone
      then toast (NFileDone (case ts_name st of None \<Rightarrow> [] | Some n \<Rightarrow> n)) s else s)"

subsection \<open>Rooms\<close>

definition over :: "'x option \<Rightarrow> 'x option \<Rightarrow> 'x option" where
  "over old new = (case new of None \<Rightarrow> old | Some x \<Rightarrow> Some x)"

text \<open>\<open>{ ...(prev || {}), ...room }\<close>.\<close>

definition spread_room :: "room_info option \<Rightarrow> room_info \<Rightarrow> room_info" where
  "spread_room prev r =
     (case prev of None \<Rightarrow> r
      | Some p \<Rightarrow> \<lparr>ri_roomId = ri_roomId r, ri_name = over (ri_name p) (ri_name r),
          ri_owner = over (ri_owner p) (ri_owner r), ri_members = over (ri_members p) (ri_members r),
          ri_seq = over (ri_seq p) (ri_seq r), ri_meshPort = over (ri_meshPort p) (ri_meshPort r)\<rparr>)"

definition upsertRoom :: "room_info \<Rightarrow> 'a ui_scheme \<Rightarrow> 'a ui_scheme" where
  "upsertRoom r s =
     patch (\<lambda>a. a\<lparr>rooms := mset_key (ri_roomId r) (spread_room (mget (rooms a) (ri_roomId r)) r) (rooms a)\<rparr>) s"

definition on_joined :: "room_info \<Rightarrow> 'a ui_scheme \<Rightarrow> 'a ui_scheme" where
  "on_joined r s = toast (NJoined (ri_name r)) (upsertRoom r s)"

definition on_invited :: "room_info \<Rightarrow> 'a ui_scheme \<Rightarrow> 'a ui_scheme" where
  "on_invited r s =
     toast (NInvited (ri_name r) (case ri_members r of None \<Rightarrow> 0 | Some ms \<Rightarrow> length ms)) (upsertRoom r s)"

definition on_room_sync :: "room_info \<Rightarrow> 'a ui_scheme \<Rightarrow> 'a ui_scheme" where
  "on_room_sync r s = upsertRoom r s"

definition members_of :: "room_info \<Rightarrow> string list" where
  "members_of r = (case ri_members r of None \<Rightarrow> [] | Some ms \<Rightarrow> ms)"

text \<open>
  \<open>setMembers\<close> with an updater that may show a toast before the room is written.
\<close>

definition setMembers :: "string \<Rightarrow> (string list \<Rightarrow> string list) \<Rightarrow> toast_text option \<Rightarrow> 'a ui_scheme \<Rightarrow> 'a ui_scheme" where
  "setMembers rid upd note_opt s =
     (case mget (rooms (app s)) rid of
        None \<Rightarrow> s
      | Some prev \<Rightarrow>
          (let nxt = prev\<lparr>ri_members := Some (upd (members_of prev))\<rparr>;
               s1 = (case note_opt of None \<Rightarrow> s | Some n \<Rightarrow> toast n s)
           in patch (\<lambda>a. a\<lparr>rooms := mset_key rid nxt (rooms a)\<rparr>) s1))"

definition on_member_joined :: "string \<Rightarrow> string \<Rightarrow> 'a ui_scheme \<Rightarrow> 'a ui_scheme" where
  "on_member_joined rid mem s =
     setMembers rid (\<lambda>ms. set_add mem (set_of_list ms)) (Some (NMemberIn (take 6 mem))) s"

definition on_member_left :: "string \<Rightarrow> string \<Rightarrow> string option \<Rightarrow> 'a ui_scheme \<Rightarrow> 'a ui_scheme" where
  "on_member_left rid mem nm s =
     (if Some mem = self_id s
      then toast (NKicked (case nm of None \<Rightarrow> [] | Some n \<Rightarrow> n))
             (patch (\<lambda>a. a\<lparr>rooms := mdel rid (rooms a)\<rparr>) s)
      else setMembers rid (\<lambda>ms. set_del mem (set_of_list ms)) None s)"

subsection \<open>Sequence numbers: what every operation on a conversation keeps\<close>

text \<open>
  \<open>localSeq\<close> is the length of the array at the time of the push. Because nothing is ever removed,
  the numbers of a conversation are exactly \<open>0..length-1\<close>, each once, also after the history has
  been sorted in.
\<close>

definition seq_ok :: "chat_item list \<Rightarrow> bool" where
  "seq_ok c \<longleftrightarrow> distinct (map ci_localSeq c) \<and> set (map ci_localSeq c) = {..<length c}"

definition convs_ok :: "app_state \<Rightarrow> bool" where
  "convs_ok a \<longleftrightarrow> (\<forall>k c. mget (conversations a) k = Some c \<longrightarrow> seq_ok c)"

lemma seq_ok_Nil [simp]: "seq_ok []"
  by (simp add: seq_ok_def)

lemma seq_ok_snoc: "seq_ok c \<Longrightarrow> ci_localSeq x = length c \<Longrightarrow> seq_ok (c @ [x])"
  by (auto simp: seq_ok_def lessThan_Suc)

lemma seq_ok_perm:
  assumes "mset c = mset d" shows "seq_ok c = seq_ok d"
proof -
  have "mset (map ci_localSeq c) = mset (map ci_localSeq d)" using assms by simp
  then have "distinct (map ci_localSeq c) = distinct (map ci_localSeq d)"
      and "set (map ci_localSeq c) = set (map ci_localSeq d)"
    by (metis mset_eq_imp_distinct_iff, metis mset_eq_setD)
  moreover have "length c = length d" using assms by (rule mset_eq_length)
  ultimately show ?thesis by (simp add: seq_ok_def)
qed

lemma seq_ok_update:
  assumes "ci_localSeq (f (c ! i)) = ci_localSeq (c ! i)" shows "seq_ok (c[i := f (c ! i)]) = seq_ok c"
proof -
  have "map ci_localSeq (c[i := f (c ! i)]) = map ci_localSeq c"
    using assms by (simp add: map_update list_update_same_conv) (metis list_update_beyond linorder_not_less list_update_id map_update nth_map)
  then show ?thesis by (simp add: seq_ok_def)
qed

lemma convs_ok_conv_of: "convs_ok a \<Longrightarrow> seq_ok (conv_of a k)"
  by (auto simp: convs_ok_def conv_of_def split: option.splits)

text \<open>The contract of an operation on one conversation, and what it gives for the whole table.\<close>

locale log_op =
  fixes lop :: "chat_item list \<Rightarrow> chat_item list"
  assumes keeps_seq: "seq_ok c \<Longrightarrow> seq_ok (lop c)"
    and keeps_nonces: "cm_nonce ` set c \<subseteq> cm_nonce ` set (lop c)"
    and keeps_length: "length c \<le> length (lop c)"
begin

lemma table_ok: "convs_ok a \<Longrightarrow> convs_ok (set_conv k (lop (conv_of a k)) a)"
  using keeps_seq[OF convs_ok_conv_of[of a k]] by (auto simp: convs_ok_def set_conv_def)

lemma table_keeps: "cm_nonce ` set (conv_of a k') \<subseteq> cm_nonce ` set (conv_of (set_conv k (lop (conv_of a k)) a) k')"
  using keeps_nonces by auto

lemma iterate: "seq_ok c \<Longrightarrow> seq_ok ((lop ^^ n) c) \<and> length c \<le> length ((lop ^^ n) c)"
  by (induction n) (auto intro: keeps_seq order_trans[OF _ keeps_length])

end

interpretation push: log_op "push_item msg"
  by unfold_locales (auto simp: push_item_def intro: seq_ok_snoc)

lemma merge_loop_extends:
  "\<exists>xs. merge_loop self target items seen merged = merged @ xs
     \<and> (\<forall>x \<in> set xs. \<exists>it \<in> set items. conv_key self it = target
            \<and> x = mk_item it (ci_localSeq x) (Some DSent) None)"
proof (induction self target items seen merged rule: merge_loop.induct)
  case (1 self target seen merged)
  then show ?case by simp
next
  case (2 self target it items seen merged)
  then show ?case
    by (simp split del: if_split) (auto split: if_splits; force)
qed

lemma merge_loop_seq_ok: "seq_ok merged \<Longrightarrow> seq_ok (merge_loop self target items seen merged)"
  by (induction self target items seen merged rule: merge_loop.induct) (auto simp: seq_ok_snoc)

lemma mset_merge_history:
  "mset (merge_history self target items conv)
   = mset (merge_loop self target items (set_of_list (map cm_nonce conv)) conv)"
  by (simp add: merge_history_def)

interpretation hist: log_op "merge_history self target items"
proof unfold_locales
  fix c :: "chat_item list"
  let ?l = "merge_loop self target items (set_of_list (map cm_nonce c)) c"
  obtain xs where xs: "?l = c @ xs" using merge_loop_extends by blast
  have set_eq: "set (merge_history self target items c) = set ?l"
    by (simp add: merge_history_def)
  show "seq_ok (merge_history self target items c)" if "seq_ok c"
    using seq_ok_perm[OF mset_merge_history] merge_loop_seq_ok[OF that] by blast
  show "cm_nonce ` set c \<subseteq> cm_nonce ` set (merge_history self target items c)"
    using set_eq xs by auto
  show "length c \<le> length (merge_history self target items c)"
    using xs by (simp add: merge_history_def)
qed

text \<open>The first match of a conversation, rewritten in place: receipts and file cards.\<close>

definition update_first :: "(chat_item \<Rightarrow> bool) \<Rightarrow> (chat_item \<Rightarrow> chat_item) \<Rightarrow> chat_item list \<Rightarrow> chat_item list" where
  "update_first P f c = (case find_index P c of None \<Rightarrow> c | Some i \<Rightarrow> c[i := f (c ! i)])"

lemma update_first_log_op:
  assumes "\<And>x. ci_localSeq (f x) = ci_localSeq x" "\<And>x. cm_nonce (f x) = cm_nonce x"
  shows "log_op (update_first P f)"
proof
  fix c
  show "seq_ok (update_first P f c)" if "seq_ok c"
    using that assms(1) by (auto simp: update_first_def seq_ok_update split: option.splits)
  have "map cm_nonce (update_first P f c) = map cm_nonce c"
    using assms(2)
    by (auto simp: update_first_def map_update list_update_same_conv dest: find_index_SomeD split: option.splits)
  then show "cm_nonce ` set c \<subseteq> cm_nonce ` set (update_first P f c)"
    by (metis image_set order_refl)
  show "length c \<le> length (update_first P f c)"
    by (simp add: update_first_def split: option.splits)
qed

interpretation receipt: log_op "update_first (\<lambda>c. cm_nonce c = nonce) mark_delivered"
  by (rule update_first_log_op) (simp_all add: mark_delivered_def)

lemma mget_ack_convs:
  "mget (ack_convs nonce m) k = mget m k \<or>
   mget (ack_convs nonce m) k = map_option (update_first (\<lambda>c. cm_nonce c = nonce) mark_delivered) (mget m k)"
  by (induction nonce m rule: ack_convs.induct)
     (auto simp: js_defs update_first_def split: option.splits)

lemma convs_ok_ack: "convs_ok a \<Longrightarrow> convs_ok (a\<lparr>conversations := ack_convs nonce (conversations a)\<rparr>)"
  unfolding convs_ok_def
proof (intro allI impI)
  fix k c
  assume ok: "\<forall>k c. mget (conversations a) k = Some c \<longrightarrow> seq_ok c"
    and c: "mget (conversations (a\<lparr>conversations := ack_convs nonce (conversations a)\<rparr>)) k = Some c"
  show "seq_ok c"
  proof (cases "mget (conversations a) k")
    case None
    with mget_ack_convs[of nonce "conversations a" k] c show ?thesis by simp
  next
    case (Some d)
    with ok have "seq_ok d" by blast
    with receipt.keeps_seq[OF this, of nonce] mget_ack_convs[of nonce "conversations a" k] c Some
    show ?thesis by auto
  qed
qed

lemma ack_convs_skip:
  "\<forall>(k, c) \<in> set pre. nonce \<notin> cm_nonce ` set c \<Longrightarrow> ack_convs nonce (pre @ m) = pre @ ack_convs nonce m"
proof (induction pre)
  case (Cons e pre)
  obtain k c where e: "e = (k, c)" by (cases e)
  with Cons.prems have "find_index (\<lambda>x. cm_nonce x = nonce) c = None"
    by (auto simp: find_index_None)
  with Cons e show ?case by simp
qed simp

lemma find_index_first: "\<forall>x \<in> set xs. \<not> P x \<Longrightarrow> P y \<Longrightarrow> find_index P (xs @ y # ys) = Some (length xs)"
  by (induction xs) auto

subsection \<open>Properties\<close>

text \<open>An incoming message is filed under the room id for a room message and under the other
  party's id for a chat message, whoever of the two sent it; it becomes the last entry of that
  conversation with the next sequence number, and every other conversation, the rooms, the peers and
  the outgoing traffic are left alone.\<close>

theorem push_message_files:
  "let key = (if cm_kind msg = KRoom then cm_to msg
              else if self_id s = Some (cm_from msg) then cm_to msg else cm_from msg);
       s' = pushMessage msg s; old = conv_of (app s) key
   in conv_of (app s') key = old @ [mk_item msg (length old) (Some DSent) None]
    \<and> (\<forall>k. k = key \<or> conv_of (app s') k = conv_of (app s) k)
    \<and> rooms (app s') = rooms (app s) \<and> peers (app s') = peers (app s)
    \<and> ui_out s' = ui_out s"
  by (auto simp: pushMessage_def conv_key_def push_item_def Let_def set_conv_def conv_of_def)

lemma merge_loop_saturated:
  "\<forall>it \<in> set items. conv_key self it = target \<longrightarrow> cm_nonce it \<noteq> [] \<and> cm_nonce it \<in> set seen
   \<Longrightarrow> merge_loop self target items seen merged = merged"
  by (induction self target items seen merged rule: merge_loop.induct) auto

lemma merge_loop_complete:
  assumes "cm_nonce ` set merged \<supseteq> set seen" "it \<in> set items" "conv_key self it = target"
    "\<forall>it \<in> set items. cm_nonce it \<noteq> []"
  shows "cm_nonce it \<in> cm_nonce ` set (merge_loop self target items seen merged)"
  using assms
proof (induction self target items seen merged rule: merge_loop.induct)
  case (2 self target a items seen merged)
  have keep: "cm_nonce ` set m \<subseteq> cm_nonce ` set (merge_loop self target items sn m)" for sn m
    using merge_loop_extends[of self target items sn m] by auto
  show ?case
  proof (cases "it = a")
    case True
    show ?thesis
    proof (cases "cm_nonce a \<in> set seen")
      case True
      with 2(4,7) \<open>it = a\<close> keep[of merged seen] show ?thesis by auto
    next
      case False
      with 2(6,7) \<open>it = a\<close> keep[of "merged @ [mk_item a (length merged) (Some DSent) None]" "set_add (cm_nonce a) seen"]
      show ?thesis by auto
    qed
  next
    case False
    with "2.prems" have "it \<in> set items" by simp
    with 2 show ?thesis by auto
  qed
qed simp

lemma merge_loop_distinct:
  assumes "set seen = cm_nonce ` set merged" "distinct (map cm_nonce merged)"
    "\<forall>it \<in> set items. cm_nonce it \<noteq> []"
  shows "distinct (map cm_nonce (merge_loop self target items seen merged))"
  using assms
  by (induction self target items seen merged rule: merge_loop.induct) auto

text \<open>C25: loading the history of a conversation loses nothing and duplicates nothing: the result is
  sorted by time stamp, holds every entry that was there, holds every fetched message of this
  conversation (by nonce), adds only fetched messages of this conversation, stays free of duplicate
  nonces, and loading the same history a second time changes nothing.\<close>

theorem history_merge:
  fixes s :: "'a ui_scheme"
  assumes nonempty: "\<forall>it \<in> set items. cm_nonce it \<noteq> []"
    and dist: "distinct (map cm_nonce (conv_of (app s) target))"
  shows "let old = conv_of (app s) target; s' = history_loaded target items s;
             new = conv_of (app s') target in
      sorted (map cm_ts new)
    \<and> mset old \<subseteq># mset new
    \<and> cm_nonce ` set new = cm_nonce ` set old \<union>
        {cm_nonce it | it. it \<in> set items \<and> conv_key (self_id s) it = target}
    \<and> distinct (map cm_nonce new)
    \<and> conv_of (app (history_loaded target items s')) target = new"
proof -
  define old where "old = conv_of (app s) target"
  define self where "self = self_id s"
  define seen where "seen = set_of_list (map cm_nonce old)"
  define l where "l = merge_loop self target items seen old"
  define new where "new = sort_key cm_ts l"
  obtain xs where xs: "l = old @ xs"
    and from_items: "\<forall>x \<in> set xs. \<exists>it \<in> set items. conv_key self it = target
            \<and> x = mk_item it (ci_localSeq x) (Some DSent) None"
    using merge_loop_extends[of self target items seen old] l_def by auto
  have seen: "set seen = cm_nonce ` set old" by (simp add: seen_def)
  have complete: "cm_nonce it \<in> cm_nonce ` set l" if "it \<in> set items" "conv_key self it = target" for it
    unfolding l_def by (rule merge_loop_complete) (use seen nonempty that in auto)
  have nonces: "cm_nonce ` set l = cm_nonce ` set old \<union> {cm_nonce it | it. it \<in> set items \<and> conv_key self it = target}"
  proof -
    have "cm_nonce x \<in> {cm_nonce it | it. it \<in> set items \<and> conv_key self it = target}" if "x \<in> set xs" for x
    proof -
      from from_items that obtain it where it: "it \<in> set items" "conv_key self it = target"
          "x = mk_item it (ci_localSeq x) (Some DSent) None" by blast
      from arg_cong[OF it(3), of cm_nonce] have "cm_nonce x = cm_nonce it" by simp
      with it(1,2) show ?thesis by blast
    qed
    moreover have "cm_nonce ` set l = cm_nonce ` set old \<union> cm_nonce ` set xs" by (simp add: xs image_Un)
    moreover have "{cm_nonce it | it. it \<in> set items \<and> conv_key self it = target} \<subseteq> cm_nonce ` set l"
      using complete by blast
    ultimately show ?thesis by (intro equalityI) (auto simp only: subset_iff)
  qed
  have d: "distinct (map cm_nonce l)"
    unfolding l_def using seen dist[folded old_def] nonempty by (rule merge_loop_distinct)
  have perm: "mset (map cm_nonce new) = mset (map cm_nonce l)" by (simp add: new_def)
  have again: "merge_history self target items new = new"
  proof -
    have "merge_loop self target items (set_of_list (map cm_nonce new)) new = new"
      by (rule merge_loop_saturated) (use nonces nonempty in \<open>auto simp: new_def\<close>)
    then show ?thesis by (simp add: merge_history_def new_def sort_key_id_if_sorted)
  qed
  have new: "conv_of (app (history_loaded target items s)) target = new"
    by (simp add: history_loaded_def merge_history_def new_def l_def seen_def old_def self_def)
  have self': "self_id (history_loaded target items s) = self"
    by (simp add: history_loaded_def self_id_def set_conv_def self_def)
  have "conv_of (app (history_loaded target items (history_loaded target items s))) target = new"
    using new self' again by (simp add: history_loaded_def)
  moreover have "distinct (map cm_nonce new)" using d perm by (metis mset_eq_imp_distinct_iff)
  moreover have "mset old \<subseteq># mset new" by (simp add: new_def xs)
  ultimately show ?thesis
    using nonces by (simp add: Let_def new new_def self_def old_def[symmetric])
qed

definition sample_msg :: "string \<Rightarrow> int \<Rightarrow> chat_message" where
  "sample_msg n t = \<lparr>cm_kind = KChat, cm_type = MText, cm_from = ''bob'', cm_to = ''me'',
     cm_nonce = n, cm_ts = t, cm_body = ''hi'', cm_mediaRef = None, cm_replyTo = None\<rparr>"

theorem history_merge_witness:
  "map cm_nonce (conv_of (app (history_loaded ''bob'' [sample_msg ''a'' 5, sample_msg ''b'' 3]
      (pushMessage (sample_msg ''a'' 5) ui_init))) ''bob'') = [''b'', ''a'']
   \<and> sorted (map cm_ts (conv_of (app (history_loaded ''bob'' [sample_msg ''a'' 5, sample_msg ''b'' 3]
      (pushMessage (sample_msg ''a'' 5) ui_init))) ''bob''))"
proof -
  let ?s = "pushMessage (sample_msg ''a'' 5) ui_init"
  have c: "conv_of (app ?s) ''bob'' = [mk_item (sample_msg ''a'' 5) 0 (Some DSent) None]"
    by (simp add: pushMessage_def conv_key_def sample_msg_def push_item_def self_id_def ui_init_def
        new_store_def)
  have e: "self_id ?s = None"
    by (simp add: pushMessage_def self_id_def ui_init_def new_store_def set_conv_def Let_def)
  have "sorted (map cm_ts (conv_of (app (history_loaded ''bob'' [sample_msg ''a'' 5, sample_msg ''b'' 3] ?s)) ''bob''))"
    using history_merge[of "[sample_msg ''a'' 5, sample_msg ''b'' 3]" ?s "''bob''"] c
    by (simp add: Let_def sample_msg_def)
  moreover have "map cm_nonce (conv_of (app (history_loaded ''bob'' [sample_msg ''a'' 5, sample_msg ''b'' 3] ?s)) ''bob'') = [''b'', ''a'']"
    using c e by (simp add: history_loaded_def merge_history_def conv_key_def sample_msg_def set_of_list_def set_add_def)
  ultimately show ?thesis by simp
qed

text \<open>A delivery receipt marks exactly one entry: the first one with that nonce in the first
  conversation that has it becomes delivered, and nothing else in the table changes, neither order
  nor status nor text; a receipt without a nonce or with an unknown one changes nothing.\<close>

theorem ack_marks_one:
  "(\<forall>pre k xs it ys post.
      conversations (app s) = pre @ (k, xs @ it # ys) # post
      \<and> (\<forall>(k', c) \<in> set pre. cm_nonce it \<notin> cm_nonce ` set c)
      \<and> cm_nonce it \<notin> cm_nonce ` set xs \<and> cm_nonce it \<noteq> [] \<longrightarrow>
      conversations (app (on_ack (cm_nonce it) s))
        = pre @ (k, xs @ it\<lparr>ci_status := Some DDelivered\<rparr> # ys) # post)
   \<and> ((\<forall>(k, c) \<in> set (conversations (app s)). nonce \<notin> cm_nonce ` set c)
       \<longrightarrow> conversations (app (on_ack nonce s)) = conversations (app s))
   \<and> on_ack [] s = s"
proof (intro conjI allI impI)
  fix pre k xs it ys post
  assume h: "conversations (app s) = pre @ (k, xs @ it # ys) # post
      \<and> (\<forall>(k', c) \<in> set pre. cm_nonce it \<notin> cm_nonce ` set c)
      \<and> cm_nonce it \<notin> cm_nonce ` set xs \<and> cm_nonce it \<noteq> []"
  then have i: "find_index (\<lambda>c. cm_nonce c = cm_nonce it) (xs @ it # ys) = Some (length xs)"
    by (intro find_index_first) (auto simp: image_iff)
  show "conversations (app (on_ack (cm_nonce it) s))
      = pre @ (k, xs @ it\<lparr>ci_status := Some DDelivered\<rparr> # ys) # post"
    using h i by (simp add: on_ack_def ack_convs_skip mark_delivered_def)
next
  assume "\<forall>(k, c) \<in> set (conversations (app s)). nonce \<notin> cm_nonce ` set c"
  from ack_convs_skip[OF this, of "[]"]
  show "conversations (app (on_ack nonce s)) = conversations (app s)"
    by (simp add: on_ack_def)
qed (simp add: on_ack_def)

theorem ack_marks_one_witness:
  "map ci_status (conv_of (app (on_ack ''a'' (pushMessage (sample_msg ''a'' 5) ui_init))) ''bob'')
   = [Some DDelivered]"
proof -
  let ?s = "pushMessage (sample_msg ''a'' 5) ui_init"
  let ?it = "mk_item (sample_msg ''a'' 5) 0 (Some DSent) None"
  have c: "conversations (app ?s) = [(''bob'', [?it])]"
    by (simp add: pushMessage_def conv_key_def sample_msg_def push_item_def self_id_def ui_init_def
        new_store_def set_conv_def mset_key_def)
  have n: "cm_nonce ?it = ''a''" by (simp add: sample_msg_def)
  have "conversations (app (on_ack (cm_nonce ?it) ?s)) = [] @ (''bob'', [] @ ?it\<lparr>ci_status := Some DDelivered\<rparr> # []) # []"
    by (rule ack_marks_one[of ?s, THEN conjunct1, rule_format]) (simp add: c n[simplified])
  then have "conversations (app (on_ack ''a'' ?s)) = [(''bob'', [?it\<lparr>ci_status := Some DDelivered\<rparr>])]"
    by (simp only: n append_Nil)
  then show ?thesis
    by (simp add: conv_of_def mget_def)
qed

lemma mget_fold_peers:
  fixes l :: "peer_info list"
  shows "mget (fold (\<lambda>p m. mset_key (pi_deviceId p) p m) l m) k =
     (case find (\<lambda>p. pi_deviceId p = k) (rev l) of None \<Rightarrow> mget m k | Some p \<Rightarrow> Some p)"
proof (induction l arbitrary: m)
  case (Cons p l)
  have "find P (xs @ [y]) = (case find P xs of None \<Rightarrow> if P y then Some y else None | Some z \<Rightarrow> Some z)"
    for P :: "peer_info \<Rightarrow> bool" and xs y
    by (induction xs) auto
  from this[of "\<lambda>p. pi_deviceId p = k" "rev l" p] show ?case
    by (simp add: Cons.IH split: option.splits)
qed simp

text \<open>The roster of the daemon is authoritative: after it is loaded the peer table has exactly
  the devices of the list (the last entry of a device wins), whatever was known before; a response
  without a list leaves the table alone.\<close>

theorem roster_authoritative:
  "mget (peers (app (roster_loaded (Some l) s))) k = find (\<lambda>p. pi_deviceId p = k) (rev l)
   \<and> (mhas (peers (app (roster_loaded (Some l) s))) k = (k \<in> pi_deviceId ` set l))
   \<and> roster_loaded None s = s"
proof -
  have "mget (peers (app (roster_loaded (Some l) s))) k = find (\<lambda>p. pi_deviceId p = k) (rev l)"
    by (simp add: roster_loaded_def mget_fold_peers split: option.splits)
  moreover have "(find (\<lambda>p. pi_deviceId p = k) (rev l) \<noteq> None) = (k \<in> pi_deviceId ` set l)"
    by (auto simp: find_None_iff)
  ultimately show ?thesis by (simp add: mhas_get roster_loaded_def)
qed

text \<open>Membership events keep the member list of a known room a set: joining adds the member
  once, leaving removes it and no one else, both are idempotent, an unknown room is ignored, and the
  own departure removes the whole room and only that room.\<close>

theorem member_events:
  assumes "mget (rooms (app s)) rid = Some r" "Some mem \<noteq> self_id s"
  shows "\<exists>rj rl. mget (rooms (app (on_member_joined rid mem s))) rid = Some rj
      \<and> mget (rooms (app (on_member_left rid mem nm s))) rid = Some rl
      \<and> set (members_of rj) = insert mem (set (members_of r)) \<and> distinct (members_of rj)
      \<and> set (members_of rl) = set (members_of r) - {mem} \<and> distinct (members_of rl)
      \<and> mget (rooms (app (on_member_joined rid mem (on_member_joined rid mem s)))) rid = Some rj
      \<and> (\<forall>rid'. rid' \<noteq> rid \<longrightarrow>
            mget (rooms (app (on_member_joined rid mem s))) rid' = mget (rooms (app s)) rid'
          \<and> mget (rooms (app (on_member_left rid mem nm s))) rid' = mget (rooms (app s)) rid')"
proof -
  have idem: "set_add mem (set_of_list (set_add mem (set_of_list ms))) = set_add mem (set_of_list ms)" for ms
  proof -
    have same: "fold set_add xs acc = acc @ xs" if "distinct (acc @ xs)" for xs acc :: "string list"
      using that by (induction xs arbitrary: acc) (auto simp: set_add_def)
    have "set_of_list xs = xs" if "distinct xs" for xs :: "string list"
      using same[of "[]" xs] that by (simp add: set_of_list_def)
    then show ?thesis by (simp add: set_add_def)
  qed
  show ?thesis
    using assms
    by (simp add: on_member_joined_def on_member_left_def setMembers_def Let_def members_of_def idem)
       (auto simp: members_of_def)
qed

definition sample_room :: room_info where
  "sample_room = \<lparr>ri_roomId = ''r'', ri_name = Some ''team'', ri_owner = Some ''me'',
     ri_members = Some [''me'', ''bob''], ri_seq = None, ri_meshPort = None\<rparr>"

theorem member_events_witness:
  "\<exists>rl. mget (rooms (app (on_member_left ''r'' ''bob'' None (upsertRoom sample_room ui_init)))) ''r'' = Some rl
      \<and> set (members_of rl) = {''me''}"
proof -
  let ?s = "upsertRoom sample_room ui_init"
  have r: "mget (rooms (app ?s)) ''r'' = Some sample_room"
    by (simp add: upsertRoom_def ui_init_def new_store_def initial_def spread_room_def) (simp add: sample_room_def)
  have me: "Some ''bob'' \<noteq> self_id ?s"
    by (simp add: upsertRoom_def ui_init_def new_store_def self_id_def)
  have "set (members_of sample_room) = {''me'', ''bob''}"
    by (simp add: sample_room_def members_of_def)
  with member_events[OF r me, of None] show ?thesis by auto
qed

end
