(* ===== verification/File_Cards.thy ===== *)
theory File_Cards
  imports Conversations "HOL-Library.Word"
begin

text \<open>
  The file cards of \<open>ui/src/client/xfer.ts\<close>: the entries of the conversations that carry a
  \<open>mediaRef\<close> with a file id, their progress and result, the outgoing record and the completion of a
  received file.

  The SHA-256 digest is the platform's (\<open>crypto.subtle\<close>) and stays a parameter; its hexadecimal
  rendering is modelled. \<open>indexOf\<close> compares references; an item is looked up right after
  \<open>findByFileId\<close> returned it, and the first entry with its file id is the first entry equal to it,
  so the comparison of values finds the same position. \<open>Date.now()\<close> and the object URL are
  arguments.
\<close>

type_synonym byte = "8 word"

subsection \<open>Hexadecimal digests\<close>

definition hex_digit :: "nat \<Rightarrow> char" where
  "hex_digit d = (if d < 10 then char_of (48 + d) else char_of (87 + d))"

text \<open>\<open>b.toString(16)\<close> of a byte has one or two digits; \<open>padStart(2, '0')\<close> fills up to two.\<close>

definition to_hex :: "nat \<Rightarrow> string" where
  "to_hex n = (if n < 16 then [hex_digit n] else [hex_digit (n div 16), hex_digit (n mod 16)])"

definition pad_start :: "nat \<Rightarrow> char \<Rightarrow> string \<Rightarrow> string" where
  "pad_start n c s = replicate (n - length s) c @ s"

definition hex_bytes :: "byte list \<Rightarrow> string" where
  "hex_bytes bs = concat (map (\<lambda>b. pad_start 2 (CHR ''0'') (to_hex (unat b))) bs)"

definition sha256Hex :: "(byte list \<Rightarrow> byte list option) \<Rightarrow> byte list \<Rightarrow> string option" where
  "sha256Hex digest blob = map_option hex_bytes (digest blob)"

subsection \<open>Cards\<close>

definition item_fileId :: "chat_item \<Rightarrow> string option" where
  "item_fileId it = Option.bind (cm_mediaRef it) mr_fileId"

fun find_card :: "(string, chat_item list) jsmap \<Rightarrow> string \<Rightarrow> (string \<times> chat_item) option" where
  "find_card [] fid = None"
| "find_card ((k, arr) # m) fid =
     (case find (\<lambda>it. item_fileId it = Some fid) arr of
        Some it \<Rightarrow> Some (k, it)
      | None \<Rightarrow> find_card m fid)"

definition findByFileId :: "string \<Rightarrow> 'a ui_scheme \<Rightarrow> (string \<times> chat_item) option" where
  "findByFileId fid s = find_card (conversations (app s)) fid"

definition patchItem :: "string \<Rightarrow> chat_item \<Rightarrow> (chat_item \<Rightarrow> chat_item) \<Rightarrow> 'a ui_scheme \<Rightarrow> 'a ui_scheme" where
  "patchItem k item f s =
     (let conv = conv_of (app s) k in
      case find_index (\<lambda>c. c = item) conv of
        None \<Rightarrow> s
      | Some idx \<Rightarrow> patch (set_conv k (conv[idx := f item])) s)"

definition put_item :: "chat_message \<Rightarrow> xfer_state option \<Rightarrow> bool \<Rightarrow> chat_item list \<Rightarrow> chat_item list" where
  "put_item msg xf force conv =
     (if \<not> force \<and> (\<exists>c \<in> set conv. cm_nonce c = cm_nonce msg) then conv
      else conv @ [mk_item msg (length conv) (Some DSent) xf])"

definition putAt :: "string \<Rightarrow> chat_message \<Rightarrow> xfer_state option \<Rightarrow> bool \<Rightarrow> 'a ui_scheme \<Rightarrow> 'a ui_scheme" where
  "putAt k msg xf force s =
     (let conv = conv_of (app s) k in
      if \<not> force \<and> (\<exists>c \<in> set conv. cm_nonce c = cm_nonce msg) then s
      else patch (set_conv k (put_item msg xf force conv)) s)"

fun starts_with :: "string \<Rightarrow> string \<Rightarrow> bool" where
  "starts_with [] s = True"
| "starts_with (p # ps) [] = False"
| "starts_with (p # ps) (c # cs) = (p = c \<and> starts_with ps cs)"

definition typeOf :: "string \<Rightarrow> msg_type" where
  "typeOf mime =
     (if starts_with ''image/'' mime then MImage
      else if starts_with ''video/'' mime then MVideo
      else if starts_with ''audio/'' mime then MAudio
      else MFile)"

record js_file =
  jf_name :: string
  jf_size :: nat
  jf_type :: string

definition file_nonce :: "string \<Rightarrow> string" where
  "file_nonce fid = ''file-'' @ fid"

definition outgoing_ref :: "js_file \<Rightarrow> string \<Rightarrow> string \<Rightarrow> media_ref" where
  "outgoing_ref file fid sha =
     \<lparr>mr_name = jf_name file, mr_size = jf_size file,
      mr_mime = (if jf_type file = [] then ''application/octet-stream'' else jf_type file), mr_chunk = None,
      mr_sha256 = Some sha, mr_fileId = Some fid, mr_url = None, mr_thumbUrl = None,
      mr_sha256Ok = None\<rparr>"

definition send_file_json :: "string option \<Rightarrow> string \<Rightarrow> msg_type \<Rightarrow> string \<Rightarrow> int \<Rightarrow> js_file \<Rightarrow> media_ref \<Rightarrow> json" where
  "send_file_json roomId to kind nonce now file mr =
     (let k = (if roomId = None then ''chat'' else ''room'')
      in JObj [(''kind'', JStr k), (''type'', JStr (type_name kind)), (''to'', JStr to),
            (''nonce'', JStr nonce), (''ts'', JNum now), (''body'', JStr (jf_name file)),
            (''mediaRef'', media_ref_json mr), (''channel'', JStr k)])"

definition pushOutgoingFile ::
    "string \<Rightarrow> string option \<Rightarrow> js_file \<Rightarrow> msg_type \<Rightarrow> string \<Rightarrow> string \<Rightarrow> int \<Rightarrow> int \<Rightarrow> 'a ui_scheme \<Rightarrow> 'a ui_scheme" where
  "pushOutgoingFile peerId roomId file kind fid sha now1 now2 s =
     (let self = (case self_id s of None \<Rightarrow> [] | Some i \<Rightarrow> i);
          nonce = file_nonce fid;
          to = (case roomId of None \<Rightarrow> peerId | Some r \<Rightarrow> r);
          mr = outgoing_ref file fid sha;
          msg = \<lparr>cm_kind = (if roomId = None then KChat else KRoom), cm_type = kind, cm_from = self,
                 cm_to = to, cm_nonce = nonce, cm_ts = now1, cm_body = jf_name file,
                 cm_mediaRef = Some mr, cm_replyTo = None\<rparr>
      in send ''message'' ''send'' (Some (send_file_json roomId to kind nonce now2 file mr))
           (putAt to msg (Some \<lparr>xs_phase = XSending, xs_got = 0, xs_total = jf_size file\<rparr>) False s))"

subsection \<open>Progress and results\<close>

definition with_xfer :: "xfer_state \<Rightarrow> chat_item \<Rightarrow> chat_item" where
  "with_xfer x c = c\<lparr>ci_xfer := Some x\<rparr>"

definition update_card :: "string \<Rightarrow> xfer_state \<Rightarrow> 'a ui_scheme \<Rightarrow> 'a ui_scheme" where
  "update_card fid x s =
     (case findByFileId fid s of None \<Rightarrow> s | Some (k, item) \<Rightarrow> patchItem k item (with_xfer x) s)"

definition updateSendProgress :: "string \<Rightarrow> nat \<Rightarrow> nat \<Rightarrow> 'a ui_scheme \<Rightarrow> 'a ui_scheme" where
  "updateSendProgress fid got tot = update_card fid \<lparr>xs_phase = XSending, xs_got = got, xs_total = tot\<rparr>"

definition updateReceiveProgress :: "string \<Rightarrow> nat \<Rightarrow> nat \<Rightarrow> 'a ui_scheme \<Rightarrow> 'a ui_scheme" where
  "updateReceiveProgress fid got tot = update_card fid \<lparr>xs_phase = XReceiving, xs_got = got, xs_total = tot\<rparr>"

definition resumeSendProgress :: "string \<Rightarrow> nat \<Rightarrow> nat \<Rightarrow> 'a ui_scheme \<Rightarrow> 'a ui_scheme" where
  "resumeSendProgress fid got tot = update_card fid \<lparr>xs_phase = XSending, xs_got = got, xs_total = tot\<rparr>"

definition item_size :: "chat_item \<Rightarrow> nat" where
  "item_size it = (case cm_mediaRef it of None \<Rightarrow> 0 | Some m \<Rightarrow> mr_size m)"

definition item_got :: "chat_item \<Rightarrow> nat" where
  "item_got it = (case ci_xfer it of None \<Rightarrow> 0 | Some x \<Rightarrow> xs_got x)"

definition finishSend :: "string \<Rightarrow> 'a ui_scheme \<Rightarrow> 'a ui_scheme" where
  "finishSend fid s =
     (case findByFileId fid s of None \<Rightarrow> s
      | Some (k, it) \<Rightarrow> patchItem k it
          (with_xfer \<lparr>xs_phase = XDone, xs_got = item_size it, xs_total = item_size it\<rparr>) s)"

text \<open>\<open>cancelSend\<close>, \<open>cancelReceive\<close> and \<open>failReceive\<close> keep the progress reached and set the phase.\<close>

definition stop_card :: "xfer_phase \<Rightarrow> string \<Rightarrow> 'a ui_scheme \<Rightarrow> 'a ui_scheme" where
  "stop_card ph fid s =
     (case findByFileId fid s of None \<Rightarrow> s
      | Some (k, it) \<Rightarrow> patchItem k it
          (with_xfer \<lparr>xs_phase = ph, xs_got = item_got it, xs_total = item_size it\<rparr>) s)"

definition cancelSend :: "string \<Rightarrow> 'a ui_scheme \<Rightarrow> 'a ui_scheme" where
  "cancelSend fid s = stop_card XCanceled fid s"

definition cancelReceive :: "string \<Rightarrow> 'a ui_scheme \<Rightarrow> 'a ui_scheme" where
  "cancelReceive fid s = stop_card XCanceled fid s"

definition failReceive :: "string \<Rightarrow> 'a ui_scheme \<Rightarrow> 'a ui_scheme" where
  "failReceive fid s = stop_card XFailed fid s"

definition received_ref :: "media_ref \<Rightarrow> string \<Rightarrow> bool option \<Rightarrow> string option \<Rightarrow> media_ref" where
  "received_ref cur url ok sha =
     \<lparr>mr_name = mr_name cur, mr_size = mr_size cur, mr_mime = mr_mime cur, mr_chunk = None,
      mr_sha256 = (case mr_sha256 cur of None \<Rightarrow> sha | Some x \<Rightarrow> Some x),
      mr_fileId = mr_fileId cur, mr_url = Some url, mr_thumbUrl = None, mr_sha256Ok = ok\<rparr>"

definition done_state :: "nat \<Rightarrow> xfer_state" where
  "done_state sz = \<lparr>xs_phase = XDone, xs_got = sz, xs_total = sz\<rparr>"

text \<open>
  \<open>completeReceive\<close>: the card found has a \<open>mediaRef\<close> (its file id was read from it), so the
  defaults after \<open>??\<close> for name, size and type are never taken. An empty digest counts as absent in
  the card built here (\<open>if (sha256)\<close>).
\<close>

definition completeReceive ::
    "string \<Rightarrow> string \<Rightarrow> string \<Rightarrow> nat \<Rightarrow> string \<Rightarrow> string \<Rightarrow> bool option \<Rightarrow> string option \<Rightarrow> int
     \<Rightarrow> 'a ui_scheme \<Rightarrow> 'a ui_scheme" where
  "completeReceive fid peerId nm sz mime url ok sha now s =
     (case findByFileId fid s of
        Some (k, it) \<Rightarrow>
          toast (NFileReceived nm)
            (patchItem k it (\<lambda>c. c\<lparr>cm_mediaRef := map_option (\<lambda>cur. received_ref cur url ok sha) (cm_mediaRef c),
                                  ci_xfer := Some (done_state sz)\<rparr>) s)
      | None \<Rightarrow>
          (let self = (case self_id s of None \<Rightarrow> [] | Some i \<Rightarrow> i);
               mr = \<lparr>mr_name = nm, mr_size = sz, mr_mime = mime, mr_chunk = None,
                     mr_sha256 = (if sha = Some [] then None else sha), mr_fileId = Some fid,
                     mr_url = Some url, mr_thumbUrl = None, mr_sha256Ok = ok\<rparr>
           in putAt peerId
                \<lparr>cm_kind = KChat, cm_type = typeOf mime, cm_from = peerId, cm_to = self,
                 cm_nonce = ''rtc-'' @ fid, cm_ts = now, cm_body = nm, cm_mediaRef = Some mr,
                 cm_replyTo = None\<rparr> (Some (done_state sz)) False s))"

subsection \<open>Where a card is and what an operation on it changes\<close>

text \<open>\<open>card_at m fid pre k xs it ys post\<close>: \<open>it\<close> is the first entry of the table with that file id.\<close>

definition card_at ::
    "(string, chat_item list) jsmap \<Rightarrow> string \<Rightarrow> (string, chat_item list) jsmap \<Rightarrow> string \<Rightarrow> chat_item list
     \<Rightarrow> chat_item \<Rightarrow> chat_item list \<Rightarrow> (string, chat_item list) jsmap \<Rightarrow> bool" where
  "card_at m fid pre k xs it ys post \<longleftrightarrow>
     m = pre @ (k, xs @ it # ys) # post \<and> item_fileId it = Some fid
   \<and> (\<forall>(k', c) \<in> set pre. \<forall>x \<in> set c. item_fileId x \<noteq> Some fid)
   \<and> (\<forall>x \<in> set xs. item_fileId x \<noteq> Some fid)"

lemma find_card_SomeD:
  "find_card m fid = Some (k, it) \<Longrightarrow> \<exists>pre xs ys post. card_at m fid pre k xs it ys post"
proof (induction m fid rule: find_card.induct)
  case (2 k' arr m fid)
  show ?case
  proof (cases "find (\<lambda>it. item_fileId it = Some fid) arr")
    case None
    with 2 obtain pre xs ys post where "card_at m fid pre k xs it ys post" by auto
    with None show ?thesis
      by (intro exI[of _ "(k', arr) # pre"] exI[of _ xs] exI[of _ ys] exI[of _ post]) (auto simp: card_at_def find_None_iff)
  next
    case (Some a)
    with 2 find_first_split[OF Some] show ?thesis
      by (clarsimp simp: card_at_def) (rule exI[of _ "[]"], fastforce)
  qed
qed simp

lemma find_first: "\<forall>y \<in> set xs. \<not> P y \<Longrightarrow> P x \<Longrightarrow> find P (xs @ x # ys) = Some x"
  by (induction xs) auto

lemma find_card_at: "card_at m fid pre k xs it ys post \<Longrightarrow> find_card m fid = Some (k, it)"
proof (induction pre arbitrary: m)
  case Nil
  then show ?case by (simp add: card_at_def find_first)
next
  case (Cons e pre)
  obtain k' c where e: "e = (k', c)" by (cases e)
  with Cons.prems have "find (\<lambda>it. item_fileId it = Some fid) c = None"
    by (auto simp: card_at_def find_None_iff)
  moreover have "find_card (pre @ (k, xs @ it # ys) # post) fid = Some (k, it)"
    by (rule Cons.IH) (use Cons.prems in \<open>auto simp: card_at_def\<close>)
  ultimately show ?case using Cons.prems e by (simp add: card_at_def)
qed

lemma conv_of_mem: "x \<in> set (conv_of a k) \<Longrightarrow> \<exists>c. (k, c) \<in> set (conversations a) \<and> x \<in> set c"
  by (cases "mget (conversations a) k") (auto simp: conv_of_def dest: mget_SomeD)

lemma find_card_None: "find_card m fid = None \<longleftrightarrow> (\<forall>(k, c) \<in> set m. \<forall>x \<in> set c. item_fileId x \<noteq> Some fid)"
  by (induction m fid rule: find_card.induct) (auto simp: find_None_iff dest!: find_first_split split: option.splits)

lemma mset_key_at:
  "mwf (pre @ (k, c) # post) \<Longrightarrow> mset_key k c' (pre @ (k, c) # post) = pre @ (k, c') # post"
  by (induction pre) (auto simp: js_defs)

lemma mget_at: "mwf (pre @ (k, c) # post) \<Longrightarrow> mget (pre @ (k, c) # post) k = Some c"
  by (simp add: mget_in_set)

text \<open>The one lemma behind every card operation: exactly the card found is rewritten.\<close>

lemma patchItem_at:
  assumes wf: "mwf (conversations (app s))" and at: "card_at (conversations (app s)) fid pre k xs it ys post"
  shows "conversations (app (patchItem k it f s)) = pre @ (k, xs @ f it # ys) # post"
proof -
  have m: "conversations (app s) = pre @ (k, xs @ it # ys) # post"
    and new: "it \<notin> set xs" using at by (auto simp: card_at_def)
  have "conv_of (app s) k = xs @ it # ys"
    using wf m by (simp add: conv_of_def mget_at)
  moreover have "find_index (\<lambda>c. c = it) (xs @ it # ys) = Some (length xs)"
    using new by (intro find_index_first) auto
  ultimately show ?thesis
    using wf m by (simp add: patchItem_def set_conv_def mset_key_at)
qed

lemmas card_ops = update_card_def finishSend_def stop_card_def cancelSend_def cancelReceive_def
  failReceive_def updateSendProgress_def updateReceiveProgress_def resumeSendProgress_def findByFileId_def

text \<open>Every operation on a file card rewrites exactly one entry, the first with that file id:
  progress, completion, cancellation and failure replace its transfer state (a stopped transfer keeps
  the progress it had, a finished one shows the whole size), the completion of a reception attaches
  the object URL and the digest result as well; when no entry has the file id nothing changes.\<close>

theorem card_op_targets_one:
  assumes "mwf (conversations (app s))"
  shows "(\<forall>pre k xs it ys post. card_at (conversations (app s)) fid pre k xs it ys post \<longrightarrow>
      conversations (app (updateSendProgress fid g t s)) = pre @ (k, xs @ with_xfer \<lparr>xs_phase = XSending, xs_got = g, xs_total = t\<rparr> it # ys) # post
    \<and> conversations (app (updateReceiveProgress fid g t s)) = pre @ (k, xs @ with_xfer \<lparr>xs_phase = XReceiving, xs_got = g, xs_total = t\<rparr> it # ys) # post
    \<and> conversations (app (finishSend fid s)) = pre @ (k, xs @ with_xfer (done_state (item_size it)) it # ys) # post
    \<and> conversations (app (failReceive fid s)) = pre @ (k, xs @ with_xfer \<lparr>xs_phase = XFailed, xs_got = item_got it, xs_total = item_size it\<rparr> it # ys) # post
    \<and> conversations (app (cancelSend fid s)) = pre @ (k, xs @ with_xfer \<lparr>xs_phase = XCanceled, xs_got = item_got it, xs_total = item_size it\<rparr> it # ys) # post
    \<and> conversations (app (completeReceive fid p nm sz mime url ok sha now s))
        = pre @ (k, xs @ with_xfer (done_state sz)
            (it\<lparr>cm_mediaRef := map_option (\<lambda>cur. received_ref cur url ok sha) (cm_mediaRef it)\<rparr>) # ys) # post)
   \<and> (findByFileId fid s = None \<longrightarrow>
      updateSendProgress fid g t s = s \<and> updateReceiveProgress fid g t s = s \<and> finishSend fid s = s
    \<and> failReceive fid s = s \<and> cancelSend fid s = s)"
proof (intro conjI allI impI)
  fix pre k xs it ys post
  assume at: "card_at (conversations (app s)) fid pre k xs it ys post"
  note rules = patchItem_at[OF assms at] find_card_at[OF at]
  show "conversations (app (updateSendProgress fid g t s)) = pre @ (k, xs @ with_xfer \<lparr>xs_phase = XSending, xs_got = g, xs_total = t\<rparr> it # ys) # post"
    and "conversations (app (updateReceiveProgress fid g t s)) = pre @ (k, xs @ with_xfer \<lparr>xs_phase = XReceiving, xs_got = g, xs_total = t\<rparr> it # ys) # post"
    and "conversations (app (finishSend fid s)) = pre @ (k, xs @ with_xfer (done_state (item_size it)) it # ys) # post"
    and "conversations (app (failReceive fid s)) = pre @ (k, xs @ with_xfer \<lparr>xs_phase = XFailed, xs_got = item_got it, xs_total = item_size it\<rparr> it # ys) # post"
    and "conversations (app (cancelSend fid s)) = pre @ (k, xs @ with_xfer \<lparr>xs_phase = XCanceled, xs_got = item_got it, xs_total = item_size it\<rparr> it # ys) # post"
    and "conversations (app (completeReceive fid p nm sz mime url ok sha now s))
        = pre @ (k, xs @ with_xfer (done_state sz)
            (it\<lparr>cm_mediaRef := map_option (\<lambda>cur. received_ref cur url ok sha) (cm_mediaRef it)\<rparr>) # ys) # post"
    by (simp_all add: card_ops rules done_state_def completeReceive_def with_xfer_def)
qed (simp_all add: card_ops)

text \<open>The card \<open>pushOutgoingFile\<close> appends, and the state after it.\<close>

definition out_card :: "string \<Rightarrow> string \<Rightarrow> nat \<Rightarrow> js_file \<Rightarrow> msg_type \<Rightarrow> string \<Rightarrow> string \<Rightarrow> int \<Rightarrow> chat_item" where
  "out_card me peer k file kind fid sha t1 = mk_item \<lparr>cm_kind = KChat, cm_type = kind, cm_from = me, cm_to = peer,
     cm_nonce = file_nonce fid, cm_ts = t1, cm_body = jf_name file,
     cm_mediaRef = Some (outgoing_ref file fid sha), cm_replyTo = None\<rparr> k (Some DSent)
     (Some \<lparr>xs_phase = XSending, xs_got = 0, xs_total = jf_size file\<rparr>)"

lemma out_card_sel:
  "item_fileId (out_card me peer k file kind fid sha t1) = Some fid"
  "cm_nonce (out_card me peer k file kind fid sha t1) = file_nonce fid"
  "item_size (out_card me peer k file kind fid sha t1) = jf_size file"
  by (simp_all add: out_card_def item_fileId_def outgoing_ref_def item_size_def)

lemma pushOutgoing_new:
  assumes "\<forall>c \<in> set (conv_of (app s) peer). cm_nonce c \<noteq> file_nonce fid"
  shows "app (pushOutgoingFile peer None file kind fid sha t1 t2 s)
    = set_conv peer (conv_of (app s) peer @ [out_card (case self_id s of None \<Rightarrow> [] | Some i \<Rightarrow> i) peer
        (length (conv_of (app s) peer)) file kind fid sha t1]) (app s)"
  using assms by (auto simp: pushOutgoingFile_def Let_def putAt_def put_item_def out_card_def)

definition sample_file :: js_file where
  "sample_file = \<lparr>jf_name = ''a.bin'', jf_size = 10, jf_type = []\<rparr>"

definition carded :: ui where
  "carded = pushOutgoingFile ''bob'' None sample_file MFile ''f1'' [] 0 0 ui_init"

definition carded_item :: chat_item where
  "carded_item = out_card [] ''bob'' 0 sample_file MFile ''f1'' [] 0"

lemma carded_conv: "conversations (app carded) = [(''bob'', [carded_item])]"
  using pushOutgoing_new[of ui_init "''bob''" "''f1''" sample_file MFile "[]" 0 0]
  by (simp add: carded_def carded_item_def ui_init_def new_store_def self_id_def set_conv_def js_defs)

lemma carded_facts:
  "mwf (conversations (app carded))" "card_at (conversations (app carded)) ''f1'' [] ''bob'' [] carded_item [] []"
  "findByFileId ''f2'' carded = None" "item_size carded_item = 10"
  by (simp_all add: carded_conv mwf_def card_at_def findByFileId_def carded_item_def out_card_sel sample_file_def)

theorem card_op_targets_one_witness:
  "conversations (app (finishSend ''f1'' carded)) = [(''bob'', [with_xfer (done_state 10) carded_item])]
   \<and> updateSendProgress ''f2'' 1 2 carded = carded"
proof
  show "conversations (app (finishSend ''f1'' carded)) = [(''bob'', [with_xfer (done_state 10) carded_item])]"
    using card_op_targets_one[of carded "''f1''" 1 2] carded_facts by fastforce
  show "updateSendProgress ''f2'' 1 2 carded = carded"
    using card_op_targets_one[of carded "''f2''" 1 2] carded_facts by simp
qed

lemma mwf_set_conv [simp]: "mwf (conversations a) \<Longrightarrow> mwf (conversations (set_conv k c a))"
  by (simp add: set_conv_def)

lemma rooms_set_conv [simp]: "rooms (set_conv k c a) = rooms a"
  and app_profile_set_conv [simp]: "app_profile (set_conv k c a) = app_profile a"
  by (simp_all add: set_conv_def)

text \<open>A table without the nonce and without the file id takes the outgoing card as its last entry.\<close>

lemma putAt_new:
  assumes "\<forall>c \<in> set (conv_of (app s) k). cm_nonce c \<noteq> cm_nonce msg"
  shows "conv_of (app (putAt k msg xf False s)) k
      = conv_of (app s) k @ [mk_item msg (length (conv_of (app s) k)) (Some DSent) xf]"
  using assms by (auto simp: putAt_def put_item_def Let_def)

text \<open>An outgoing file is shown and announced once: the card is appended to the conversation with
  the peer (or the room) in the sending phase with no progress, and one \<open>message.send\<close> record with
  the same nonce goes to the daemon; repeating the call for the same file id adds no second card.\<close>

theorem outgoing_file_once:
  assumes "\<forall>c \<in> set (conv_of (app s) (case roomId of None \<Rightarrow> peerId | Some r \<Rightarrow> r)). cm_nonce c \<noteq> file_nonce fid"
  shows "let to = (case roomId of None \<Rightarrow> peerId | Some r \<Rightarrow> r);
             push = pushOutgoingFile peerId roomId file kind fid sha t1 t2;
             s1 = push s
         in (\<exists>card. conv_of (app s1) to = conv_of (app s) to @ [card]
               \<and> cm_nonce card = file_nonce fid \<and> item_fileId card = Some fid
               \<and> ci_xfer card = Some \<lparr>xs_phase = XSending, xs_got = 0, xs_total = jf_size file\<rparr>)
          \<and> (\<exists>d. sent s1 = sent s @ [(''message'', ''send'', Some d)]
               \<and> jfield ''nonce'' d = Some (JStr (file_nonce fid)) \<and> jfield ''to'' d = Some (JStr to))
          \<and> conv_of (app (push s1)) to = conv_of (app s1) to"
proof -
  let ?to = "case roomId of None \<Rightarrow> peerId | Some r \<Rightarrow> r"
  let ?push = "pushOutgoingFile peerId roomId file kind fid sha t1 t2"
  define old where "old = conv_of (app s) ?to"
  obtain card where c: "conv_of (app (?push s)) ?to = old @ [card]"
    and p: "cm_nonce card = file_nonce fid" "item_fileId card = Some fid"
      "ci_xfer card = Some \<lparr>xs_phase = XSending, xs_got = 0, xs_total = jf_size file\<rparr>"
    using assms by (simp add: pushOutgoingFile_def Let_def putAt_new item_fileId_def outgoing_ref_def old_def)
  have sent: "sent (?push s) = sent s @ [(''message'', ''send'',
      Some (send_file_json roomId ?to kind (file_nonce fid) t2 file (outgoing_ref file fid sha)))]"
    by (simp add: pushOutgoingFile_def Let_def putAt_def)
  have again: "conv_of (app (?push (?push s))) ?to = conv_of (app (?push s)) ?to"
  proof -
    have "\<exists>c \<in> set (conv_of (app (?push s)) ?to). cm_nonce c = file_nonce fid" using c p by simp
    then show ?thesis by (subst pushOutgoingFile_def) (simp add: Let_def putAt_def)
  qed
  show ?thesis
    using c p sent again by (simp add: Let_def old_def) (simp add: send_file_json_def Let_def)
qed

theorem outgoing_file_once_witness:
  "\<exists>card. conv_of (app (pushOutgoingFile ''bob'' None sample_file MFile ''f1'' [] 0 0 ui_init)) ''bob'' = [card]
     \<and> item_fileId card = Some ''f1''"
  using outgoing_file_once[of ui_init "''bob''" None "''f1''" sample_file MFile "[]" 0 0]
  by (auto simp: Let_def ui_init_def new_store_def)

lemma card_in_conv:
  assumes wf: "mwf (conversations (app s))" and k: "conv_of (app s) k = old @ crd # rest"
    and c: "item_fileId crd = Some fid" and old: "\<forall>x \<in> set old. item_fileId x \<noteq> Some fid"
    and other: "\<And>k' x. k' \<noteq> k \<Longrightarrow> x \<in> set (conv_of (app s) k') \<Longrightarrow> item_fileId x \<noteq> Some fid"
  shows "findByFileId fid s = Some (k, crd)"
    and "conv_of (app (patchItem k crd f s)) k = old @ f crd # rest"
proof -
  have "mget (conversations (app s)) k = Some (old @ crd # rest)"
    using k by (auto simp: conv_of_def split: option.splits)
  then have "find_card (conversations (app s)) fid \<noteq> None"
    using c by (auto simp: find_card_None dest!: mget_SomeD) (metis (mono_tags, lifting) case_prodD in_set_conv_decomp)
  then obtain k' it where f: "find_card (conversations (app s)) fid = Some (k', it)" by auto
  from find_card_SomeD[OF f] obtain pre xs ys post where
    at: "card_at (conversations (app s)) fid pre k' xs it ys post" by blast
  then have conv: "conv_of (app s) k' = xs @ it # ys"
    using wf by (simp add: card_at_def conv_of_def mget_at)
  with at other[of k' it] have kk: "k' = k" by (auto simp: card_at_def)
  have "find (\<lambda>x. item_fileId x = Some fid) (xs @ it # ys) = Some it"
    using at by (intro find_first) (auto simp: card_at_def)
  moreover have "find (\<lambda>x. item_fileId x = Some fid) (old @ crd # rest) = Some crd"
    using old c by (intro find_first) auto
  ultimately have "it = crd" using conv k kk by simp
  with f kk show "findByFileId fid s = Some (k, crd)" by (simp add: findByFileId_def)
  have "find_index (\<lambda>x. x = crd) (old @ crd # rest) = Some (length old)"
    using old c by (intro find_index_first) auto
  then show "conv_of (app (patchItem k crd f s)) k = old @ f crd # rest"
    using k by (simp add: patchItem_def)
qed

text \<open>The message handler, in contrast, does not deduplicate: when the daemon echoes the record of an
  own outgoing file, the conversation holds two entries with the same nonce, and only the first of
  them follows the transfer.\<close>

theorem echo_duplicates_card:
  assumes me: "self_id s = Some me" and wf: "mwf (conversations (app s))"
    and new: "\<forall>(k, c) \<in> set (conversations (app s)). \<forall>x \<in> set c. item_fileId x \<noteq> Some fid \<and> cm_nonce x \<noteq> file_nonce fid"
    and echo: "cm_kind msg = KChat" "cm_from msg = me" "cm_to msg = peer" "cm_nonce msg = file_nonce fid"
  shows "let s1 = pushOutgoingFile peer None file kind fid sha t1 t2 s;
             s2 = finishSend fid (pushMessage msg s1);
             conv = conv_of (app s2) peer
         in length (filter (\<lambda>c. cm_nonce c = file_nonce fid) conv) = 2
          \<and> ci_xfer (last conv) = None \<and> ci_xfer (last (butlast conv)) = Some (done_state (jf_size file))"
proof -
  define old where "old = conv_of (app s) peer"
  define s1 where "s1 = pushOutgoingFile peer None file kind fid sha t1 t2 s"
  define s2 where "s2 = pushMessage msg s1"
  have new': "item_fileId x \<noteq> Some fid \<and> cm_nonce x \<noteq> file_nonce fid" if "x \<in> set (conv_of (app s) k)" for k x
    using new conv_of_mem[OF that] by blast
  define crd where "crd = out_card me peer (length old) file kind fid sha t1"
  define dup where "dup = mk_item msg (Suc (length old)) (Some DSent) None"
  have put: "app s1 = set_conv peer (old @ [crd]) (app s)"
    using new' me by (simp add: s1_def pushOutgoing_new crd_def old_def)
  have me1: "self_id s1 = Some me" using me put by (simp add: self_id_def)
  have app2: "app s2 = set_conv peer (old @ crd # [dup]) (app s1)"
    using me1 put echo
    by (simp add: s2_def pushMessage_def conv_key_def push_item_def dup_def Let_def)
  have crd: "item_fileId crd = Some fid" "cm_nonce crd = file_nonce fid" "item_size crd = jf_size file"
    by (simp_all add: crd_def out_card_sel)
  have wf2: "mwf (conversations (app s2))" using wf put app2 by simp
  note found = card_in_conv[OF wf2 _ crd(1), of peer old "[dup]"]
  have "findByFileId fid s2 = Some (peer, crd)"
    and "conv_of (app (patchItem peer crd f s2)) peer = old @ f crd # [dup]" for f
    by (rule found; use new' put app2 in \<open>auto simp: old_def split: if_splits\<close>)+
  then have conv: "conv_of (app (finishSend fid s2)) peer = old @ [with_xfer (done_state (jf_size file)) crd, dup]"
    using crd by (simp add: finishSend_def done_state_def)
  have none: "filter (\<lambda>c. cm_nonce c = file_nonce fid) old = []"
    using new' by (auto simp: filter_empty_conv old_def)
  show ?thesis
    unfolding Let_def s1_def[symmetric] s2_def[symmetric] conv
    using none crd echo by (simp add: with_xfer_def dup_def butlast_append)
qed

definition logged_in :: "string \<Rightarrow> ui" where
  "logged_in me = patch (\<lambda>a. a\<lparr>app_profile := Some \<lparr>pr_deviceId = me, pr_name = me, pr_avatar = None, pr_joinedRooms = []\<rparr>\<rparr>) ui_init"

definition echoed :: chat_message where
  "echoed = \<lparr>cm_kind = KChat, cm_type = MFile, cm_from = ''me'', cm_to = ''bob'', cm_nonce = file_nonce ''f1'',
     cm_ts = 0, cm_body = ''a.bin'', cm_mediaRef = None, cm_replyTo = None\<rparr>"

theorem echo_duplicates_card_witness:
  "length (filter (\<lambda>c. cm_nonce c = file_nonce ''f1'') (conv_of (app (finishSend ''f1'' (pushMessage echoed
      (pushOutgoingFile ''bob'' None sample_file MFile ''f1'' [] 0 0 (logged_in ''me''))))) ''bob'')) = 2"
  using echo_duplicates_card[of "logged_in ''me''" "''me''" "''f1''" echoed "''bob''" sample_file MFile "[]" 0 0]
  by (simp add: Let_def logged_in_def self_id_def ui_init_def new_store_def echoed_def mwf_def mkeys_def)

end
