(* ===== verification/Chunks.thy ===== *)
theory Chunks
  imports LIM_Prelude "HOL-Library.Word"
begin

text \<open>
  Cutting a file into chunks and putting chunks together again, as an interface.

  \<open>chunk_at c f i\<close> is the slice \<open>blob.slice(i * chunk, min(i * chunk + chunk, size))\<close> the sender
  transmits. The locale \<open>chunk_store\<close> is what the receiver of a file promises: a write at an index,
  the longest prefix of chunks present and its bytes. Its lemmas say that a store that holds only
  chunks of a file holds a prefix of that file, and the whole file once every chunk has arrived,
  whatever the order and however often. It is interpreted on the receiver in \<open>File_Receive\<close>.
\<close>

definition ceil_div :: "nat \<Rightarrow> nat \<Rightarrow> nat" where
  "ceil_div a b = (if b = 0 then 0 else (a + (b - 1)) div b)"

definition chunk_at :: "nat \<Rightarrow> 'b list \<Rightarrow> nat \<Rightarrow> 'b list" where
  "chunk_at c f i = take (min (i * c + c) (length f) - i * c) (drop (i * c) f)"

lemma chunk_at_take: "chunk_at c f i = take c (drop (i * c) f)"
proof (cases "i * c + c \<le> length f")
  case True
  then show ?thesis by (simp add: chunk_at_def)
next
  case False
  then have "min (i * c + c) (length f) - i * c = length (drop (i * c) f)" by simp
  with False show ?thesis by (simp add: chunk_at_def)
qed

lemma length_chunk_at: "length (chunk_at c f i) = min c (length f - i * c)"
  by (simp add: chunk_at_take min.commute)

lemma concat_chunks: "concat (map (chunk_at c f) [0..<k]) = take (k * c) f"
proof (induction k)
  case (Suc k)
  have "take (Suc k * c) f = take (k * c) f @ take c (drop (k * c) f)"
    by (metis add.commute mult_Suc take_add)
  with Suc show ?case by (simp add: chunk_at_take)
qed simp

lemma ceil_div_le: "0 < b \<Longrightarrow> a \<le> ceil_div a b * b"
proof -
  assume b: "0 < b"
  have "(a + (b - 1)) div b * b + (a + (b - 1)) mod b = a + (b - 1)" by (rule div_mult_mod_eq)
  moreover have "(a + (b - 1)) mod b \<le> b - 1" using b by (simp add: less_Suc_eq_le[symmetric])
  ultimately have "a + (b - 1) \<le> (a + (b - 1)) div b * b + (b - 1)" by linarith
  then show ?thesis using b by (simp add: ceil_div_def)
qed

lemma ceil_div_least: "0 < b \<Longrightarrow> i < ceil_div a b \<longleftrightarrow> i * b < a"
proof -
  assume b: "0 < b"
  have "(i < (a + (b - 1)) div b) = (Suc i \<le> (a + (b - 1)) div b)" by auto
  also have "\<dots> = (Suc i * b \<le> a + (b - 1))" using b by (simp add: less_eq_div_iff_mult_less_eq)
  also have "\<dots> = (i * b < a)" using b by auto
  finally show ?thesis using b by (simp add: ceil_div_def)
qed

lemma ceil_div_mult [simp]: "0 < b \<Longrightarrow> ceil_div (k * b) b = k"
  by (metis ceil_div_least linorder_neqE_nat mult_less_cancel2 nat_less_le)

lemma all_chunks: "0 < c \<Longrightarrow> concat (map (chunk_at c f) [0..<ceil_div (length f) c]) = f"
  by (simp add: concat_chunks ceil_div_le)

locale chunk_store =
  fixes put :: "nat \<Rightarrow> 'b list \<Rightarrow> 's \<Rightarrow> 's"
    and held :: "'s \<Rightarrow> nat \<Rightarrow> 'b list option"
    and nxt :: "'s \<Rightarrow> nat"
    and content :: "'s \<Rightarrow> 'b list"
    and ok :: "'s \<Rightarrow> bool"
  assumes held_put: "held (put i b s) = (held s)(i \<mapsto> b)"
    and ok_put: "ok s \<Longrightarrow> ok (put i b s)"
    and nxt_held: "ok s \<Longrightarrow> i < nxt s \<Longrightarrow> held s i \<noteq> None"
    and nxt_free: "ok s \<Longrightarrow> held s (nxt s) = None"
    and content_held: "ok s \<Longrightarrow> content s = concat (map (\<lambda>i. the (held s i)) [0..<nxt s])"
begin

text \<open>\<open>part_of c f s\<close>: every chunk in the store is the chunk of \<open>f\<close> at its index.\<close>

definition part_of :: "nat \<Rightarrow> 'b list \<Rightarrow> 's \<Rightarrow> bool" where
  "part_of c f s \<longleftrightarrow> ok s \<and>
     (\<forall>i b. held s i = Some b \<longrightarrow> i < ceil_div (length f) c \<and> b = chunk_at c f i)"

lemma part_of_put: "part_of c f s \<Longrightarrow> i < ceil_div (length f) c \<Longrightarrow> part_of c f (put i (chunk_at c f i) s)"
  by (auto simp: part_of_def held_put ok_put split: if_splits)

lemma part_of_puts:
  "part_of c f s \<Longrightarrow> \<forall>i \<in> set is. i < ceil_div (length f) c \<Longrightarrow>
   part_of c f (fold (\<lambda>i. put i (chunk_at c f i)) is s)"
  by (induction "is" arbitrary: s) (auto intro: part_of_put)

lemma held_puts:
  "held (fold (\<lambda>i. put i (chunk_at c f i)) is s) i \<noteq> None \<longleftrightarrow> i \<in> set is \<or> held s i \<noteq> None"
  by (induction "is" arbitrary: s) (auto simp: held_put)

lemma part_content:
  assumes "part_of c f s" shows "content s = take (nxt s * c) f"
proof -
  have "the (held s i) = chunk_at c f i" if "i < nxt s" for i
    using assms that nxt_held[of s i] by (auto simp: part_of_def)
  then have "map (\<lambda>i. the (held s i)) [0..<nxt s] = map (chunk_at c f) [0..<nxt s]" by simp
  moreover have "content s = concat (map (\<lambda>i. the (held s i)) [0..<nxt s])"
    using assms by (simp add: part_of_def content_held)
  ultimately show ?thesis by (simp only: concat_chunks)
qed

lemma part_nxt_le: "part_of c f s \<Longrightarrow> nxt s \<le> ceil_div (length f) c"
proof (rule ccontr)
  assume p: "part_of c f s" and "\<not> ?thesis"
  then have "held s (ceil_div (length f) c) \<noteq> None" using nxt_held by (simp add: part_of_def)
  with p show False by (auto simp: part_of_def)
qed

text \<open>The whole file, as soon as every chunk is there.\<close>

lemma part_complete:
  assumes p: "part_of c f s" and c: "0 < c" and all: "\<And>i. i < ceil_div (length f) c \<Longrightarrow> held s i \<noteq> None"
  shows "content s = f"
proof -
  have "\<not> nxt s < ceil_div (length f) c" using p all[of "nxt s"] nxt_free[of s] by (auto simp: part_of_def)
  then have "ceil_div (length f) c \<le> nxt s" by simp
  with ceil_div_le[OF c, of "length f"] have "length f \<le> nxt s * c"
    by (meson le_trans mult_le_mono1)
  then show ?thesis using part_content[OF p] by simp
qed

lemma part_incomplete:
  assumes p: "part_of c f s" and c: "0 < c" and i: "i < ceil_div (length f) c" "held s i = None"
  shows "length (content s) < length f"
proof -
  have "nxt s \<le> i" using p i nxt_held[of s i] by (cases "i < nxt s") (auto simp: part_of_def)
  then have "nxt s * c \<le> i * c" by simp
  also have "\<dots> < length f" using i c by (simp add: ceil_div_least)
  finally show ?thesis using part_content[OF p] by simp
qed

text \<open>\<open>prefix_of c f k s\<close>: the store holds exactly the first \<open>k\<close> chunks of \<open>f\<close>.\<close>

definition prefix_of :: "nat \<Rightarrow> 'b list \<Rightarrow> nat \<Rightarrow> 's \<Rightarrow> bool" where
  "prefix_of c f k s \<longleftrightarrow> part_of c f s \<and> (\<forall>i. held s i \<noteq> None \<longleftrightarrow> i < k)"

lemma prefix_nxt:
  assumes p: "prefix_of c f k s" shows "nxt s = k"
proof -
  have o: "ok s" and h: "held s i \<noteq> None \<longleftrightarrow> i < k" for i
    using p unfolding prefix_of_def part_of_def by blast+
  have "\<not> nxt s < k" using nxt_free[OF o] h by blast
  moreover have "\<not> k < nxt s" using nxt_held[OF o, of k] h by blast
  ultimately show ?thesis by simp
qed

lemma prefix_put:
  "prefix_of c f k s \<Longrightarrow> i \<le> k \<Longrightarrow> i < ceil_div (length f) c
   \<Longrightarrow> prefix_of c f (max k (Suc i)) (put i (chunk_at c f i) s)"
  by (auto simp: prefix_of_def part_of_put held_put split: if_splits)

lemma prefix_content:
  assumes p: "prefix_of c f k s" shows "content s = take (k * c) f"
  using part_content[of c f s] p by (simp add: prefix_nxt[OF p]) (simp add: prefix_of_def)

end

end
