(* ===== verification/File_Receive.thy ===== *)
theory File_Receive
  imports File_Cards Chunks
begin

text \<open>
  The receiving half of a peer session in \<open>ui/src/client/webrtc.ts\<close>: the frames of the data
  channel (\<open>onChannelMessage\<close>), the receivers kept across sessions (\<open>persistRecv\<close>), the assembly
  of a file and the digest check (\<open>finishReceive\<close>), and the loss of the channel (\<open>onclose\<close>).

  A receiver (\<open>RecvState\<close>) is an object that \<open>persistRecv\<close> and a pending \<open>finishReceive\<close> share,
  so receivers live in a store \<open>rx_recs\<close> and are named by their address. \<open>finishReceive\<close> is
  asynchronous only when the metadata carry a digest: it is cut at its \<open>await\<close>, the rest is a job
  in \<open>rx_jobs\<close> that runs when the digest is there. The clock, the digest function and the URLs of
  \<open>createObjectURL\<close> come from the platform: \<open>rx_now\<close>, the argument \<open>digest\<close>, and a fresh name
  per URL with its content recorded in \<open>rx_urls\<close>. The frame log (\<open>__frameDbg\<close>) is left out.
\<close>

subsection \<open>State\<close>

record recv_state =
  rs_meta :: file_meta
  rs_chunks :: "byte list option list"
  rs_contig :: nat
  rs_got :: nat
  rs_recvBytes :: nat

record rx_job =
  rj_meta :: file_meta
  rj_blob :: "byte list"
  rj_url :: string
  rj_rec :: nat

text \<open>Text frames after \<open>JSON.parse\<close>, by their tag \<open>t\<close>; any other object is \<open>FOther\<close>.\<close>

datatype frame =
    FInput remote_input
  | FMeta file_meta
  | FHead chunk_header
  | FEnd string "string option"
  | FResume string
  | FResumeAck string "nat option"
  | FOther

record rx = ui +
  rx_peer :: string
  rx_dc :: bool
  rx_active :: "string option"
  rx_index :: nat
  rx_persist :: "(string, nat) jsmap"
  rx_recs :: "recv_state list"
  rx_done :: "(string, nat \<times> nat) jsmap"
  rx_jobs :: "rx_job list"
  rx_urls :: "(string \<times> byte list) list"
  rx_frames :: "frame list"
  rx_resumed :: "(string \<times> nat) list"
  rx_waiting :: "string list"
  rx_now :: int

definition rec_of :: "string \<Rightarrow> rx \<Rightarrow> recv_state option" where
  "rec_of fid s = (case mget (rx_persist s) fid of None \<Rightarrow> None
     | Some a \<Rightarrow> if a < length (rx_recs s) then Some (rx_recs s ! a) else None)"

definition set_rec :: "string \<Rightarrow> recv_state \<Rightarrow> rx \<Rightarrow> rx" where
  "set_rec fid r s = (case mget (rx_persist s) fid of None \<Rightarrow> s
     | Some a \<Rightarrow> s\<lparr>rx_recs := (rx_recs s)[a := r]\<rparr>)"

definition fresh_rec :: "file_meta \<Rightarrow> recv_state" where
  "fresh_rec m = \<lparr>rs_meta = m, rs_chunks = [], rs_contig = 0, rs_got = 0, rs_recvBytes = 0\<rparr>"

subsection \<open>Assembly\<close>

text \<open>\<open>while (rec.chunks[rec.contig])\<close>: an \<open>ArrayBuffer\<close> is truthy, an empty one as well.\<close>

function advance :: "byte list option list \<Rightarrow> nat \<Rightarrow> nat \<Rightarrow> nat \<times> nat" where
  "advance ch contig got =
     (case arr_get ch contig of
        None \<Rightarrow> (contig, got)
      | Some ab \<Rightarrow> advance ch (Suc contig) (got + length ab))"
  by pat_completeness auto
termination
  by (relation "measure (\<lambda>(ch, contig, got). length ch - contig)")
     (auto dest: arr_get_SomeD)

declare advance.simps [simp del]

definition rec_put :: "nat \<Rightarrow> byte list \<Rightarrow> recv_state \<Rightarrow> recv_state" where
  "rec_put i ab r =
     (let ch = arr_set (rs_chunks r) i ab; (c, g) = advance ch (rs_contig r) (rs_got r)
      in r\<lparr>rs_chunks := ch, rs_recvBytes := rs_recvBytes r + length ab, rs_contig := c, rs_got := g\<rparr>)"

text \<open>The ordered parts of \<open>finishReceive\<close>, as one byte sequence.\<close>

definition rec_blob :: "recv_state \<Rightarrow> byte list" where
  "rec_blob r = concat (map (\<lambda>i. case arr_get (rs_chunks r) i of None \<Rightarrow> [] | Some b \<Rightarrow> b) [0..<rs_contig r])"

text \<open>What \<open>finishReceive\<close> does after its \<open>await\<close>.\<close>

definition finish_tail :: "rx_job \<Rightarrow> bool option \<Rightarrow> rx \<Rightarrow> rx" where
  "finish_tail j ok s =
     (let m = rj_meta j; fid = fm_fileId m;
          s1 = completeReceive fid (rx_peer s) (fm_name m) (fm_size m) (fm_mime m) (rj_url j) ok
                 (fm_sha256 m) (rx_now s) s;
          r = rx_recs s ! rj_rec j
      in s1\<lparr>rx_done := mset_key fid (rs_got r, rs_recvBytes r) (rx_done s1),
            rx_persist := mdel fid (rx_persist s1), rx_active := None\<rparr>)"

definition blob_url :: "nat \<Rightarrow> string" where
  "blob_url n = ''blob:'' @ show_nat n"

definition finishReceive :: "file_meta \<Rightarrow> nat \<Rightarrow> rx \<Rightarrow> rx" where
  "finishReceive m a s =
     (let blob = rec_blob (rx_recs s ! a);
          url = blob_url (length (rx_urls s));
          s1 = s\<lparr>rx_urls := rx_urls s @ [(url, blob)]\<rparr>;
          j = \<lparr>rj_meta = m, rj_blob = blob, rj_url = url, rj_rec = a\<rparr>
      in case truthy (fm_sha256 m) of
           None \<Rightarrow> finish_tail j None s1
         | Some _ \<Rightarrow> s1\<lparr>rx_jobs := rx_jobs s1 @ [j]\<rparr>)"

text \<open>The digest of the oldest pending job is there (or \<open>sha256Hex\<close> threw, and the result is
  \<open>undefined\<close>).\<close>

definition digest_ready :: "(byte list \<Rightarrow> byte list option) \<Rightarrow> rx \<Rightarrow> rx" where
  "digest_ready digest s =
     (case rx_jobs s of
        [] \<Rightarrow> s
      | j # js \<Rightarrow>
          finish_tail j (map_option (\<lambda>h. Some h = fm_sha256 (rj_meta j)) (sha256Hex digest (rj_blob j)))
            (s\<lparr>rx_jobs := js\<rparr>))"

subsection \<open>Frames\<close>

definition alloc_rec :: "string \<Rightarrow> file_meta \<Rightarrow> rx \<Rightarrow> rx" where
  "alloc_rec fid m s =
     s\<lparr>rx_recs := rx_recs s @ [fresh_rec m], rx_persist := mset_key fid (length (rx_recs s)) (rx_persist s)\<rparr>"

definition on_fmeta :: "file_meta \<Rightarrow> rx \<Rightarrow> rx" where
  "on_fmeta m s =
     (let fid = fm_fileId m;
          s1 = s\<lparr>rx_active := Some fid\<rparr>;
          s2 = (case rec_of fid s1 of
                  None \<Rightarrow> alloc_rec fid m s1
                | Some r \<Rightarrow> if fm_size (rs_meta r) \<noteq> fm_size m then alloc_rec fid m s1
                            else set_rec fid (r\<lparr>rs_meta := m\<rparr>) s1)
      in updateReceiveProgress fid (case rec_of fid s2 of None \<Rightarrow> 0 | Some r \<Rightarrow> rs_got r) (fm_size m) s2)"

definition on_fhead :: "chunk_header \<Rightarrow> rx \<Rightarrow> rx" where
  "on_fhead h s =
     (case truthy (rx_active s) of
        None \<Rightarrow> s
      | Some act \<Rightarrow>
          (let (g, t) = (case rec_of act s of None \<Rightarrow> (0, 0) | Some r \<Rightarrow> (rs_got r, fm_size (rs_meta r)))
           in updateReceiveProgress (ch_fileId h) g t (s\<lparr>rx_index := ch_chunkIndex h\<rparr>)))"

definition on_fend :: "string \<Rightarrow> string option \<Rightarrow> rx \<Rightarrow> rx" where
  "on_fend fid reason s =
     (let s1 = (if reason = Some ''canceled''
                then (cancelReceive fid s)\<lparr>rx_persist := mdel fid (rx_persist s)\<rparr>
                else failReceive fid s)
      in if rx_active s1 = Some fid then s1\<lparr>rx_active := None\<rparr> else s1)"

definition on_fresume :: "string \<Rightarrow> rx \<Rightarrow> rx" where
  "on_fresume fid s =
     (if rx_dc s
      then s\<lparr>rx_frames := rx_frames s @
             [FResumeAck fid (Some (case rec_of fid s of None \<Rightarrow> 0 | Some r \<Rightarrow> rs_got r))]\<rparr>
      else s)"

text \<open>A resume acknowledgement resolves the waiting promise of that file, if there is one.\<close>

definition on_fresume_ack :: "string \<Rightarrow> nat option \<Rightarrow> rx \<Rightarrow> rx" where
  "on_fresume_ack fid got s =
     (if fid \<in> set (rx_waiting s)
      then s\<lparr>rx_waiting := set_del fid (rx_waiting s),
             rx_resumed := rx_resumed s @ [(fid, case got of None \<Rightarrow> 0 | Some g \<Rightarrow> g)]\<rparr>
      else s)"

fun on_text :: "frame \<Rightarrow> rx \<Rightarrow> rx" where
  "on_text (FInput e) s = send ''media'' ''remote_input'' (Some (remote_input_json e)) s"
| "on_text (FMeta m) s = on_fmeta m s"
| "on_text (FHead h) s = on_fhead h s"
| "on_text (FEnd fid reason) s = (if fid = [] then s else on_fend fid reason s)"
| "on_text (FResume fid) s = (if fid = [] then s else on_fresume fid s)"
| "on_text (FResumeAck fid got) s = (if fid = [] then s else on_fresume_ack fid got s)"
| "on_text FOther s = s"

definition on_binary :: "byte list \<Rightarrow> rx \<Rightarrow> rx" where
  "on_binary ab s =
     (case truthy (rx_active s) of
        None \<Rightarrow> s
      | Some act \<Rightarrow>
         (case mget (rx_persist s) act of
            None \<Rightarrow> s
          | Some a \<Rightarrow>
             (let r = rec_put (rx_index s) ab (rx_recs s ! a);
                  s1 = updateReceiveProgress act (rs_got r) (fm_size (rs_meta r))
                         (s\<lparr>rx_recs := (rx_recs s)[a := r]\<rparr>)
              in if rs_got r \<ge> fm_size (rs_meta r) then finishReceive (rs_meta r) a s1 else s1)))"

text \<open>What a frame of the channel is: text that parses, text that does not, bytes.\<close>

datatype rx_event = RxText "frame option" | RxBytes "byte list" | RxDigest | RxClose

definition rx_onclose :: "rx \<Rightarrow> rx" where
  "rx_onclose s =
     (case truthy (rx_active s) of
        None \<Rightarrow> s
      | Some act \<Rightarrow>
         (case rec_of act s of
            None \<Rightarrow> s
          | Some r \<Rightarrow> if rs_got r < fm_size (rs_meta r) then failReceive act s else s))"

fun rx_step :: "(byte list \<Rightarrow> byte list option) \<Rightarrow> rx_event \<Rightarrow> rx \<Rightarrow> rx" where
  "rx_step digest (RxText None) s = s"
| "rx_step digest (RxText (Some f)) s = on_text f s"
| "rx_step digest (RxBytes ab) s = on_binary ab s"
| "rx_step digest RxDigest s = digest_ready digest s"
| "rx_step digest RxClose s = rx_onclose s"

subsection \<open>Frame conditions: card operations touch the store only\<close>

lemma rx_patch [simp]:
  fixes s :: rx
  shows
    "rx_peer (patch p s) = rx_peer s"
    "rx_dc (patch p s) = rx_dc s"
    "rx_active (patch p s) = rx_active s"
    "rx_index (patch p s) = rx_index s"
    "rx_persist (patch p s) = rx_persist s"
    "rx_recs (patch p s) = rx_recs s"
    "rx_done (patch p s) = rx_done s"
    "rx_jobs (patch p s) = rx_jobs s"
    "rx_urls (patch p s) = rx_urls s"
    "rx_frames (patch p s) = rx_frames s"
    "rx_resumed (patch p s) = rx_resumed s"
    "rx_waiting (patch p s) = rx_waiting s"
    "rx_now (patch p s) = rx_now s"
  by (simp_all add: patch_def)

lemma rx_patchItem [simp]:
  fixes s :: rx
  shows
    "rx_peer (patchItem k it f s) = rx_peer s"
    "rx_dc (patchItem k it f s) = rx_dc s"
    "rx_active (patchItem k it f s) = rx_active s"
    "rx_index (patchItem k it f s) = rx_index s"
    "rx_persist (patchItem k it f s) = rx_persist s"
    "rx_recs (patchItem k it f s) = rx_recs s"
    "rx_done (patchItem k it f s) = rx_done s"
    "rx_jobs (patchItem k it f s) = rx_jobs s"
    "rx_urls (patchItem k it f s) = rx_urls s"
    "rx_frames (patchItem k it f s) = rx_frames s"
    "rx_resumed (patchItem k it f s) = rx_resumed s"
    "rx_waiting (patchItem k it f s) = rx_waiting s"
    "rx_now (patchItem k it f s) = rx_now s"
  by (simp_all add: patchItem_def Let_def split: option.split)

lemma rx_update_card [simp]:
  fixes s :: rx
  shows
    "rx_peer (update_card fid x s) = rx_peer s"
    "rx_dc (update_card fid x s) = rx_dc s"
    "rx_active (update_card fid x s) = rx_active s"
    "rx_index (update_card fid x s) = rx_index s"
    "rx_persist (update_card fid x s) = rx_persist s"
    "rx_recs (update_card fid x s) = rx_recs s"
    "rx_done (update_card fid x s) = rx_done s"
    "rx_jobs (update_card fid x s) = rx_jobs s"
    "rx_urls (update_card fid x s) = rx_urls s"
    "rx_frames (update_card fid x s) = rx_frames s"
    "rx_resumed (update_card fid x s) = rx_resumed s"
    "rx_waiting (update_card fid x s) = rx_waiting s"
    "rx_now (update_card fid x s) = rx_now s"
  by (simp_all add: update_card_def split: option.split)

lemma rx_stop_card [simp]:
  fixes s :: rx
  shows
    "rx_peer (stop_card ph fid s) = rx_peer s"
    "rx_dc (stop_card ph fid s) = rx_dc s"
    "rx_active (stop_card ph fid s) = rx_active s"
    "rx_index (stop_card ph fid s) = rx_index s"
    "rx_persist (stop_card ph fid s) = rx_persist s"
    "rx_recs (stop_card ph fid s) = rx_recs s"
    "rx_done (stop_card ph fid s) = rx_done s"
    "rx_jobs (stop_card ph fid s) = rx_jobs s"
    "rx_urls (stop_card ph fid s) = rx_urls s"
    "rx_frames (stop_card ph fid s) = rx_frames s"
    "rx_resumed (stop_card ph fid s) = rx_resumed s"
    "rx_waiting (stop_card ph fid s) = rx_waiting s"
    "rx_now (stop_card ph fid s) = rx_now s"
  by (simp_all add: stop_card_def split: option.split)

lemma rx_putAt [simp]:
  fixes s :: rx
  shows
    "rx_peer (putAt k msg xf force s) = rx_peer s"
    "rx_dc (putAt k msg xf force s) = rx_dc s"
    "rx_active (putAt k msg xf force s) = rx_active s"
    "rx_index (putAt k msg xf force s) = rx_index s"
    "rx_persist (putAt k msg xf force s) = rx_persist s"
    "rx_recs (putAt k msg xf force s) = rx_recs s"
    "rx_done (putAt k msg xf force s) = rx_done s"
    "rx_jobs (putAt k msg xf force s) = rx_jobs s"
    "rx_urls (putAt k msg xf force s) = rx_urls s"
    "rx_frames (putAt k msg xf force s) = rx_frames s"
    "rx_resumed (putAt k msg xf force s) = rx_resumed s"
    "rx_waiting (putAt k msg xf force s) = rx_waiting s"
    "rx_now (putAt k msg xf force s) = rx_now s"
  by (simp_all add: putAt_def Let_def)

lemma rx_completeReceive [simp]:
  fixes s :: rx
  shows
    "rx_peer (completeReceive fid p nm sz mime url ok sha nw s) = rx_peer s"
    "rx_dc (completeReceive fid p nm sz mime url ok sha nw s) = rx_dc s"
    "rx_active (completeReceive fid p nm sz mime url ok sha nw s) = rx_active s"
    "rx_index (completeReceive fid p nm sz mime url ok sha nw s) = rx_index s"
    "rx_persist (completeReceive fid p nm sz mime url ok sha nw s) = rx_persist s"
    "rx_recs (completeReceive fid p nm sz mime url ok sha nw s) = rx_recs s"
    "rx_done (completeReceive fid p nm sz mime url ok sha nw s) = rx_done s"
    "rx_jobs (completeReceive fid p nm sz mime url ok sha nw s) = rx_jobs s"
    "rx_urls (completeReceive fid p nm sz mime url ok sha nw s) = rx_urls s"
    "rx_frames (completeReceive fid p nm sz mime url ok sha nw s) = rx_frames s"
    "rx_resumed (completeReceive fid p nm sz mime url ok sha nw s) = rx_resumed s"
    "rx_waiting (completeReceive fid p nm sz mime url ok sha nw s) = rx_waiting s"
    "rx_now (completeReceive fid p nm sz mime url ok sha nw s) = rx_now s"
  by (simp_all add: completeReceive_def toast_def Let_def split: option.split)

lemmas progress_defs = updateReceiveProgress_def cancelReceive_def failReceive_def

subsection \<open>The assembly keeps the longest prefix\<close>

definition bytes_at :: "byte list option list \<Rightarrow> nat \<Rightarrow> byte list" where
  "bytes_at ch i = (case arr_get ch i of None \<Rightarrow> [] | Some b \<Rightarrow> b)"

lemma advance_spec:
  "advance ch c g = (c', g') \<Longrightarrow>
   c \<le> c' \<and> (\<forall>i. c \<le> i \<and> i < c' \<longrightarrow> arr_get ch i \<noteq> None) \<and> arr_get ch c' = None
   \<and> g' = g + length (concat (map (bytes_at ch) [c..<c']))"
proof (induction ch c g rule: advance.induct)
  case (1 ch c g)
  show ?case
  proof (cases "arr_get ch c")
    case None
    with "1.prems" show ?thesis by (auto simp: advance.simps[of ch c g])
  next
    case (Some ab)
    with "1.prems" have "advance ch (Suc c) (g + length ab) = (c', g')"
      by (simp add: advance.simps[of ch c g])
    note IH = "1.IH"[OF Some this]
    then have seg: "[c..<c'] = c # [Suc c..<c']" by (simp add: upt_conv_Cons)
    have "arr_get ch i \<noteq> None" if "c \<le> i" "i < c'" for i
      using IH Some that by (cases "i = c") auto
    with IH Some seg show ?thesis by (auto simp: bytes_at_def)
  qed
qed

definition rec_ok :: "recv_state \<Rightarrow> bool" where
  "rec_ok r \<longleftrightarrow> (\<forall>i < rs_contig r. arr_get (rs_chunks r) i \<noteq> None) \<and> arr_get (rs_chunks r) (rs_contig r) = None"

definition rec_held :: "recv_state \<Rightarrow> nat \<Rightarrow> byte list option" where
  "rec_held r i = arr_get (rs_chunks r) i"

lemma rec_put_simps [simp]:
  "rs_chunks (rec_put i ab r) = arr_set (rs_chunks r) i ab" "rs_meta (rec_put i ab r) = rs_meta r"
  "rs_recvBytes (rec_put i ab r) = rs_recvBytes r + length ab"
  by (simp_all add: rec_put_def Let_def split: prod.split)

lemma rec_put_advance: "advance (arr_set (rs_chunks r) i ab) (rs_contig r) (rs_got r)
    = (rs_contig (rec_put i ab r), rs_got (rec_put i ab r))"
  by (simp add: rec_put_def Let_def split: prod.split)

lemma rec_ok_put: "rec_ok r \<Longrightarrow> rec_ok (rec_put i ab r)"
  using advance_spec[OF rec_put_advance[of r i ab]]
  by (auto simp: rec_ok_def) (metis linorder_not_less)

interpretation rcv: chunk_store rec_put rec_held rs_contig rec_blob rec_ok
proof
  fix r :: recv_state and i :: nat and ab :: "byte list"
  show "rec_held (rec_put i ab r) = (rec_held r)(i \<mapsto> ab)"
    by (auto simp: rec_held_def)
  show "rec_ok (rec_put i ab r)" if "rec_ok r" using that by (rule rec_ok_put)
  show "rec_held r i \<noteq> None" if "rec_ok r" "i < rs_contig r" using that by (simp add: rec_ok_def rec_held_def)
  show "rec_held r (rs_contig r) = None" if "rec_ok r" using that by (simp add: rec_ok_def rec_held_def)
  show "rec_blob r = concat (map (\<lambda>i. the (rec_held r i)) [0..<rs_contig r])" if "rec_ok r"
  proof -
    have "map (\<lambda>i. case arr_get (rs_chunks r) i of None \<Rightarrow> [] | Some b \<Rightarrow> b) [0..<rs_contig r]
        = map (\<lambda>i. the (rec_held r i)) [0..<rs_contig r]"
      using that by (auto simp: rec_ok_def rec_held_def)
    then show ?thesis by (simp only: rec_blob_def)
  qed
qed

text \<open>\<open>file_part c f r\<close>: the receiver holds chunks of \<open>f\<close> only and counts the bytes of its prefix.\<close>

definition file_part :: "nat \<Rightarrow> byte list \<Rightarrow> recv_state \<Rightarrow> bool" where
  "file_part c f r \<longleftrightarrow> rcv.part_of c f r \<and> rs_got r = length (rec_blob r)"

lemma file_part_fresh: "file_part c f (fresh_rec m)"
  by (simp add: file_part_def rcv.part_of_def rec_ok_def fresh_rec_def rec_held_def rec_blob_def)

lemma blob_bytes: "rec_blob r = concat (map (bytes_at (rs_chunks r)) [0..<rs_contig r])"
  by (simp add: rec_blob_def bytes_at_def[abs_def])

lemma file_part_put:
  assumes p: "file_part c f r" and i: "i < ceil_div (length f) c"
  shows "file_part c f (rec_put i (chunk_at c f i) r)"
proof -
  let ?r = "rec_put i (chunk_at c f i) r"
  let ?ch = "arr_set (rs_chunks r) i (chunk_at c f i)"
  have part: "rcv.part_of c f r" and got: "rs_got r = length (rec_blob r)"
    using p by (simp_all add: file_part_def)
  note adv = advance_spec[OF rec_put_advance[of r i "chunk_at c f i"]]
  have same: "bytes_at ?ch j = bytes_at (rs_chunks r) j" if "j < rs_contig r" for j
    using part that by (auto simp: rcv.part_of_def rec_ok_def rec_held_def bytes_at_def)
  have "rec_blob ?r = concat (map (bytes_at ?ch) [0..<rs_contig r]) @ concat (map (bytes_at ?ch) [rs_contig r..<rs_contig ?r])"
    using adv by (simp add: blob_bytes) (metis concat_append le_add_diff_inverse map_append upt_add_eq_append zero_le)
  moreover have "map (bytes_at ?ch) [0..<rs_contig r] = map (bytes_at (rs_chunks r)) [0..<rs_contig r]"
    using same by simp
  ultimately have "length (rec_blob ?r) = length (rec_blob r) + length (concat (map (bytes_at ?ch) [rs_contig r..<rs_contig ?r]))"
    by (simp only: blob_bytes length_append)
  then show ?thesis
    using rcv.part_of_put[OF part i] adv got by (simp add: file_part_def)
qed

lemma file_part_puts:
  "file_part c f r \<Longrightarrow> \<forall>i \<in> set is. i < ceil_div (length f) c \<Longrightarrow>
   file_part c f (fold (\<lambda>i. rec_put i (chunk_at c f i)) is r)"
  by (induction "is" arbitrary: r) (auto intro: file_part_put)

text \<open>C12: whatever the order in which the chunks of a file arrive, and however often a chunk is
  repeated, the receiver's progress is the length of the longest prefix it holds; the assembled bytes
  are that prefix, and they are the whole file exactly when every chunk has arrived.\<close>

theorem assembly_any_order:
  assumes c: "0 < c" and idx: "\<forall>i \<in> set is. i < ceil_div (length f) c"
  shows "let r = fold (\<lambda>i. rec_put i (chunk_at c f i)) is (fresh_rec m) in
      rec_blob r = take (rs_contig r * c) f
    \<and> rs_got r = length (rec_blob r)
    \<and> (rs_got r \<ge> length f) = ({..<ceil_div (length f) c} \<subseteq> set is)
    \<and> ({..<ceil_div (length f) c} \<subseteq> set is \<longrightarrow> rec_blob r = f)"
proof -
  define r where "r = fold (\<lambda>i. rec_put i (chunk_at c f i)) is (fresh_rec m)"
  have p: "file_part c f r"
    unfolding r_def using file_part_fresh idx by (rule file_part_puts)
  then have part: "rcv.part_of c f r" and got: "rs_got r = length (rec_blob r)"
    by (simp_all add: file_part_def)
  have held: "rec_held r i \<noteq> None \<longleftrightarrow> i \<in> set is" for i
    unfolding r_def using rcv.held_puts[of c f "is" "fresh_rec m" i]
    by (simp add: rec_held_def fresh_rec_def)
  have whole: "rec_blob r = f" if "{..<ceil_div (length f) c} \<subseteq> set is"
    by (rule rcv.part_complete[OF part c]) (use that held in auto)
  have "length (rec_blob r) < length f" if "i < ceil_div (length f) c" "i \<notin> set is" for i
    using rcv.part_incomplete[OF part c that(1)] held that(2) by blast
  then have "(rs_got r \<ge> length f) = ({..<ceil_div (length f) c} \<subseteq> set is)"
    using whole got by (auto simp: not_less[symmetric])
  then show ?thesis
    unfolding Let_def r_def[symmetric] using rcv.part_content[OF part] got whole by simp
qed

theorem assembly_any_order_witness:
  "rec_blob (fold (\<lambda>i. rec_put i (chunk_at 2 [1, 2, 3, 4, 5] i)) [2, 0, 2, 1]
     (fresh_rec \<lparr>fm_fileId = ''f'', fm_to = [], fm_name = [], fm_size = 5, fm_mime = [], fm_sha256 = None\<rparr>))
   = [1, 2, 3, 4, 5]"
proof -
  have n: "ceil_div (length [1, 2, 3, 4, 5 :: byte]) 2 = 3" by (simp add: ceil_div_def)
  show ?thesis
    by (rule assembly_any_order[of 2 "[2, 0, 2, 1]" "[1, 2, 3, 4, 5]", unfolded Let_def n,
          THEN conjunct2, THEN conjunct2, THEN conjunct2, THEN mp])
       (auto simp: numeral_eq_Suc less_Suc_eq)
qed

end
