(* ===== verification/File_Session.thy ===== *)
theory File_Session
  imports File_Receive
begin

text \<open>
  Whole receptions. \<open>wire_frames\<close> is the sequence of frames a sender puts on the channel for the
  chunks from an index on (\<open>File_Send\<close> proves that it does). A receiver that is offered them in that
  order completes the file, from an empty receiver as well as from the chunks an interrupted
  session left behind; a file without bytes is the exception.
\<close>

subsection \<open>The frames of a transfer\<close>

definition head_of :: "nat \<Rightarrow> byte list \<Rightarrow> file_meta \<Rightarrow> nat \<Rightarrow> chunk_header" where
  "head_of c f m i =
     \<lparr>ch_fileId = fm_fileId m, ch_chunkIndex = i, ch_total = ceil_div (fm_size m) c, ch_offset = i * c,
      ch_len = length (chunk_at c f i)\<rparr>"

definition chunk_frames :: "nat \<Rightarrow> byte list \<Rightarrow> file_meta \<Rightarrow> nat \<Rightarrow> rx_event list" where
  "chunk_frames c f m i = [RxText (Some (FHead (head_of c f m i))), RxBytes (chunk_at c f i)]"

definition wire_frames :: "nat \<Rightarrow> byte list \<Rightarrow> file_meta \<Rightarrow> nat \<Rightarrow> rx_event list" where
  "wire_frames c f m k =
     RxText (Some (FMeta m)) # concat (map (chunk_frames c f m) [k..<ceil_div (length f) c])"

subsection \<open>What card operations keep\<close>

text \<open>\<open>card_env\<close>: the conversation table is a map and no entry of the peer's conversation carries
  the nonce of the card that a completed reception adds.\<close>

definition card_env :: "string \<Rightarrow> rx \<Rightarrow> bool" where
  "card_env fid s \<longleftrightarrow> mwf (conversations (app s))
     \<and> (\<forall>x \<in> set (conv_of (app s) (rx_peer s)). cm_nonce x \<noteq> ''rtc-'' @ fid)"

lemma patchItem_nonces:
  assumes "\<And>x. cm_nonce (f x) = cm_nonce x"
  shows "map cm_nonce (conv_of (app (patchItem k it f s)) k') = map cm_nonce (conv_of (app s) k')"
  using assms
  by (auto simp: patchItem_def Let_def map_update list_update_same_conv dest: find_index_SomeD split: option.split)

lemma update_card_nonces:
  "map cm_nonce (conv_of (app (update_card fid x s)) k) = map cm_nonce (conv_of (app s) k)"
  by (auto simp: update_card_def with_xfer_def patchItem_nonces split: option.split)

lemma patchItem_mwf: "mwf (conversations (app s)) \<Longrightarrow> mwf (conversations (app (patchItem k it f s)))"
  by (auto simp: patchItem_def Let_def split: option.split)

lemma update_card_mwf: "mwf (conversations (app s)) \<Longrightarrow> mwf (conversations (app (update_card fid x s)))"
  by (auto simp: update_card_def patchItem_mwf split: option.split)

lemma nonce_image: "(\<forall>x \<in> set c. cm_nonce x \<noteq> n) \<longleftrightarrow> n \<notin> set (map cm_nonce c)"
  by auto

lemma card_env_update [simp]: "card_env fid s \<Longrightarrow> card_env fid (updateReceiveProgress i g t s)"
  by (simp add: card_env_def updateReceiveProgress_def update_card_mwf nonce_image update_card_nonces del: set_map)

lemma card_env_same:
  "ui_store s' = ui_store s \<Longrightarrow> rx_peer s' = rx_peer s \<Longrightarrow> card_env fid s' = card_env fid s"
  by (simp add: card_env_def)

lemma update_card_found:
  assumes wf: "mwf (conversations (app s))" and found: "findByFileId fid s = Some (k, it)"
  shows "findByFileId fid (update_card fid x s) = Some (k, with_xfer x it)"
proof -
  from found have "find_card (conversations (app s)) fid = Some (k, it)" by (simp add: findByFileId_def)
  from find_card_SomeD[OF this] obtain pre xs ys post where
    at: "card_at (conversations (app s)) fid pre k xs it ys post" by blast
  have "conversations (app (update_card fid x s)) = pre @ (k, xs @ with_xfer x it # ys) # post"
    using found patchItem_at[OF wf at] by (simp add: update_card_def)
  moreover have "card_at (pre @ (k, xs @ with_xfer x it # ys) # post) fid pre k xs (with_xfer x it) ys post"
    using at by (simp add: card_at_def with_xfer_def item_fileId_def)
  ultimately show ?thesis using find_card_at by (simp add: findByFileId_def)
qed

text \<open>What the user sees of a received file: a card in the state done, with the object URL and the
  result of the digest check.\<close>

definition shown :: "string \<Rightarrow> string \<Rightarrow> bool option \<Rightarrow> nat \<Rightarrow> rx \<Rightarrow> bool" where
  "shown fid url ok sz s \<longleftrightarrow> (\<exists>k it mr. findByFileId fid s = Some (k, it) \<and> cm_mediaRef it = Some mr
     \<and> mr_url mr = Some url \<and> mr_sha256Ok mr = ok \<and> ci_xfer it = Some (done_state sz))"

lemma find_card_append:
  "\<forall>x \<in> set c. item_fileId x \<noteq> Some fid \<Longrightarrow> item_fileId it = Some fid \<Longrightarrow>
   find (\<lambda>x. item_fileId x = Some fid) (c @ [it]) = Some it"
  by (rule find_first) auto

lemma completeReceive_shown:
  assumes env: "card_env fid s"
  shows "shown fid url ok sz (completeReceive fid (rx_peer s) nm sz mime url ok sha now s)"
proof (cases "findByFileId fid s")
  case (Some p)
  obtain k it where p: "p = (k, it)" by (cases p)
  with Some have "find_card (conversations (app s)) fid = Some (k, it)" by (simp add: findByFileId_def)
  from find_card_SomeD[OF this] obtain pre xs ys post where
    at: "card_at (conversations (app s)) fid pre k xs it ys post" by blast
  then have fid: "item_fileId it = Some fid" by (simp add: card_at_def)
  then obtain cur where cur: "cm_mediaRef it = Some cur" "mr_fileId cur = Some fid"
    by (auto simp: item_fileId_def split: bind_splits)
  define g where "g c = c\<lparr>cm_mediaRef := map_option (\<lambda>cur. received_ref cur url ok sha) (cm_mediaRef c),
                          ci_xfer := Some (done_state sz)\<rparr>" for c :: chat_item
  have new: "conversations (app (patchItem k it g s)) = pre @ (k, xs @ g it # ys) # post"
    using env at by (intro patchItem_at) (simp_all add: card_env_def)
  have "item_fileId (g it) = Some fid" using cur by (simp add: g_def item_fileId_def received_ref_def)
  with at new have "card_at (conversations (app (patchItem k it g s))) fid pre k xs (g it) ys post"
    by (simp add: card_at_def)
  from find_card_at[OF this] have "findByFileId fid (patchItem k it g s) = Some (k, g it)"
    by (simp add: findByFileId_def)
  then have "findByFileId fid (toast (NFileReceived nm) (patchItem k it g s)) = Some (k, g it)"
    by (simp add: findByFileId_def)
  then show ?thesis
    using Some p cur
    by (auto simp: shown_def completeReceive_def g_def[abs_def, symmetric])
       (auto simp: g_def received_ref_def)
next
  case None
  define k where "k = rx_peer s"
  define s' where "s' = completeReceive fid (rx_peer s) nm sz mime url ok sha now s"
  obtain it mr where conv: "conv_of (app s') k = conv_of (app s) k @ [it]"
    and rest: "\<And>k'. k' \<noteq> k \<Longrightarrow> conv_of (app s') k' = conv_of (app s) k'"
    and mwf: "mwf (conversations (app s'))"
    and it: "cm_mediaRef it = Some mr" "mr_fileId mr = Some fid" "mr_url mr = Some url"
      "mr_sha256Ok mr = ok" "ci_xfer it = Some (done_state sz)"
    using env None
    by (force simp: s'_def k_def completeReceive_def Let_def putAt_def put_item_def card_env_def)
  have old: "item_fileId x \<noteq> Some fid" if "x \<in> set (conv_of (app s) k')" for x k'
    using None conv_of_mem[OF that] by (auto simp: findByFileId_def find_card_None)
  have "item_fileId it = Some fid" using it by (simp add: item_fileId_def)
  then have "findByFileId fid s' = Some (k, it)"
    using card_in_conv(1)[OF mwf, of k "conv_of (app s) k" it "[]"] conv old rest by auto
  then show ?thesis
    using it by (auto simp: shown_def s'_def)
qed


subsection \<open>A reception step by step\<close>

text \<open>\<open>rx_at c f m k s\<close>: the reception of \<open>m\<close> is active and the first \<open>k\<close> chunks of \<open>f\<close> are here.\<close>

definition rx_at :: "nat \<Rightarrow> byte list \<Rightarrow> file_meta \<Rightarrow> nat \<Rightarrow> rx \<Rightarrow> bool" where
  "rx_at c f m k s \<longleftrightarrow> rx_active s = Some (fm_fileId m) \<and> fm_fileId m \<noteq> [] \<and> fm_size m = length f
     \<and> card_env (fm_fileId m) s
     \<and> (\<exists>a. mget (rx_persist s) (fm_fileId m) = Some a \<and> a < length (rx_recs s)
          \<and> rs_meta (rx_recs s ! a) = m \<and> file_part c f (rx_recs s ! a)
          \<and> rcv.prefix_of c f k (rx_recs s ! a))"

text \<open>\<open>rx_before c f m k s\<close>: what a receiver must be before the metadata of the file arrive: nothing is
  known of the file and \<open>k\<close> is 0, or the first \<open>k\<close> chunks were kept from an earlier session.\<close>

definition rx_before :: "nat \<Rightarrow> byte list \<Rightarrow> file_meta \<Rightarrow> nat \<Rightarrow> rx \<Rightarrow> bool" where
  "rx_before c f m k s \<longleftrightarrow> fm_fileId m \<noteq> [] \<and> fm_size m = length f \<and> card_env (fm_fileId m) s
     \<and> (case rec_of (fm_fileId m) s of
          None \<Rightarrow> k = 0
        | Some r \<Rightarrow> fm_size (rs_meta r) = length f \<and> file_part c f r \<and> rcv.prefix_of c f k r)"

lemma prefix_fresh: "rcv.prefix_of c f 0 (fresh_rec m)"
  using file_part_fresh by (simp add: rcv.prefix_of_def file_part_def) (simp add: fresh_rec_def rec_held_def)

lemma rec_meta [simp]:
  "rec_held (r\<lparr>rs_meta := m\<rparr>) = rec_held r" "rec_ok (r\<lparr>rs_meta := m\<rparr>) = rec_ok r"
  "rec_blob (r\<lparr>rs_meta := m\<rparr>) = rec_blob r"
  by (simp_all add: rec_held_def[abs_def] rec_ok_def rec_blob_def)

lemma prefix_meta [simp]:
  "rcv.prefix_of c f k (r\<lparr>rs_meta := m\<rparr>) = rcv.prefix_of c f k r"
  "file_part c f (r\<lparr>rs_meta := m\<rparr>) = file_part c f r"
  by (simp_all add: rcv.prefix_of_def rcv.part_of_def file_part_def)

lemma meta_ready:
  assumes b: "rx_before c f m k s"
  shows "rx_at c f m k (on_fmeta m s)"
proof -
  define fid where "fid = fm_fileId m"
  define s1 where "s1 = s\<lparr>rx_active := Some fid\<rparr>"
  have rec1: "rec_of fid s1 = rec_of fid s" by (simp add: rec_of_def s1_def split: option.split)
  have env1: "card_env fid s1"
    using b by (simp add: rx_before_def fid_def s1_def card_env_def)
  have b': "fid \<noteq> []" "fm_size m = length f" using b by (simp_all add: rx_before_def fid_def)
  show ?thesis
  proof (cases "rec_of fid s")
    case None
    with b have k: "k = 0" by (simp add: rx_before_def fid_def)
    have "on_fmeta m s = updateReceiveProgress fid 0 (fm_size m) (alloc_rec fid m s1)"
      using None rec1 by (simp add: on_fmeta_def Let_def fid_def[symmetric] s1_def[symmetric])
        (simp add: rec_of_def alloc_rec_def fresh_rec_def)
    moreover have "card_env fid (alloc_rec fid m s1)"
      using env1 by (simp add: card_env_def alloc_rec_def)
    ultimately show ?thesis
      using b' k prefix_fresh file_part_fresh
      by (simp add: rx_at_def fid_def[symmetric] progress_defs)
         (simp add: alloc_rec_def s1_def updateReceiveProgress_def[symmetric] fresh_rec_def)
  next
    case (Some r)
    with b have r: "fm_size (rs_meta r) = length f" "file_part c f r" "rcv.prefix_of c f k r"
      by (simp_all add: rx_before_def fid_def)
    from Some obtain a where a: "mget (rx_persist s) fid = Some a" "a < length (rx_recs s)" "r = rx_recs s ! a"
      by (auto simp: rec_of_def split: option.splits if_splits)
    define s2 where "s2 = s1\<lparr>rx_recs := (rx_recs s)[a := r\<lparr>rs_meta := m\<rparr>]\<rparr>"
    have "on_fmeta m s = updateReceiveProgress fid (case rec_of fid s2 of None \<Rightarrow> 0 | Some r \<Rightarrow> rs_got r) (fm_size m) s2"
      using Some rec1 r b' a
      by (simp add: on_fmeta_def Let_def fid_def[symmetric] s1_def[symmetric] s2_def set_rec_def)
         (simp add: s1_def)
    moreover have "card_env fid s2"
      using env1 by (simp add: card_env_def s2_def)
    ultimately show ?thesis
      using b' r a by (simp add: rx_at_def fid_def[symmetric] progress_defs)
        (simp add: s2_def s1_def updateReceiveProgress_def[symmetric])
  qed
qed

lemma rx_at_progress [simp]: "rx_at c f m k s \<Longrightarrow> rx_at c f m k (updateReceiveProgress i g t s)"
  by (auto simp: rx_at_def) (auto simp: updateReceiveProgress_def)

lemma rx_at_index [simp]: "rx_at c f m k (s\<lparr>rx_index := i\<rparr>) = rx_at c f m k s"
  by (simp add: rx_at_def card_env_def)

lemma part_got: "file_part c f r \<Longrightarrow> rcv.prefix_of c f k r \<Longrightarrow> rs_got r = min (k * c) (length f)"
  by (simp add: file_part_def rcv.prefix_content min.commute)

lemma got_complete:
  "0 < c \<Longrightarrow> file_part c f r \<Longrightarrow> rcv.prefix_of c f k r \<Longrightarrow> length f \<le> rs_got r \<longleftrightarrow> ceil_div (length f) c \<le> k"
  using ceil_div_least[of c k "length f"] by (auto simp: part_got not_less)

text \<open>One chunk of the file, header and bytes: the prefix grows by the chunk, and when it is the last
  one the reception is finished.\<close>

lemma chunk_step:
  assumes at: "rx_at c f m k s" and c: "0 < c" and i: "i \<le> k" "i < ceil_div (length f) c"
  shows "\<exists>s1 a. rx_at c f m (max k (Suc i)) s1 \<and> mget (rx_persist s1) (fm_fileId m) = Some a
     \<and> rx_urls s1 = rx_urls s \<and> rx_jobs s1 = rx_jobs s \<and> rx_peer s1 = rx_peer s
     \<and> rs_recvBytes (rx_recs s1 ! a) = rs_recvBytes (rx_recs s ! a) + length (chunk_at c f i)
     \<and> mget (rx_persist s) (fm_fileId m) = Some a
     \<and> run_events (rx_step digest) (chunk_frames c f m i) s =
         (if max k (Suc i) < ceil_div (length f) c then s1 else finishReceive m a s1)"
proof -
  define fid where "fid = fm_fileId m"
  obtain a where a: "mget (rx_persist s) fid = Some a" "a < length (rx_recs s)"
      "rs_meta (rx_recs s ! a) = m" "file_part c f (rx_recs s ! a)" "rcv.prefix_of c f k (rx_recs s ! a)"
    and fid: "rx_active s = Some fid" "fid \<noteq> []" and sz: "fm_size m = length f" and env: "card_env fid s"
    using at by (auto simp: rx_at_def fid_def)
  obtain g t where head: "on_fhead (head_of c f m i) s = updateReceiveProgress fid g t (s\<lparr>rx_index := i\<rparr>)"
    using fid by (cases "rec_of fid s") (auto simp: on_fhead_def truthy_def head_of_def fid_def)
  define sh where "sh = updateReceiveProgress fid g t (s\<lparr>rx_index := i\<rparr>)"
  have sh: "rx_active sh = Some fid" "rx_persist sh = rx_persist s" "rx_recs sh = rx_recs s" "rx_index sh = i"
    "rx_urls sh = rx_urls s" "rx_jobs sh = rx_jobs s" "rx_peer sh = rx_peer s"
    using fid by (simp_all add: sh_def progress_defs)
  have envh: "card_env fid sh" using env by (simp add: sh_def card_env_same[of "s\<lparr>rx_index := i\<rparr>" s])
  define r where "r = rec_put i (chunk_at c f i) (rx_recs s ! a)"
  define s0 where "s0 = sh\<lparr>rx_recs := (rx_recs s)[a := r]\<rparr>"
  define s1 where "s1 = updateReceiveProgress fid (rs_got r) (fm_size m) s0"
  have part: "file_part c f r" "rcv.prefix_of c f (max k (Suc i)) r"
    using a(4,5) i by (simp_all add: r_def file_part_put rcv.prefix_put)
  have bin: "on_binary (chunk_at c f i) sh = (if rs_got r \<ge> length f then finishReceive m a s1 else s1)"
    using sh fid a sz by (simp add: on_binary_def truthy_def Let_def r_def s1_def s0_def)
  have s1: "rx_active s1 = Some fid" "rx_persist s1 = rx_persist s" "rx_recs s1 = (rx_recs s)[a := r]"
    "rx_urls s1 = rx_urls s" "rx_jobs s1 = rx_jobs s" "rx_peer s1 = rx_peer s"
    using sh by (simp_all add: s1_def s0_def progress_defs)
  have env1: "card_env fid s1"
    using envh by (simp add: s1_def s0_def card_env_same[of "sh\<lparr>rx_recs := (rx_recs s)[a := r]\<rparr>" sh])
  have meta: "rs_meta r = m" using a by (simp add: r_def)
  have "rx_at c f m (max k (Suc i)) s1"
    unfolding rx_at_def fid_def[symmetric] using s1 fid sz env1 a part meta by simp
  moreover have "run_events (rx_step digest) (chunk_frames c f m i) s =
      (if max k (Suc i) < ceil_div (length f) c then s1 else finishReceive m a s1)"
    using bin got_complete[OF c part] by (simp add: chunk_frames_def head sh_def[symmetric] del: max_less_iff_conj)
  ultimately show ?thesis
    using s1 a by (intro exI[of _ s1] exI[of _ a]) (simp add: fid_def r_def)
qed

text \<open>All chunks from an index on, up to but not including the last one.\<close>

lemma chunks_before_last:
  assumes c: "0 < c" and at: "rx_at c f m k s" and i: "i \<le> k" and k: "k < ceil_div (length f) c"
    and j: "i \<le> j" "j < ceil_div (length f) c"
  shows "\<exists>s1 a. rx_at c f m (max k j) s1 \<and> mget (rx_persist s1) (fm_fileId m) = Some a
     \<and> mget (rx_persist s) (fm_fileId m) = Some a
     \<and> rs_recvBytes (rx_recs s1 ! a) = rs_recvBytes (rx_recs s ! a) + length (concat (map (chunk_at c f) [i..<j]))
     \<and> rx_urls s1 = rx_urls s \<and> rx_jobs s1 = rx_jobs s \<and> rx_peer s1 = rx_peer s
     \<and> run_events (rx_step digest) (concat (map (chunk_frames c f m) [i..<j])) s = s1"
  using j
proof (induction j)
  case 0
  with at k show ?case by (auto simp: rx_at_def intro!: exI[of _ s])
next
  case (Suc j)
  show ?case
  proof (cases "i = Suc j")
    case True
    with i at k show ?thesis by (auto simp: rx_at_def max_def intro!: exI[of _ s])
  next
    case False
    with Suc obtain s1 a where s1: "rx_at c f m (max k j) s1" "mget (rx_persist s1) (fm_fileId m) = Some a"
      "mget (rx_persist s) (fm_fileId m) = Some a"
      "rs_recvBytes (rx_recs s1 ! a) = rs_recvBytes (rx_recs s ! a) + length (concat (map (chunk_at c f) [i..<j]))"
      "rx_urls s1 = rx_urls s" "rx_jobs s1 = rx_jobs s" "rx_peer s1 = rx_peer s"
      "run_events (rx_step digest) (concat (map (chunk_frames c f m) [i..<j])) s = s1" by auto
    have n: "max (max k j) (Suc j) = max k (Suc j)" "max k (Suc j) < ceil_div (length f) c"
      using k Suc.prems by auto
    from chunk_step[OF s1(1) c, of j digest] Suc.prems n s1(2)
    obtain s2 where "rx_at c f m (max k (Suc j)) s2" "mget (rx_persist s2) (fm_fileId m) = Some a"
      "rs_recvBytes (rx_recs s2 ! a) = rs_recvBytes (rx_recs s1 ! a) + length (chunk_at c f j)"
      "rx_urls s2 = rx_urls s1" "rx_jobs s2 = rx_jobs s1" "rx_peer s2 = rx_peer s1"
      "run_events (rx_step digest) (chunk_frames c f m j) s1 = s2" by auto
    with s1 False Suc.prems show ?thesis
      by (intro exI[of _ s2] exI[of _ a]) (simp add: run_events_append)
  qed
qed

lemma finish_tail_effect:
  assumes env: "card_env (fm_fileId (rj_meta j)) s"
  shows "shown (fm_fileId (rj_meta j)) (rj_url j) ok (fm_size (rj_meta j)) (finish_tail j ok s)"
    and "mget (rx_persist (finish_tail j ok s)) (fm_fileId (rj_meta j)) = None"
    and "rx_active (finish_tail j ok s) = None" "rx_urls (finish_tail j ok s) = rx_urls s"
    and "mget (rx_done (finish_tail j ok s)) (fm_fileId (rj_meta j))
          = Some (rs_got (rx_recs s ! rj_rec j), rs_recvBytes (rx_recs s ! rj_rec j))"
  using completeReceive_shown[OF env, of "rj_url j" ok "fm_size (rj_meta j)"]
  by (simp_all add: finish_tail_def Let_def shown_def findByFileId_def)

text \<open>The whole reception; a digest in the metadata makes the completion wait for its computation.\<close>

definition completion :: "file_meta \<Rightarrow> rx_event list" where
  "completion m = (if truthy (fm_sha256 m) = None then [] else [RxDigest])"

definition verdict :: "(byte list \<Rightarrow> byte list option) \<Rightarrow> file_meta \<Rightarrow> byte list \<Rightarrow> bool option" where
  "verdict digest m f =
     (case truthy (fm_sha256 m) of None \<Rightarrow> None
      | Some h \<Rightarrow> map_option (\<lambda>x. x = h) (sha256Hex digest f))"

lemma finish_all:
  assumes at: "rx_at c f m (ceil_div (length f) c) s" and c: "0 < c" and jobs: "rx_jobs s = []"
    and a: "mget (rx_persist s) (fm_fileId m) = Some a"
  shows "let s' = run_events (rx_step digest) (completion m) (finishReceive m a s);
             url = blob_url (length (rx_urls s))
         in shown (fm_fileId m) url (verdict digest m f) (length f) s'
          \<and> rx_urls s' = rx_urls s @ [(url, f)]
          \<and> mget (rx_persist s') (fm_fileId m) = None \<and> rx_active s' = None
          \<and> mget (rx_done s') (fm_fileId m) = Some (length f, rs_recvBytes (rx_recs s ! a))"
proof -
  define j where "j = \<lparr>rj_meta = m, rj_blob = f, rj_url = blob_url (length (rx_urls s)), rj_rec = a\<rparr>"
  define s1 where "s1 = s\<lparr>rx_urls := rx_urls s @ [(blob_url (length (rx_urls s)), f)]\<rparr>"
  have part: "file_part c f (rx_recs s ! a)" "rcv.prefix_of c f (ceil_div (length f) c) (rx_recs s ! a)"
    and env: "card_env (fm_fileId m) s" and sz: "fm_size m = length f"
    using at a by (auto simp: rx_at_def)
  have blob: "rec_blob (rx_recs s ! a) = f"
    using rcv.prefix_content[OF part(2)] ceil_div_le[OF c, of "length f"] by simp
  have got: "rs_got (rx_recs s ! a) = length f"
    using part(1) blob by (simp add: file_part_def)
  have env1: "card_env (fm_fileId (rj_meta j)) s1" and env2: "card_env (fm_fileId (rj_meta j)) (s1\<lparr>rx_jobs := []\<rparr>)"
    using env by (simp_all add: card_env_def s1_def j_def)
  show ?thesis
  proof (cases "truthy (fm_sha256 m)")
    case None
    then have "run_events (rx_step digest) (completion m) (finishReceive m a s) = finish_tail j None s1"
      by (simp add: completion_def finishReceive_def Let_def blob j_def s1_def)
    with finish_tail_effect[OF env1, of None] None got sz show ?thesis
      by (simp add: Let_def verdict_def j_def) (simp add: s1_def)
  next
    case (Some h)
    then have h: "fm_sha256 m = Some h" by (auto simp: truthy_def split: option.splits if_splits)
    have fin: "finishReceive m a s = s1\<lparr>rx_jobs := [j]\<rparr>"
      using Some jobs by (simp add: finishReceive_def Let_def blob j_def s1_def)
    have "verdict digest m f = map_option (\<lambda>x. Some x = fm_sha256 (rj_meta j)) (sha256Hex digest (rj_blob j))"
      using Some h by (simp add: verdict_def j_def)
    then have "run_events (rx_step digest) (completion m) (finishReceive m a s)
        = finish_tail j (verdict digest m f) (s1\<lparr>rx_jobs := []\<rparr>)"
      using Some by (simp add: completion_def fin digest_ready_def)
    with finish_tail_effect[OF env2, of "verdict digest m f"] got sz show ?thesis
      by (simp add: Let_def j_def) (simp add: s1_def)
  qed
qed

lemma receive_all:
  assumes c: "0 < c" and nonempty: "f \<noteq> []" and before: "rx_before c f m k s" and jobs: "rx_jobs s = []"
    and i: "i \<le> k" and k: "k < ceil_div (length f) c"
  shows "let s' = run_events (rx_step digest) (wire_frames c f m i @ completion m) s;
             url = blob_url (length (rx_urls s));
             kept = (case rec_of (fm_fileId m) s of None \<Rightarrow> 0 | Some r \<Rightarrow> rs_recvBytes r)
         in shown (fm_fileId m) url (verdict digest m f) (length f) s'
          \<and> rx_urls s' = rx_urls s @ [(url, f)]
          \<and> mget (rx_persist s') (fm_fileId m) = None \<and> rx_active s' = None
          \<and> mget (rx_done s') (fm_fileId m) = Some (length f, kept + (length f - i * c))"
proof -
  let ?n = "ceil_div (length f) c"
  define s0 where "s0 = on_fmeta m s"
  have at0: "rx_at c f m k s0" unfolding s0_def using before by (rule meta_ready)
  have same: "rx_urls s0 = rx_urls s" "rx_jobs s0 = []"
    using jobs by (auto simp: s0_def on_fmeta_def Let_def progress_defs alloc_rec_def set_rec_def split: option.splits)
  obtain n' where n: "?n = Suc n'" using k by (cases ?n) auto
  from chunks_before_last[OF c at0 i k, of n' digest] i k n
  obtain s1 a where s1: "rx_at c f m n' s1" "mget (rx_persist s0) (fm_fileId m) = Some a"
    "mget (rx_persist s1) (fm_fileId m) = Some a"
    "rs_recvBytes (rx_recs s1 ! a) = rs_recvBytes (rx_recs s0 ! a) + length (concat (map (chunk_at c f) [i..<n']))"
    "rx_urls s1 = rx_urls s" "rx_jobs s1 = []"
    "run_events (rx_step digest) (concat (map (chunk_frames c f m) [i..<n'])) s0 = s1"
    using same by (auto simp: max_def split: if_splits)
  from chunk_step[OF s1(1) c, of n' digest] n s1(3)
  obtain s2 where s2: "rx_at c f m ?n s2" "mget (rx_persist s2) (fm_fileId m) = Some a"
    "rx_urls s2 = rx_urls s" "rx_jobs s2 = []"
    "rs_recvBytes (rx_recs s2 ! a) = rs_recvBytes (rx_recs s1 ! a) + length (chunk_at c f n')"
    "run_events (rx_step digest) (chunk_frames c f m n') s1 = finishReceive m a s2"
    using s1(5,6) by auto
  have run: "run_events (rx_step digest) (wire_frames c f m i @ completion m) s
      = run_events (rx_step digest) (completion m) (finishReceive m a s2)"
    using s1 s2 i k n by (simp add: wire_frames_def run_events_append s0_def)
  have kept: "rs_recvBytes (rx_recs s0 ! a) = (case rec_of (fm_fileId m) s of None \<Rightarrow> 0 | Some r \<Rightarrow> rs_recvBytes r)"
    using s1(2) before
    by (auto simp: s0_def on_fmeta_def Let_def progress_defs rec_of_def alloc_rec_def set_rec_def rx_before_def
          fresh_rec_def split: option.splits if_splits)
  have "length (concat (map (chunk_at c f) [i..<?n])) = length f - i * c"
  proof -
    have "concat (map (chunk_at c f) [0..<?n]) = concat (map (chunk_at c f) [0..<i]) @ concat (map (chunk_at c f) [i..<?n])"
      using i k by (metis concat_append le_add_diff_inverse less_imp_le_nat map_append order_trans upt_add_eq_append zero_le)
    then have "length f = length (take (i * c) f) + length (concat (map (chunk_at c f) [i..<?n]))"
      using all_chunks[OF c, of f] by (metis concat_chunks length_append)
    then show ?thesis by simp
  qed
  then have bytes: "rs_recvBytes (rx_recs s2 ! a) = rs_recvBytes (rx_recs s0 ! a) + (length f - i * c)"
    using s1(4) s2(5) n i k by simp
  show ?thesis
    using finish_all[OF s2(1) c s2(4,2), of digest] s2(3) run bytes kept by (simp add: Let_def)
qed

text \<open>C15: a receiver that holds the first \<open>k\<close> chunks of a file (none, or those an interrupted session
  left), offered the metadata and the chunks from any index \<open>i\<close> up to \<open>k\<close> on, ends with the whole file:
  exactly its bytes are behind the object URL the card shows, the card is done, the digest verdict
  compares the file with the announced digest, the receiver is released, and the number of bytes
  received is what was kept plus what was sent in this session.\<close>

theorem file_received:
  assumes c: "0 < c" and nonempty: "f \<noteq> []" and before: "rx_before c f m k s" and jobs: "rx_jobs s = []"
    and i: "i \<le> k" and k: "k < ceil_div (length f) c"
  shows "let s' = run_events (rx_step digest) (wire_frames c f m i @ completion m) s;
             url = blob_url (length (rx_urls s));
             kept = (case rec_of (fm_fileId m) s of None \<Rightarrow> 0 | Some r \<Rightarrow> rs_recvBytes r)
         in shown (fm_fileId m) url (verdict digest m f) (length f) s'
          \<and> rx_urls s' = rx_urls s @ [(url, f)]
          \<and> mget (rx_persist s') (fm_fileId m) = None \<and> rx_active s' = None
          \<and> mget (rx_done s') (fm_fileId m) = Some (length f, kept + (length f - i * c))"
  using assms by (rule receive_all)

text \<open>A fresh client with one open session, and a fresh session over the receivers that were kept (the
  fields of the class are per session, \<open>persistRecv\<close> is not).\<close>

definition rx_start :: "string \<Rightarrow> int \<Rightarrow> rx" where
  "rx_start peer now = ui.extend ui_init
     \<lparr>rx_peer = peer, rx_dc = True, rx_active = None, rx_index = 0, rx_persist = [], rx_recs = [],
      rx_done = [], rx_jobs = [], rx_urls = [], rx_frames = [], rx_resumed = [], rx_waiting = [],
      rx_now = now\<rparr>"

definition rx_session :: "string \<Rightarrow> rx \<Rightarrow> rx" where
  "rx_session peer s =
     s\<lparr>rx_peer := peer, rx_dc := True, rx_active := None, rx_index := 0, rx_frames := [], rx_resumed := [],
       rx_waiting := []\<rparr>"

lemma rx_before_start: "fm_fileId m \<noteq> [] \<Longrightarrow> fm_size m = length f \<Longrightarrow> rx_before c f m 0 (rx_start peer now)"
  by (simp add: rx_before_def rec_of_def rx_start_def card_env_def ui_init_def ui.defs new_store_def)

definition sample_meta :: file_meta where
  "sample_meta = \<lparr>fm_fileId = ''f1'', fm_to = ''me'', fm_name = ''a.bin'', fm_size = 3, fm_mime = [],
     fm_sha256 = None\<rparr>"

lemma sample_meta_simps [simp]:
  "fm_fileId sample_meta = ''f1''" "fm_size sample_meta = 3" "fm_sha256 sample_meta = None"
  by (simp_all add: sample_meta_def)

theorem file_received_witness:
  "rx_urls (run_events (rx_step Some) (wire_frames 2 [1, 2, 3] sample_meta 0 @ completion sample_meta)
     (rx_start ''bob'' 0)) = [(''blob:0'', [1, 2, 3])]"
proof -
  have b: "rx_before 2 [1, 2, 3] sample_meta 0 (rx_start ''bob'' 0)"
    by (rule rx_before_start) simp_all
  have j: "rx_jobs (rx_start ''bob'' 0) = []" and u: "rx_urls (rx_start ''bob'' 0) = []"
    by (simp_all add: rx_start_def ui.defs)
  have "blob_url 0 = ''blob:0''" by code_simp
  then show ?thesis
    using file_received[of 2 "[1, 2, 3]" sample_meta 0 "rx_start ''bob'' 0" 0 Some] b j u
    by (simp add: Let_def ceil_div_def)
qed

subsection \<open>Interruption, cancellation, resumption\<close>

text \<open>An interruption loses nothing: after the channel closed, or after an end frame whose reason is
  not a cancellation, a new session with the peer still has the first \<open>k\<close> chunks and is ready for the
  metadata; asked for its progress it answers with the number of bytes of those chunks, and only a
  cancellation discards them.\<close>

theorem interruption_keeps_chunks:
  assumes at: "rx_at c f m k s" and k: "k < ceil_div (length f) c" and c: "0 < c"
    and reason: "reason \<noteq> Some ''canceled''"
  shows "let fid = fm_fileId m; s1 = rx_session (rx_peer s) (rx_onclose s);
             s2 = rx_session (rx_peer s) (on_fend fid reason s)
         in rx_before c f m k s1 \<and> rx_before c f m k s2
          \<and> rx_frames (on_fresume fid s1) = [FResumeAck fid (Some (k * c))]
          \<and> rec_of fid (on_fend fid (Some ''canceled'') s) = None"
proof -
  define fid where "fid = fm_fileId m"
  obtain a where a: "mget (rx_persist s) fid = Some a" "a < length (rx_recs s)"
      "rs_meta (rx_recs s ! a) = m" "file_part c f (rx_recs s ! a)" "rcv.prefix_of c f k (rx_recs s ! a)"
    and fid: "rx_active s = Some fid" "fid \<noteq> []" and sz: "fm_size m = length f" and env: "card_env fid s"
    using at by (auto simp: rx_at_def fid_def)
  have keep: "card_env fid (stop_card ph fid s)" for ph
  proof -
    have "map cm_nonce (conv_of (app (stop_card ph fid s)) k') = map cm_nonce (conv_of (app s) k')" for k'
      by (auto simp: stop_card_def with_xfer_def patchItem_nonces split: option.split)
    moreover have "mwf (conversations (app (stop_card ph fid s)))"
      using env by (auto simp: stop_card_def card_env_def patchItem_mwf split: option.split)
    ultimately show ?thesis
      using env by (simp add: card_env_def nonce_image del: set_map)
  qed
  have before: "rx_before c f m k (rx_session (rx_peer s) s')"
    if "ui_store s' = ui_store (stop_card ph fid s)" "rx_persist s' = rx_persist s" "rx_recs s' = rx_recs s" for s' ph
    using keep[of ph] that a fid sz
    by (simp add: rx_before_def fid_def[symmetric] rx_session_def rec_of_def card_env_def)
  have got: "rs_got (rx_recs s ! a) = k * c" "k * c < length f"
    using part_got[OF a(4,5)] ceil_div_least[OF c, of k "length f"] k by simp_all
  have close: "rx_onclose s = failReceive fid s"
    using a fid got sz by (simp add: rx_onclose_def truthy_def rec_of_def)
  have 1: "rx_before c f m k (rx_session (rx_peer s) (rx_onclose s))"
    by (rule before[of _ XFailed]) (simp_all add: close failReceive_def)
  have 2: "rx_before c f m k (rx_session (rx_peer s) (on_fend fid reason s))"
    using reason by (intro before[of _ XFailed]) (simp_all add: on_fend_def Let_def failReceive_def)
  have 3: "rx_frames (on_fresume fid (rx_session (rx_peer s) (rx_onclose s))) = [FResumeAck fid (Some (k * c))]"
    using a got by (simp add: close failReceive_def on_fresume_def rx_session_def rec_of_def)
  have 4: "rec_of fid (on_fend fid (Some ''canceled'') s) = None"
    using fid by (simp add: on_fend_def Let_def cancelReceive_def rec_of_def)
  from 1 2 3 4 show ?thesis by (simp add: Let_def fid_def)
qed

definition sample_half :: rx where
  "sample_half = run_events (rx_step Some) (RxText (Some (FMeta sample_meta)) # chunk_frames 2 [1, 2, 3] sample_meta 0)
     (rx_start ''bob'' 0)"

lemma sample_half_at: "rx_at 2 [1, 2, 3] sample_meta 1 sample_half"
proof -
  have "rx_at 2 [1, 2, 3] sample_meta 0 (on_fmeta sample_meta (rx_start ''bob'' 0))"
    by (intro meta_ready rx_before_start) simp_all
  from chunk_step[OF this, of 0 Some] show ?thesis
    by (auto simp: sample_half_def ceil_div_def)
qed

theorem interruption_keeps_chunks_witness:
  "rx_frames (on_fresume ''f1'' (rx_session (rx_peer sample_half) (rx_onclose sample_half))) = [FResumeAck ''f1'' (Some 2)]"
  using interruption_keeps_chunks[OF sample_half_at, of None] by (simp add: Let_def ceil_div_def)

text \<open>A file without bytes never completes at the receiver: everything the sender transmits for it is
  the metadata frame, after which the receiver is still active for the file, has produced no URL and no
  completion record, and a card of the file stays in the receiving state.\<close>

theorem empty_file_pending:
  assumes before: "rx_before c [] m 0 s"
  shows "let s' = run_events (rx_step digest) (wire_frames c [] m 0) s; fid = fm_fileId m
         in rx_active s' = Some fid \<and> rx_urls s' = rx_urls s \<and> rx_done s' = rx_done s \<and> rx_jobs s' = rx_jobs s
          \<and> rec_of fid s' \<noteq> None
          \<and> (case findByFileId fid s of None \<Rightarrow> conversations (app s') = conversations (app s)
             | Some _ \<Rightarrow> \<exists>k it. findByFileId fid s' = Some (k, it) \<and> ci_xfer it = Some \<lparr>xs_phase = XReceiving, xs_got = 0, xs_total = 0\<rparr>)"
proof -
  have run: "run_events (rx_step digest) (wire_frames c [] m 0) s = on_fmeta m s"
    by (simp add: wire_frames_def ceil_div_def)
  have at: "rx_at c [] m 0 (on_fmeta m s)" using before by (rule meta_ready)
  define fid where "fid = fm_fileId m"
  define s1 where "s1 = (let s1 = s\<lparr>rx_active := Some fid\<rparr> in case rec_of fid s1 of
      None \<Rightarrow> alloc_rec fid m s1
    | Some r \<Rightarrow> if fm_size (rs_meta r) \<noteq> fm_size m then alloc_rec fid m s1
                else set_rec fid (r\<lparr>rs_meta := m\<rparr>) s1)"
  define g where "g = (case rec_of fid s1 of None \<Rightarrow> 0 | Some r \<Rightarrow> rs_got r)"
  have sz: "fm_size m = 0" using before by (simp add: rx_before_def)
  have s1: "ui_store s1 = ui_store s" "rx_urls s1 = rx_urls s" "rx_done s1 = rx_done s" "rx_jobs s1 = rx_jobs s"
    "rx_active s1 = Some fid"
    by (auto simp: s1_def Let_def alloc_rec_def set_rec_def split: option.split)
  have f: "on_fmeta m s = updateReceiveProgress fid g 0 s1"
    by (simp only: on_fmeta_def Let_def s1_def g_def fid_def sz)
  have "rec_of fid (on_fmeta m s) = rec_of fid s1" by (simp add: f rec_of_def progress_defs split: option.split)
  moreover obtain r where r: "rec_of fid (on_fmeta m s) = Some r" "rs_got r = 0"
    using at part_got[of c "[]"] by (auto simp: rx_at_def rec_of_def fid_def)
  ultimately have g0: "g = 0" by (metis g_def option.simps(5))
  have find: "findByFileId fid s1 = findByFileId fid s" by (simp add: findByFileId_def s1)
  have card: "case findByFileId fid s of None \<Rightarrow> conversations (app (on_fmeta m s)) = conversations (app s)
     | Some _ \<Rightarrow> \<exists>k it. findByFileId fid (on_fmeta m s) = Some (k, it) \<and> ci_xfer it = Some \<lparr>xs_phase = XReceiving, xs_got = 0, xs_total = 0\<rparr>"
  proof (cases "findByFileId fid s")
    case None
    then show ?thesis using find s1 by (simp add: f g0 updateReceiveProgress_def update_card_def)
  next
    case (Some p)
    obtain k it where p: "p = (k, it)" by (cases p)
    have mwf: "mwf (conversations (app s1))" using before s1 by (simp add: rx_before_def card_env_def)
    from update_card_found[OF mwf, of fid k it] Some p find show ?thesis
      by (simp add: f g0 updateReceiveProgress_def) (simp add: with_xfer_def)
  qed
  from r card s1 show ?thesis
    unfolding run Let_def fid_def[symmetric]
    by (simp add: f progress_defs)
qed

theorem empty_file_pending_witness:
  "rx_active (run_events (rx_step Some) (wire_frames 2 [] (sample_meta\<lparr>fm_size := 0\<rparr>) 0) (rx_start ''bob'' 0)) = Some ''f1''"
proof -
  have "rx_before 2 [] (sample_meta\<lparr>fm_size := 0\<rparr>) 0 (rx_start ''bob'' 0)"
    by (rule rx_before_start) simp_all
  from empty_file_pending[OF this, of Some] show ?thesis by (simp add: Let_def)
qed

end
