(* ===== verification/File_Send.thy ===== *)
theory File_Send
  imports File_Session
begin

text \<open>
  The sending half of a peer session in \<open>ui/src/client/webrtc.ts\<close>: \<open>sendFile\<close> with its chunk loop
  \<open>start\<close>, back pressure, cancellation and interruption, the registries \<open>sendState\<close> and
  \<open>sendingByFileId\<close>, and the entry points \<open>sendFileTo\<close>, \<open>resumeFile\<close>, \<open>interruptFile\<close>,
  \<open>cancelFileByFileId\<close>, \<open>canResumeFile\<close>.

  Sessions are objects shared by the registries and the loops, so they live in a store \<open>tx_sess\<close>
  and are named by their address. Each pending \<open>start(i)\<close> is a job; a job is cut where the code
  awaits: \<open>PCheck i\<close> is the beginning of \<open>start(i)\<close> (first call, or its timer), \<open>PSend i\<close> the rest
  after the bytes of the slice are there. \<open>bufferedAmount\<close>, the ready state and whether \<open>send\<close>
  throws come from the platform, as events. What the channel carries is recorded as the events the
  peer receives.
\<close>

definition CHUNK :: nat where "CHUNK = 65536"

record send_state =
  sn_peerId :: string
  sn_isRoom :: bool
  sn_meta :: file_meta
  sn_blob :: "byte list"
  sn_chunk :: nat
  sn_lastGot :: nat
  sn_resumeFrom :: "nat option"

datatype open_action = OToast | OSendFile file_meta "byte list"

record tx_session =
  ts_callId :: string
  ts_peerId :: string
  ts_dc :: "dc_state option"
  ts_buffered :: nat
  ts_canceled :: bool
  ts_silent :: bool
  ts_lastGot :: nat
  ts_resume :: "(string, send_state) jsmap"
  ts_onopen :: open_action
  ts_waiter :: "send_state option"
  ts_frames :: "rx_event list"

datatype phase = PCheck nat | PSend nat

record send_job =
  sj_sess :: nat
  sj_meta :: file_meta
  sj_blob :: "byte list"
  sj_chunk :: nat
  sj_phase :: phase

record tx = ui +
  tx_sess :: "tx_session list"
  tx_sendState :: "(string, send_state) jsmap"
  tx_sending :: "(string, nat) jsmap"
  tx_jobs :: "send_job list"
  tx_hung :: bool

definition sess :: "nat \<Rightarrow> tx \<Rightarrow> tx_session" where
  "sess a s = tx_sess s ! a"

definition upd_sess :: "nat \<Rightarrow> (tx_session \<Rightarrow> tx_session) \<Rightarrow> tx \<Rightarrow> tx" where
  "upd_sess a f s = s\<lparr>tx_sess := (tx_sess s)[a := f (tx_sess s ! a)]\<rparr>"

definition dc_send :: "nat \<Rightarrow> rx_event list \<Rightarrow> tx \<Rightarrow> tx" where
  "dc_send a evs = upd_sess a (\<lambda>t. t\<lparr>ts_frames := ts_frames t @ evs\<rparr>)"

definition add_job :: "send_job \<Rightarrow> tx \<Rightarrow> tx" where
  "add_job j s = s\<lparr>tx_jobs := tx_jobs s @ [j]\<rparr>"

subsection \<open>Back pressure\<close>

text \<open>
  One evaluation of the waiting loop of \<open>start\<close>. \<open>WBlocked\<close>: the promise waits for an event
  (\<open>bufferedamountlow\<close>, \<open>close\<close>, or the 30 ms probe). \<open>WSpin\<close>: the channel is not open, so the promise
  resolves at once and the loop condition, which does not look at the ready state, is evaluated again
  with the same buffer: \<open>bufferedAmount\<close> is not reset when a channel closes.
\<close>

datatype wait = WPass | WBlocked | WSpin

definition wait_state :: "tx_session \<Rightarrow> wait" where
  "wait_state t =
     (if \<not> (\<not> ts_canceled t \<and> ts_buffered t > CHUNK * 16) then WPass
      else if ts_dc t \<noteq> Some DcOpen \<or> ts_canceled t then WSpin
      else WBlocked)"

text \<open>The loop itself, run without an event in between: \<open>Some True\<close> leaves it, \<open>Some False\<close> suspends it.\<close>

partial_function (option) wait_loop :: "tx_session \<Rightarrow> bool option" where
  "wait_loop t =
     (if \<not> (\<not> ts_canceled t \<and> ts_buffered t > CHUNK * 16) then Some True
      else if ts_dc t \<noteq> Some DcOpen \<or> ts_canceled t then wait_loop t
      else Some False)"

subsection \<open>The chunk loop\<close>

definition note_lastGot :: "nat \<Rightarrow> string \<Rightarrow> tx \<Rightarrow> tx" where
  "note_lastGot a fid s =
     (case mget (tx_sendState s) fid of
        None \<Rightarrow> s
      | Some st \<Rightarrow> s\<lparr>tx_sendState := mset_key fid (st\<lparr>sn_lastGot := ts_lastGot (sess a s)\<rparr>) (tx_sendState s)\<rparr>)"

definition tx_fail :: "nat \<Rightarrow> string \<Rightarrow> tx \<Rightarrow> tx" where
  "tx_fail a fid s =
     (let s1 = failReceive fid s in note_lastGot a fid (s1\<lparr>tx_sending := mdel fid (tx_sending s1)\<rparr>))"

definition tx_stop :: "nat \<Rightarrow> string \<Rightarrow> tx \<Rightarrow> tx" where
  "tx_stop a fid s =
     (let s1 = (if ts_silent (sess a s) then failReceive fid s
                else (let s2 = cancelSend fid (dc_send a [RxText (Some (FEnd fid (Some ''canceled'')))] s)
                      in s2\<lparr>tx_sendState := mdel fid (tx_sendState s2)\<rparr>))
      in note_lastGot a fid (s1\<lparr>tx_sending := mdel fid (tx_sending s1)\<rparr>))"

definition ack_json :: "string \<Rightarrow> json" where
  "ack_json fid = JObj [(''fileId'', JStr fid), (''done'', JBool True)]"

definition sending_json :: "string \<Rightarrow> nat \<Rightarrow> json" where
  "sending_json fid n = JObj [(''fileId'', JStr fid), (''state'', JStr ''sending''), (''sent'', JNum (int n))]"

definition tx_done :: "string \<Rightarrow> tx \<Rightarrow> tx" where
  "tx_done fid s =
     (let s1 = finishSend fid (send ''file'' ''transfer_ack'' (Some (ack_json fid)) s)
      in s1\<lparr>tx_sendState := mdel fid (tx_sendState s1), tx_sending := mdel fid (tx_sending s1)\<rparr>)"

text \<open>The beginning of \<open>start(i)\<close>, up to the \<open>await\<close> of the slice.\<close>

definition check :: "send_job \<Rightarrow> nat \<Rightarrow> tx \<Rightarrow> tx" where
  "check j i s =
     (let a = sj_sess j; t = sess a s; fid = fm_fileId (sj_meta j) in
      case wait_state t of
        WSpin \<Rightarrow> s\<lparr>tx_hung := True\<rparr>
      | WBlocked \<Rightarrow> add_job (j\<lparr>sj_phase := PCheck i\<rparr>) s
      | WPass \<Rightarrow>
          if ts_canceled t then tx_stop a fid s
          else if ts_dc t \<noteq> Some DcOpen then tx_fail a fid s
          else if i * sj_chunk j \<ge> fm_size (sj_meta j) then tx_done fid s
          else add_job (j\<lparr>sj_phase := PSend i\<rparr>) s)"

text \<open>\<open>blob.slice(offset, min(offset + chunk, size))\<close>, read to an \<open>ArrayBuffer\<close>.\<close>

definition slice :: "byte list \<Rightarrow> nat \<Rightarrow> nat \<Rightarrow> byte list" where
  "slice b lo hi = take (hi - lo) (drop lo b)"

datatype send_result = SendOk | HeadThrows | SliceThrows

definition transmit :: "send_job \<Rightarrow> nat \<Rightarrow> send_result \<Rightarrow> tx \<Rightarrow> tx" where
  "transmit j i res s =
     (let a = sj_sess j; m = sj_meta j; fid = fm_fileId m; offset = i * sj_chunk j;
          bytes = slice (sj_blob j) offset (min (offset + sj_chunk j) (fm_size m));
          upto = offset + length bytes;
          h = \<lparr>ch_fileId = fid, ch_chunkIndex = i, ch_total = ceil_div (fm_size m) (sj_chunk j),
               ch_offset = offset, ch_len = length bytes\<rparr>;
          r = (if ts_dc (sess a s) = Some DcOpen then res else HeadThrows)
      in case r of
           HeadThrows \<Rightarrow> tx_fail a fid s
         | SliceThrows \<Rightarrow> tx_fail a fid (dc_send a [RxText (Some (FHead h))] s)
         | SendOk \<Rightarrow>
             (let s1 = upd_sess a (\<lambda>t. t\<lparr>ts_lastGot := upto\<rparr>)
                         (dc_send a [RxText (Some (FHead h)), RxBytes bytes] s);
                  s2 = updateSendProgress fid upto (fm_size m) s1;
                  s3 = (if i mod 32 = 0
                        then send ''file'' ''transfer_status'' (Some (sending_json fid upto)) s2 else s2)
              in add_job (j\<lparr>sj_phase := PCheck (Suc i)\<rparr>) s3))"

definition sendFile :: "nat \<Rightarrow> file_meta \<Rightarrow> byte list \<Rightarrow> nat \<Rightarrow> nat \<Rightarrow> tx \<Rightarrow> tx" where
  "sendFile a m blob chunk fromIndex s =
     (if ts_dc (sess a s) \<noteq> Some DcOpen then s
      else check \<lparr>sj_sess = a, sj_meta = m, sj_blob = blob, sj_chunk = chunk, sj_phase = PCheck fromIndex\<rparr>
             fromIndex (dc_send a [RxText (Some (FMeta m))] s))"

definition run_job :: "nat \<Rightarrow> send_result \<Rightarrow> tx \<Rightarrow> tx" where
  "run_job n res s =
     (if n < length (tx_jobs s)
      then (let j = tx_jobs s ! n; s1 = s\<lparr>tx_jobs := take n (tx_jobs s) @ drop (Suc n) (tx_jobs s)\<rparr>
            in case sj_phase j of PCheck i \<Rightarrow> check j i s1 | PSend i \<Rightarrow> transmit j i res s1)
      else s)"

subsection \<open>Cancellation, interruption, hang-up\<close>

definition tx_cancel :: "nat \<Rightarrow> tx \<Rightarrow> tx" where
  "tx_cancel a = upd_sess a (\<lambda>t. t\<lparr>ts_canceled := True\<rparr>)"

definition tx_interrupt :: "nat \<Rightarrow> tx \<Rightarrow> tx" where
  "tx_interrupt a = upd_sess a (\<lambda>t. t\<lparr>ts_canceled := True, ts_silent := True\<rparr>)"

definition hangup_json :: "string \<Rightarrow> string \<Rightarrow> json" where
  "hangup_json callId to = JObj [(''callId'', JStr callId), (''to'', JStr to)]"

text \<open>\<open>hangup\<close>: \<open>pc.close()\<close> closes the data channels of the connection.\<close>

definition tx_hangup :: "nat \<Rightarrow> tx \<Rightarrow> tx" where
  "tx_hangup a s =
     upd_sess a (\<lambda>t. t\<lparr>ts_dc := map_option (\<lambda>_. DcClosed) (ts_dc t)\<rparr>)
       (send ''media'' ''call_hangup'' (Some (hangup_json (ts_callId (sess a s)) (ts_peerId (sess a s)))) s)"

definition canResumeFile :: "string \<Rightarrow> tx \<Rightarrow> bool" where
  "canResumeFile fid s = (case mget (tx_sendState s) fid of None \<Rightarrow> False | Some st \<Rightarrow> \<not> sn_isRoom st)"

definition cancelFileByFileId :: "string \<Rightarrow> tx \<Rightarrow> bool \<times> tx" where
  "cancelFileByFileId fid s =
     (case mget (tx_sending s) fid of None \<Rightarrow> (False, s) | Some a \<Rightarrow> (True, tx_cancel a s))"

text \<open>\<open>interruptFile\<close>; its timer (\<open>ssh.hangup()\<close> after 120 ms) is the event \<open>TxHangup\<close>.\<close>

definition interruptFile :: "string \<Rightarrow> tx \<Rightarrow> bool \<times> tx" where
  "interruptFile fid s =
     (case mget (tx_sending s) fid of
        None \<Rightarrow> (False, s)
      | Some a \<Rightarrow> (True, (tx_interrupt a s)\<lparr>tx_sending := mdel fid (tx_sending s)\<rparr>))"

subsection \<open>Starting and resuming a transfer\<close>

definition open_session :: "string \<Rightarrow> string \<Rightarrow> open_action \<Rightarrow> send_state option \<Rightarrow> tx_session" where
  "open_session callId peer act w =
     \<lparr>ts_callId = callId, ts_peerId = peer, ts_dc = Some DcConnecting, ts_buffered = 0,
      ts_canceled = False, ts_silent = False, ts_lastGot = 0, ts_resume = [], ts_onopen = act,
      ts_waiter = w, ts_frames = []\<rparr>"

text \<open>\<open>sendFileTo\<close> once the digest \<open>sh\<close> is computed; the offer follows as an event of the platform.\<close>

definition sendFileTo ::
    "string \<Rightarrow> js_file \<Rightarrow> byte list \<Rightarrow> msg_type \<Rightarrow> string option \<Rightarrow> string \<Rightarrow> string \<Rightarrow> string option
     \<Rightarrow> int \<Rightarrow> int \<Rightarrow> tx \<Rightarrow> tx" where
  "sendFileTo peerId file blob kind roomId fid callId sh t1 t2 s =
     (let to = (case roomId of None \<Rightarrow> peerId | Some r \<Rightarrow> r);
          s1 = (if roomId = None
                then pushOutgoingFile peerId None file kind fid (case sh of None \<Rightarrow> [] | Some h \<Rightarrow> h) t1 t2 s
                else s);
          m = \<lparr>fm_fileId = fid, fm_to = to, fm_name = jf_name file, fm_size = jf_size file,
               fm_mime = jf_type file, fm_sha256 = sh\<rparr>;
          a = length (tx_sess s1);
          s2 = s1\<lparr>tx_sess := tx_sess s1 @ [open_session callId peerId (OSendFile m blob) None]\<rparr>;
          s3 = send ''file'' ''transfer_begin'' (Some (file_meta_json m)) s2
      in s3\<lparr>tx_sendState := mset_key fid \<lparr>sn_peerId = to, sn_isRoom = (roomId \<noteq> None), sn_meta = m,
               sn_blob = blob, sn_chunk = CHUNK, sn_lastGot = 0, sn_resumeFrom = None\<rparr> (tx_sendState s3),
            tx_sending := mset_key fid a (tx_sending s3)\<rparr>)"

datatype resume_error = SourceGone | RoomFile | OpenTimeout

text \<open>\<open>resumeFile\<close> up to its \<open>await waitDcOpen\<close>; \<open>None\<close>: it is waiting.\<close>

definition resumeFile :: "string \<Rightarrow> string \<Rightarrow> tx \<Rightarrow> resume_error option \<times> tx" where
  "resumeFile fid callId s =
     (case mget (tx_sendState s) fid of
        None \<Rightarrow> (Some SourceGone, s)
      | Some st \<Rightarrow>
          if sn_isRoom st then (Some RoomFile, s)
          else (let a = length (tx_sess s);
                    s1 = s\<lparr>tx_sess := tx_sess s @ [open_session callId (sn_peerId st) OToast (Some st)],
                           tx_sending := mset_key fid a (tx_sending s)\<rparr>
                in (None, resumeSendProgress fid (sn_lastGot st) (fm_size (sn_meta st)) s1)))"

definition resumeAndSend :: "nat \<Rightarrow> send_state \<Rightarrow> tx \<Rightarrow> tx" where
  "resumeAndSend a st s =
     (let fid = fm_fileId (sn_meta st)
      in dc_send a [RxText (Some (FResume fid))]
           (upd_sess a (\<lambda>t. t\<lparr>ts_resume := mset_key fid st (ts_resume t)\<rparr>) s))"

definition from_index :: "nat \<Rightarrow> nat \<Rightarrow> nat \<Rightarrow> nat" where
  "from_index got sz chunk = (if min got sz > 0 then ceil_div (min got sz) chunk else 0)"

text \<open>The promise of the negotiation resolves with \<open>got\<close> bytes: by an acknowledgement, or 0 by its timer.\<close>

definition resume_got :: "nat \<Rightarrow> string \<Rightarrow> nat \<Rightarrow> tx \<Rightarrow> tx" where
  "resume_got a fid got s =
     (case mget (ts_resume (sess a s)) fid of
        None \<Rightarrow> s
      | Some st \<Rightarrow>
          (let k = from_index got (fm_size (sn_meta st)) (sn_chunk st);
               s1 = upd_sess a (\<lambda>t. t\<lparr>ts_resume := mdel fid (ts_resume t)\<rparr>) s;
               s2 = (case mget (tx_sendState s1) fid of
                       None \<Rightarrow> s1
                     | Some st' \<Rightarrow> s1\<lparr>tx_sendState := mset_key fid (st'\<lparr>sn_resumeFrom := Some k\<rparr>) (tx_sendState s1)\<rparr>)
           in sendFile a (sn_meta st) (sn_blob st) (sn_chunk st) k s2))"

text \<open>The channel opens: the handler of a file transfer, or a toast and the waiting \<open>resumeFile\<close>.\<close>

definition on_dc_open :: "nat \<Rightarrow> tx \<Rightarrow> tx" where
  "on_dc_open a s =
     (let w = ts_waiter (sess a s);
          s1 = upd_sess a (\<lambda>t. t\<lparr>ts_dc := Some DcOpen, ts_waiter := None\<rparr>) s
      in case ts_onopen (sess a s) of
           OSendFile m blob \<Rightarrow> sendFile a m blob CHUNK 0 s1
         | OToast \<Rightarrow> (let s2 = toast NChannelUp s1 in case w of None \<Rightarrow> s2 | Some st \<Rightarrow> resumeAndSend a st s2))"

definition on_dc_close :: "nat \<Rightarrow> tx \<Rightarrow> tx" where
  "on_dc_close a = upd_sess a (\<lambda>t. t\<lparr>ts_dc := Some DcClosed, ts_waiter := None\<rparr>)"

datatype tx_event =
    TxJob nat send_result | TxBuffered nat nat | TxCancel string | TxInterrupt string | TxHangup nat
  | TxOpen nat | TxClose nat | TxOpenTimeout nat | TxAck nat string "nat option" | TxAckTimeout nat string
  | TxResume string string

fun tx_step1 :: "tx_event \<Rightarrow> tx \<Rightarrow> tx" where
  "tx_step1 (TxJob n r) s = run_job n r s"
| "tx_step1 (TxBuffered a n) s = upd_sess a (\<lambda>t. t\<lparr>ts_buffered := n\<rparr>) s"
| "tx_step1 (TxCancel fid) s = snd (cancelFileByFileId fid s)"
| "tx_step1 (TxInterrupt fid) s = snd (interruptFile fid s)"
| "tx_step1 (TxHangup a) s = tx_hangup a s"
| "tx_step1 (TxOpen a) s = on_dc_open a s"
| "tx_step1 (TxClose a) s = on_dc_close a s"
| "tx_step1 (TxOpenTimeout a) s = upd_sess a (\<lambda>t. t\<lparr>ts_waiter := None\<rparr>) s"
| "tx_step1 (TxAck a fid got) s = resume_got a fid (case got of None \<Rightarrow> 0 | Some g \<Rightarrow> g) s"
| "tx_step1 (TxAckTimeout a fid) s = resume_got a fid 0 s"
| "tx_step1 (TxResume fid callId) s = snd (resumeFile fid callId s)"

text \<open>A loop that never yields starves every later event of the page.\<close>

definition tx_step :: "tx_event \<Rightarrow> tx \<Rightarrow> tx" where
  "tx_step e s = (if tx_hung s then s else tx_step1 e s)"

subsection \<open>Frame conditions\<close>

lemma tx_patch [simp]:
  fixes s :: tx
  shows
    "tx_sess (patch p s) = tx_sess s"
    "tx_sendState (patch p s) = tx_sendState s"
    "tx_sending (patch p s) = tx_sending s"
    "tx_jobs (patch p s) = tx_jobs s"
    "tx_hung (patch p s) = tx_hung s"
  by (simp_all add: patch_def)

lemma tx_send [simp]:
  fixes s :: tx
  shows
    "tx_sess (send ns m d s) = tx_sess s"
    "tx_sendState (send ns m d s) = tx_sendState s"
    "tx_sending (send ns m d s) = tx_sending s"
    "tx_jobs (send ns m d s) = tx_jobs s"
    "tx_hung (send ns m d s) = tx_hung s"
  by (simp_all add: send_def req_def)

lemma tx_patchItem [simp]:
  fixes s :: tx
  shows
    "tx_sess (patchItem k it f s) = tx_sess s"
    "tx_sendState (patchItem k it f s) = tx_sendState s"
    "tx_sending (patchItem k it f s) = tx_sending s"
    "tx_jobs (patchItem k it f s) = tx_jobs s"
    "tx_hung (patchItem k it f s) = tx_hung s"
  by (simp_all add: patchItem_def Let_def split: option.split)

lemma tx_update_card [simp]:
  fixes s :: tx
  shows
    "tx_sess (update_card fid x s) = tx_sess s"
    "tx_sendState (update_card fid x s) = tx_sendState s"
    "tx_sending (update_card fid x s) = tx_sending s"
    "tx_jobs (update_card fid x s) = tx_jobs s"
    "tx_hung (update_card fid x s) = tx_hung s"
  by (simp_all add: update_card_def split: option.split)

lemma tx_stop_card [simp]:
  fixes s :: tx
  shows
    "tx_sess (stop_card ph fid s) = tx_sess s"
    "tx_sendState (stop_card ph fid s) = tx_sendState s"
    "tx_sending (stop_card ph fid s) = tx_sending s"
    "tx_jobs (stop_card ph fid s) = tx_jobs s"
    "tx_hung (stop_card ph fid s) = tx_hung s"
  by (simp_all add: stop_card_def split: option.split)

lemma tx_finishSend [simp]:
  fixes s :: tx
  shows
    "tx_sess (finishSend fid s) = tx_sess s"
    "tx_sendState (finishSend fid s) = tx_sendState s"
    "tx_sending (finishSend fid s) = tx_sending s"
    "tx_jobs (finishSend fid s) = tx_jobs s"
    "tx_hung (finishSend fid s) = tx_hung s"
  by (simp_all add: finishSend_def split: option.split)

lemmas tx_defs = sess_def upd_sess_def dc_send_def add_job_def note_lastGot_def Let_def
  updateSendProgress_def failReceive_def cancelSend_def

lemma upd_sess_simps [simp]:
  "tx_sendState (upd_sess a f s) = tx_sendState s" "tx_sending (upd_sess a f s) = tx_sending s"
  "tx_jobs (upd_sess a f s) = tx_jobs s" "tx_hung (upd_sess a f s) = tx_hung s"
  "length (tx_sess (upd_sess a f s)) = length (tx_sess s)" "ui_store (upd_sess a f s) = ui_store s"
  "a < length (tx_sess s) \<Longrightarrow> sess a (upd_sess a f s) = f (sess a s)"
  by (simp_all add: upd_sess_def sess_def)

lemma add_job_simps [simp]:
  "tx_sendState (add_job j s) = tx_sendState s" "tx_sending (add_job j s) = tx_sending s"
  "tx_jobs (add_job j s) = tx_jobs s @ [j]" "tx_hung (add_job j s) = tx_hung s"
  "tx_sess (add_job j s) = tx_sess s" "ui_store (add_job j s) = ui_store s" "sess a (add_job j s) = sess a s"
  by (simp_all add: add_job_def sess_def)

lemma sess_frame [simp]:
  "sess a (send ns m d s) = sess a s" "sess a (update_card fid x s) = sess a s"
  "sess a (stop_card ph fid s) = sess a s" "sess a (finishSend fid s) = sess a s"
  "sess a (s\<lparr>tx_jobs := js\<rparr>) = sess a s"
  by (simp_all add: sess_def)

subsection \<open>The loop sends exactly the frames of the file\<close>

text \<open>\<open>sending_at a c f m i s\<close>: the only job is the loop of session \<open>a\<close>, about to transmit chunk \<open>i\<close>,
  and nothing stands in its way.\<close>

definition clear_to_send :: "tx_session \<Rightarrow> bool" where
  "clear_to_send t \<longleftrightarrow> ts_dc t = Some DcOpen \<and> \<not> ts_canceled t \<and> ts_buffered t \<le> CHUNK * 16"

definition job_of :: "nat \<Rightarrow> nat \<Rightarrow> byte list \<Rightarrow> file_meta \<Rightarrow> phase \<Rightarrow> send_job" where
  "job_of a c f m p = \<lparr>sj_sess = a, sj_meta = m, sj_blob = f, sj_chunk = c, sj_phase = p\<rparr>"

definition sending_at :: "nat \<Rightarrow> nat \<Rightarrow> byte list \<Rightarrow> file_meta \<Rightarrow> nat \<Rightarrow> tx \<Rightarrow> bool" where
  "sending_at a c f m i s \<longleftrightarrow> a < length (tx_sess s) \<and> clear_to_send (sess a s) \<and> \<not> tx_hung s
     \<and> fm_size m = length f \<and> tx_jobs s = [job_of a c f m (PSend i)]"

lemma slice_chunk: "slice f (i * c) (min (i * c + c) (length f)) = chunk_at c f i"
  by (simp add: slice_def chunk_at_def)

lemma wait_clear: "clear_to_send t \<Longrightarrow> wait_state t = WPass"
  by (simp add: clear_to_send_def wait_state_def)

lemma check_clear:
  assumes "clear_to_send (sess a s)" "fm_size m = length f" "0 < c"
  shows "check (job_of a c f m p) i s =
    (if i < ceil_div (length f) c then add_job (job_of a c f m (PSend i)) s else tx_done (fm_fileId m) s)"
  using assms by (simp add: check_def Let_def wait_clear job_of_def clear_to_send_def ceil_div_least not_le)

definition after_chunk :: "nat \<Rightarrow> nat \<Rightarrow> byte list \<Rightarrow> file_meta \<Rightarrow> nat \<Rightarrow> tx \<Rightarrow> tx" where
  "after_chunk a c f m i s =
     (let fid = fm_fileId m; upto = i * c + length (chunk_at c f i);
          s2 = updateSendProgress fid upto (length f)
            (upd_sess a (\<lambda>t. t\<lparr>ts_lastGot := upto\<rparr>) (dc_send a (chunk_frames c f m i) s))
      in if i mod 32 = 0 then send ''file'' ''transfer_status'' (Some (sending_json fid upto)) s2 else s2)"

lemma transmit_clear:
  assumes "clear_to_send (sess a s)" "fm_size m = length f"
  shows "transmit (job_of a c f m p) i SendOk s = add_job (job_of a c f m (PCheck (Suc i))) (after_chunk a c f m i s)"
  using assms
  by (simp add: transmit_def Let_def job_of_def clear_to_send_def after_chunk_def slice_chunk chunk_frames_def head_of_def)

lemma after_chunk_simps [simp]:
  "tx_sendState (after_chunk a c f m i s) = tx_sendState s" "tx_sending (after_chunk a c f m i s) = tx_sending s"
  "tx_jobs (after_chunk a c f m i s) = tx_jobs s" "tx_hung (after_chunk a c f m i s) = tx_hung s"
  "length (tx_sess (after_chunk a c f m i s)) = length (tx_sess s)"
  by (simp_all add: after_chunk_def Let_def updateSendProgress_def dc_send_def)

lemma sess_after_chunk [simp]:
  "a < length (tx_sess s) \<Longrightarrow> sess a (after_chunk a c f m i s) =
     (sess a s)\<lparr>ts_frames := ts_frames (sess a s) @ chunk_frames c f m i, ts_lastGot := i * c + length (chunk_at c f i)\<rparr>"
  by (simp add: after_chunk_def Let_def updateSendProgress_def dc_send_def)

text \<open>One turn of the loop: transmit the chunk, then the check of the next index.\<close>

lemma round:
  assumes at: "sending_at a c f m i s" and c: "0 < c"
  shows "let s1 = after_chunk a c f m i (s\<lparr>tx_jobs := []\<rparr>) in
     run_events tx_step [TxJob 0 SendOk, TxJob 0 SendOk] s =
       (if Suc i < ceil_div (length f) c then add_job (job_of a c f m (PSend (Suc i))) s1
        else tx_done (fm_fileId m) s1)"
proof -
  have a: "a < length (tx_sess s)" "clear_to_send (sess a s)" "\<not> tx_hung s" "fm_size m = length f"
    "tx_jobs s = [job_of a c f m (PSend i)]"
    using at by (simp_all add: sending_at_def)
  have phase: "sj_phase (job_of a c f m p) = p" for p by (simp add: job_of_def)
  define s0 where "s0 = s\<lparr>tx_jobs := []\<rparr>"
  have clear0: "clear_to_send (sess a s0)" using a by (simp add: s0_def)
  have one: "run_job 0 SendOk s = add_job (job_of a c f m (PCheck (Suc i))) (after_chunk a c f m i s0)"
    using a transmit_clear[OF clear0 a(4)] by (simp add: run_job_def Let_def phase s0_def)
  have clear1: "clear_to_send (sess a ((after_chunk a c f m i s0)\<lparr>tx_jobs := []\<rparr>))"
    using a(1,2) by (simp add: s0_def clear_to_send_def)
  have two: "run_job 0 SendOk (add_job (job_of a c f m (PCheck (Suc i))) (after_chunk a c f m i s0))
      = check (job_of a c f m (PCheck (Suc i))) (Suc i) ((after_chunk a c f m i s0)\<lparr>tx_jobs := []\<rparr>)"
    by (simp add: run_job_def Let_def phase s0_def add_job_def)
  have hung: "\<not> tx_hung s0" using a(3) by (simp add: s0_def)
  have same: "(after_chunk a c f m i s0)\<lparr>tx_jobs := []\<rparr> = after_chunk a c f m i s0"
    by (simp add: s0_def)
  show ?thesis
    unfolding s0_def[symmetric] Let_def
    using a(3) one two check_clear[OF clear1[unfolded same] a(4) c] hung
    by (simp add: tx_step_def same)
qed

lemma with_xfer_twice [simp]: "with_xfer y (with_xfer x it) = with_xfer y it" "item_size (with_xfer x it) = item_size it"
  by (simp_all add: with_xfer_def item_size_def)

lemma finishSend_update:
  "findByFileId fid s = Some (k, it) \<Longrightarrow> finishSend fid s = update_card fid (done_state (item_size it)) s"
  by (simp add: finishSend_def update_card_def done_state_def)

lemma find_frame [simp]:
  "findByFileId fid (send ns m d s) = findByFileId fid s" "findByFileId fid (upd_sess a f t) = findByFileId fid t"
  "findByFileId fid (add_job j t) = findByFileId fid t" "findByFileId fid (dc_send a evs t) = findByFileId fid t"
  by (simp_all add: findByFileId_def dc_send_def)

text \<open>\<open>own_card fid it s\<close>: the table is a map and \<open>it\<close> is the card of the file.\<close>

definition own_card :: "string \<Rightarrow> chat_item \<Rightarrow> tx \<Rightarrow> bool" where
  "own_card fid it s \<longleftrightarrow> mwf (conversations (app s)) \<and> (\<exists>k. findByFileId fid s = Some (k, it))"

lemma own_card_update: "own_card fid it s \<Longrightarrow> own_card fid (with_xfer x it) (update_card fid x s)"
  by (auto simp: own_card_def update_card_mwf dest: update_card_found)

lemma own_card_frame:
  "ui_store s' = ui_store s \<Longrightarrow> own_card fid it s' = own_card fid it s"
  by (simp add: own_card_def findByFileId_def)

lemma ui_store_dc_send [simp]: "ui_store (dc_send a evs s) = ui_store s"
  by (simp add: dc_send_def)

lemma own_card_after:
  assumes "own_card (fm_fileId m) it s"
  shows "\<exists>x. own_card (fm_fileId m) (with_xfer x it) (after_chunk a c f m i s)"
proof -
  let ?t = "upd_sess a (\<lambda>t. t\<lparr>ts_lastGot := i * c + length (chunk_at c f i)\<rparr>) (dc_send a (chunk_frames c f m i) s)"
  have "own_card (fm_fileId m) it ?t" using assms by (simp add: own_card_frame[of ?t s])
  note own_card_update[OF this]
  then show ?thesis
    by (auto simp: after_chunk_def Let_def updateSendProgress_def own_card_frame[OF send_simps(1)])
qed

lemma own_card_done: "own_card fid it s \<Longrightarrow> own_card fid (with_xfer (done_state (item_size it)) it) (tx_done fid s)"
proof -
  assume o: "own_card fid it s"
  let ?s1 = "send ''file'' ''transfer_ack'' (Some (ack_json fid)) s"
  have o1: "own_card fid it ?s1" using o by (simp add: own_card_frame[of ?s1 s])
  then have "finishSend fid ?s1 = update_card fid (done_state (item_size it)) ?s1"
    by (auto simp: own_card_def finishSend_update)
  with own_card_update[OF o1, of "done_state (item_size it)"] show ?thesis
    by (simp add: tx_done_def Let_def own_card_def findByFileId_def)
qed

lemma tx_done_simps [simp]:
  "tx_sendState (tx_done fid s) = mdel fid (tx_sendState s)" "tx_sending (tx_done fid s) = mdel fid (tx_sending s)"
  "tx_jobs (tx_done fid s) = tx_jobs s" "tx_hung (tx_done fid s) = tx_hung s" "sess a (tx_done fid s) = sess a s"
  "tx_sess (tx_done fid s) = tx_sess s"
  by (simp_all add: tx_done_def Let_def sess_def)

definition drive :: "nat \<Rightarrow> tx_event list" where
  "drive n = concat (replicate n [TxJob 0 SendOk, TxJob 0 SendOk])"

lemma drive_simps [simp]: "drive 0 = []" "drive (Suc n) = [TxJob 0 SendOk, TxJob 0 SendOk] @ drive n"
  by (simp_all add: drive_def)

lemma loop_runs:
  assumes c: "0 < c"
  shows "sending_at a c f m i s \<Longrightarrow> own_card (fm_fileId m) it s \<Longrightarrow> i + Suc d = ceil_div (length f) c \<Longrightarrow>
    (let s' = run_events tx_step (drive (Suc d)) s; fid = fm_fileId m
     in ts_frames (sess a s') = ts_frames (sess a s) @ concat (map (chunk_frames c f m) [i..<ceil_div (length f) c])
      \<and> tx_jobs s' = [] \<and> tx_sendState s' = mdel fid (tx_sendState s) \<and> tx_sending s' = mdel fid (tx_sending s)
      \<and> own_card fid (with_xfer (done_state (item_size it)) it) s')"
proof (induction d arbitrary: i s it)
  case 0
  let ?s1 = "after_chunk a c f m i (s\<lparr>tx_jobs := []\<rparr>)"
  have run: "run_events tx_step (drive (Suc 0)) s = tx_done (fm_fileId m) ?s1"
    using round[OF 0(1) c] 0(3) by (simp add: Let_def)
  have len: "a < length (tx_sess s)" using 0(1) by (simp add: sending_at_def)
  have "own_card (fm_fileId m) it (s\<lparr>tx_jobs := []\<rparr>)" using 0(2) by (simp add: own_card_frame[of "s\<lparr>tx_jobs := []\<rparr>" s])
  from own_card_after[OF this] obtain x where "own_card (fm_fileId m) (with_xfer x it) ?s1" by blast
  from own_card_done[OF this] len 0(3) show ?case
    unfolding run Let_def by (simp add: upt_conv_Cons flip: 0(3))
next
  case (Suc d)
  let ?s1 = "after_chunk a c f m i (s\<lparr>tx_jobs := []\<rparr>)"
  let ?s2 = "add_job (job_of a c f m (PSend (Suc i))) ?s1"
  have run: "run_events tx_step (drive (Suc (Suc d))) s = run_events tx_step (drive (Suc d)) ?s2"
    using round[OF Suc(2) c] Suc(4) by (simp only: drive_simps(2)[of "Suc d"] run_events_append) (simp add: Let_def)
  have at: "a < length (tx_sess s)" "clear_to_send (sess a s)" "\<not> tx_hung s" "fm_size m = length f"
    using Suc(2) by (simp_all add: sending_at_def)
  have at2: "sending_at a c f m (Suc i) ?s2"
    using at by (simp add: sending_at_def clear_to_send_def)
  have "own_card (fm_fileId m) it (s\<lparr>tx_jobs := []\<rparr>)" using Suc(3) by (simp add: own_card_frame[of "s\<lparr>tx_jobs := []\<rparr>" s])
  from own_card_after[OF this] obtain x where "own_card (fm_fileId m) (with_xfer x it) ?s1" by blast
  then have "own_card (fm_fileId m) (with_xfer x it) ?s2" by (simp add: own_card_frame[of ?s2 ?s1])
  note IH = Suc(1)[OF at2 this]
  have up: "[i..<ceil_div (length f) c] = i # [Suc i..<ceil_div (length f) c]"
    using Suc(4) by (simp add: upt_conv_Cons)
  show ?case
    unfolding run using IH Suc(4) at up by (simp add: Let_def)
qed

lemma send_all:
  assumes c: "0 < c" and a: "a < length (tx_sess s)" "clear_to_send (sess a s)" "\<not> tx_hung s" "tx_jobs s = []"
    and sz: "fm_size m = length f" and k: "k < ceil_div (length f) c" and card: "own_card (fm_fileId m) it s"
  shows "let s' = run_events tx_step (drive (ceil_div (length f) c - k)) (sendFile a m f c k s); fid = fm_fileId m
     in ts_frames (sess a s') = ts_frames (sess a s) @ wire_frames c f m k
      \<and> tx_jobs s' = [] \<and> mget (tx_sendState s') fid = None \<and> mget (tx_sending s') fid = None
      \<and> \<not> canResumeFile fid s'
      \<and> own_card fid (with_xfer (done_state (item_size it)) it) s'"
proof -
  let ?s1 = "dc_send a [RxText (Some (FMeta m))] s"
  let ?s2 = "add_job (job_of a c f m (PSend k)) ?s1"
  have clear: "clear_to_send (sess a ?s1)" using a by (simp add: dc_send_def clear_to_send_def)
  have start: "sendFile a m f c k s = ?s2"
    using a check_clear[OF clear sz c, of "PCheck k" k] k
    by (simp add: sendFile_def job_of_def clear_to_send_def)
  have at: "sending_at a c f m k ?s2"
    using a clear sz by (simp add: sending_at_def) (simp add: dc_send_def)
  have card2: "own_card (fm_fileId m) it ?s2" using card by (simp add: own_card_frame[of ?s2 s])
  obtain d where d: "ceil_div (length f) c - k = Suc d" using k by (cases "ceil_div (length f) c - k") auto
  then have n: "k + Suc d = ceil_div (length f) c" using k by simp
  show ?thesis
    unfolding start d using loop_runs[OF c at card2 n] a
    by (simp add: Let_def wire_frames_def canResumeFile_def) (simp add: dc_send_def)
qed

text \<open>C14: on a clear channel, sending a file from chunk \<open>k\<close> puts exactly its metadata and its chunks
  \<open>k, k+1, ...\<close> on the wire, each header right before its bytes, in order and once; after the last chunk
  the loop has ended, the source and the session are released, and the card of the file is done.\<close>

theorem send_file_frames:
  assumes c: "0 < c" and a: "a < length (tx_sess s)" "clear_to_send (sess a s)" "\<not> tx_hung s" "tx_jobs s = []"
    and sz: "fm_size m = length f" and k: "k < ceil_div (length f) c" and card: "own_card (fm_fileId m) it s"
  shows "let s' = run_events tx_step (drive (ceil_div (length f) c - k)) (sendFile a m f c k s); fid = fm_fileId m
     in ts_frames (sess a s') = ts_frames (sess a s) @ wire_frames c f m k
      \<and> tx_jobs s' = [] \<and> mget (tx_sendState s') fid = None \<and> mget (tx_sending s') fid = None
      \<and> \<not> canResumeFile fid s'
      \<and> own_card fid (with_xfer (done_state (item_size it)) it) s'"
  using assms by (rule send_all)

text \<open>A state right after a channel opened on a fresh page, with the card of the file on display.\<close>

definition tx_start :: "tx_session \<Rightarrow> tx" where
  "tx_start t = ui.extend ui_init \<lparr>tx_sess = [t], tx_sendState = [], tx_sending = [], tx_jobs = [], tx_hung = False\<rparr>"

definition open_sess :: tx_session where
  "open_sess = (open_session ''c1'' ''bob'' OToast None)\<lparr>ts_dc := Some DcOpen\<rparr>"

definition sample_card :: chat_item where
  "sample_card = mk_item ((sample_msg ''file-f1'' 0)\<lparr>cm_mediaRef := Some \<lparr>mr_name = ''a.bin'', mr_size = 3, mr_mime = [], mr_chunk = None,
     mr_sha256 = None, mr_fileId = Some ''f1'', mr_url = None, mr_thumbUrl = None, mr_sha256Ok = None\<rparr>\<rparr>) 0 None None"

definition tx_sample :: tx where
  "tx_sample = patch (set_conv ''bob'' [sample_card]) (tx_start open_sess)"

lemma tx_sample_simps [simp]:
  "length (tx_sess tx_sample) = 1" "sess 0 tx_sample = open_sess" "tx_jobs tx_sample = []" "\<not> tx_hung tx_sample"
  "tx_sendState tx_sample = []" "tx_sending tx_sample = []"
  by (simp_all add: tx_sample_def sess_def) (simp_all add: tx_start_def ui_init_def ui.defs)

lemma open_sess_clear: "clear_to_send open_sess" "ts_frames open_sess = []"
  by (simp_all add: open_sess_def open_session_def clear_to_send_def)

lemma sample_own_card: "own_card ''f1'' sample_card tx_sample"
proof -
  have "conversations (app tx_sample) = [(''bob'', [sample_card])]"
    by (simp add: tx_sample_def tx_start_def ui_init_def ui.defs new_store_def set_conv_def mset_key_def)
  moreover have "item_fileId sample_card = Some ''f1''"
    by (simp add: sample_card_def item_fileId_def)
  ultimately show ?thesis by (simp add: own_card_def findByFileId_def mwf_def)
qed

theorem send_file_frames_witness:
  "ts_frames (sess 0 (run_events tx_step (drive 2) (sendFile 0 sample_meta [1, 2, 3] 2 0 tx_sample)))
   = wire_frames 2 [1, 2, 3] sample_meta 0"
proof -
  have n: "ceil_div (Suc (Suc (Suc 0))) 2 = 2" by (simp add: ceil_div_def)
  show ?thesis
    using send_file_frames[of 2 0 tx_sample sample_meta "[1, 2, 3]" 0 sample_card] sample_own_card open_sess_clear
    by (simp add: Let_def n del: drive_simps)
qed

lemma stop_card_found:
  "own_card fid it s \<Longrightarrow> own_card fid (with_xfer \<lparr>xs_phase = ph, xs_got = item_got it, xs_total = item_size it\<rparr> it) (stop_card ph fid s)"
proof -
  assume o: "own_card fid it s"
  then have "stop_card ph fid s = update_card fid \<lparr>xs_phase = ph, xs_got = item_got it, xs_total = item_size it\<rparr> s"
    by (auto simp: own_card_def stop_card_def update_card_def)
  with own_card_update[OF o] show ?thesis by simp
qed

lemma stop_turn:
  assumes at: "a < length (tx_sess s)" "ts_dc (sess a s) = Some DcOpen" "ts_canceled (sess a s)" "\<not> tx_hung s"
    "fm_size m = length f" "tx_jobs s = [job_of a c f m (PSend i)]"
  shows "run_events tx_step [TxJob 0 SendOk, TxJob 0 SendOk] s
     = tx_stop a (fm_fileId m) (after_chunk a c f m i (s\<lparr>tx_jobs := []\<rparr>))"
proof -
  define s0 where "s0 = s\<lparr>tx_jobs := []\<rparr>"
  have phase: "sj_phase (job_of a c f m p) = p" for p by (simp add: job_of_def)
  have one: "run_job 0 SendOk s = add_job (job_of a c f m (PCheck (Suc i))) (after_chunk a c f m i s0)"
    using at by (simp add: run_job_def Let_def phase s0_def transmit_def job_of_def after_chunk_def slice_chunk
        chunk_frames_def head_of_def)
  have hung: "\<not> tx_hung s0" using at by (simp add: s0_def)
  have same: "(after_chunk a c f m i s0)\<lparr>tx_jobs := []\<rparr> = after_chunk a c f m i s0"
    by (simp add: s0_def)
  have two: "run_job 0 SendOk (add_job (job_of a c f m (PCheck (Suc i))) (after_chunk a c f m i s0))
      = check (job_of a c f m (PCheck (Suc i))) (Suc i) ((after_chunk a c f m i s0)\<lparr>tx_jobs := []\<rparr>)"
    by (simp add: run_job_def Let_def phase s0_def add_job_def)
  have "check (job_of a c f m (PCheck (Suc i))) (Suc i) (after_chunk a c f m i s0)
      = tx_stop a (fm_fileId m) (after_chunk a c f m i s0)"
    using at by (simp add: check_def Let_def wait_state_def job_of_def s0_def)
  then show ?thesis
    unfolding s0_def[symmetric] using at(4) one two hung by (simp add: tx_step_def same)
qed

text \<open>Stopping a transfer between two chunks: the chunk already read is still sent, and then nothing
  more of the file. A cancellation tells the peer to discard what it has, drops the source, so that the
  file cannot be resumed, and marks the card cancelled; an interruption sends nothing, keeps the source
  with the number of bytes sent, so that a direct transfer can be resumed, and marks the card failed.\<close>

theorem stop_between_chunks:
  assumes at: "sending_at a c f m i s" and loop: "mget (tx_sending s) (fm_fileId m) = Some a"
    and src: "mget (tx_sendState s) (fm_fileId m) = Some st" and card: "own_card (fm_fileId m) it s"
    and loud: "\<not> ts_silent (sess a s)"
  shows "let fid = fm_fileId m; turn = [TxJob 0 SendOk, TxJob 0 SendOk];
             sc = run_events tx_step (TxCancel fid # turn) s; si = run_events tx_step (TxInterrupt fid # turn) s;
             wire = ts_frames (sess a s) @ chunk_frames c f m i
         in ts_frames (sess a sc) = wire @ [RxText (Some (FEnd fid (Some ''canceled'')))]
          \<and> ts_frames (sess a si) = wire
          \<and> tx_jobs sc = [] \<and> tx_jobs si = []
          \<and> \<not> canResumeFile fid sc \<and> canResumeFile fid si = (\<not> sn_isRoom st)
          \<and> mget (tx_sendState si) fid = Some (st\<lparr>sn_lastGot := i * c + length (chunk_at c f i)\<rparr>)
          \<and> mget (tx_sending sc) fid = None \<and> mget (tx_sending si) fid = None
          \<and> (\<exists>x. own_card fid (with_xfer \<lparr>xs_phase = XCanceled, xs_got = x, xs_total = item_size it\<rparr> it) sc)
          \<and> (\<exists>x. own_card fid (with_xfer \<lparr>xs_phase = XFailed, xs_got = x, xs_total = item_size it\<rparr> it) si)"
proof -
  define fid where "fid = fm_fileId m"
  have a: "a < length (tx_sess s)" "ts_dc (sess a s) = Some DcOpen" "\<not> tx_hung s" "fm_size m = length f"
    "tx_jobs s = [job_of a c f m (PSend i)]"
    using at by (simp_all add: sending_at_def clear_to_send_def)
  define s1 where "s1 = snd (cancelFileByFileId fid s)"
  define s2 where "s2 = snd (interruptFile fid s)"
  have s1: "s1 = tx_cancel a s" using loop by (simp add: s1_def cancelFileByFileId_def fid_def)
  have s2: "s2 = (tx_interrupt a s)\<lparr>tx_sending := mdel fid (tx_sending s)\<rparr>"
    using loop by (simp add: s2_def interruptFile_def fid_def)
  have s2_sess: "sess a s2 = (sess a s)\<lparr>ts_canceled := True, ts_silent := True\<rparr>"
    using a by (simp add: s2 tx_interrupt_def upd_sess_def sess_def)
  have first: "tx_step (TxCancel fid) s = s1" "tx_step (TxInterrupt fid) s = s2"
    using a by (simp_all add: tx_step_def s1_def s2_def)
  have run1: "run_events tx_step [TxJob 0 SendOk, TxJob 0 SendOk] s1 = tx_stop a fid (after_chunk a c f m i (s1\<lparr>tx_jobs := []\<rparr>))"
    unfolding fid_def by (rule stop_turn) (use a in \<open>simp_all add: s1 tx_cancel_def\<close>)
  have run2: "run_events tx_step [TxJob 0 SendOk, TxJob 0 SendOk] s2 = tx_stop a fid (after_chunk a c f m i (s2\<lparr>tx_jobs := []\<rparr>))"
    unfolding fid_def by (rule stop_turn) (use a s2_sess in \<open>simp_all add: s2 tx_interrupt_def\<close>)
  have cards: "own_card fid it (s1\<lparr>tx_jobs := []\<rparr>)" "own_card fid it (s2\<lparr>tx_jobs := []\<rparr>)"
    using card by (simp_all add: s1 s2 tx_cancel_def tx_interrupt_def fid_def own_card_def findByFileId_def)
  define u1 where "u1 = after_chunk a c f m i (s1\<lparr>tx_jobs := []\<rparr>)"
  define u2 where "u2 = after_chunk a c f m i (s2\<lparr>tx_jobs := []\<rparr>)"
  obtain x1 x2 where x: "own_card fid (with_xfer x1 it) u1" "own_card fid (with_xfer x2 it) u2"
    using own_card_after cards by (metis fid_def u1_def u2_def)
  have u1: "sess a u1 = (sess a s)\<lparr>ts_canceled := True, ts_frames := ts_frames (sess a s) @ chunk_frames c f m i,
       ts_lastGot := i * c + length (chunk_at c f i)\<rparr>" "tx_sendState u1 = tx_sendState s" "tx_sending u1 = tx_sending s"
      "tx_jobs u1 = []" "length (tx_sess u1) = length (tx_sess s)"
    using a by (simp_all add: u1_def s1 tx_cancel_def)
  have u2: "sess a u2 = (sess a s)\<lparr>ts_canceled := True, ts_silent := True, ts_frames := ts_frames (sess a s) @ chunk_frames c f m i,
       ts_lastGot := i * c + length (chunk_at c f i)\<rparr>" "tx_sendState u2 = tx_sendState s"
      "tx_sending u2 = mdel fid (tx_sending s)" "tx_jobs u2 = []" "length (tx_sess u2) = length (tx_sess s)"
    using a s2_sess by (simp_all add: u2_def s2 tx_interrupt_def)
  let ?d = "dc_send a [RxText (Some (FEnd fid (Some ''canceled'')))] u1"
  have card1: "own_card fid (with_xfer x1 it) ?d" using x by (simp add: own_card_frame[of ?d u1])
  define sc where "sc = run_events tx_step (TxCancel fid # [TxJob 0 SendOk, TxJob 0 SendOk]) s"
  define si where "si = run_events tx_step (TxInterrupt fid # [TxJob 0 SendOk, TxJob 0 SendOk]) s"
  have sc: "sc = (stop_card XCanceled fid ?d)\<lparr>tx_sendState := mdel fid (tx_sendState s), tx_sending := mdel fid (tx_sending s)\<rparr>"
    unfolding sc_def run_events.simps(2)[of _ _ "[_, _]"] first run1 u1_def[symmetric]
    using u1 loud by (simp add: tx_stop_def Let_def cancelSend_def note_lastGot_def) (simp add: dc_send_def)
  have si: "si = (stop_card XFailed fid u2)\<lparr>tx_sending := mdel fid (mdel fid (tx_sending s)),
      tx_sendState := mset_key fid (st\<lparr>sn_lastGot := i * c + length (chunk_at c f i)\<rparr>) (tx_sendState s)\<rparr>"
    unfolding si_def run_events.simps(2)[of _ _ "[_, _]"] first run2 u2_def[symmetric]
    using u2 src by (simp add: tx_stop_def Let_def failReceive_def note_lastGot_def fid_def[symmetric]) (simp add: sess_def)
  have c1: "own_card fid (with_xfer \<lparr>xs_phase = XCanceled, xs_got = item_got (with_xfer x1 it), xs_total = item_size it\<rparr> it) sc"
    using stop_card_found[OF card1, of XCanceled] by (simp add: sc own_card_def findByFileId_def)
  have c2: "own_card fid (with_xfer \<lparr>xs_phase = XFailed, xs_got = item_got (with_xfer x2 it), xs_total = item_size it\<rparr> it) si"
    using stop_card_found[OF x(2), of XFailed] by (simp add: si own_card_def findByFileId_def)
  have f1: "ts_frames (sess a sc) = ts_frames (sess a s) @ chunk_frames c f m i @ [RxText (Some (FEnd fid (Some ''canceled'')))]"
    and f2: "ts_frames (sess a si) = ts_frames (sess a s) @ chunk_frames c f m i"
    using u1 u2 a by (simp_all add: sc si sess_def[of a "_\<lparr>tx_sending := _\<rparr>"]) (simp_all add: sess_def dc_send_def upd_sess_def)
  show ?thesis
    unfolding Let_def fid_def[symmetric] sc_def[symmetric] si_def[symmetric]
    using f1 f2 c1 c2 u1 u2
    by (auto simp: sc si canResumeFile_def dc_send_def)
qed

definition sample_src :: send_state where
  "sample_src = \<lparr>sn_peerId = ''bob'', sn_isRoom = False, sn_meta = sample_meta, sn_blob = [1, 2, 3], sn_chunk = 2,
     sn_lastGot = 0, sn_resumeFrom = None\<rparr>"

definition tx_running :: tx where
  "tx_running = tx_sample\<lparr>tx_sendState := [(''f1'', sample_src)], tx_sending := [(''f1'', 0)],
     tx_jobs := [job_of 0 2 [1, 2, 3] sample_meta (PSend 0)]\<rparr>"

lemma tx_running_at: "sending_at 0 2 [1, 2, 3] sample_meta 0 tx_running" "ts_frames (sess 0 tx_running) = []"
  "\<not> ts_silent (sess 0 tx_running)" "own_card ''f1'' sample_card tx_running"
proof -
  have "sess 0 tx_running = open_sess" "length (tx_sess tx_running) = 1" "\<not> tx_hung tx_running"
    using tx_sample_simps by (simp_all add: tx_running_def sess_def)
  then show "sending_at 0 2 [1, 2, 3] sample_meta 0 tx_running" "ts_frames (sess 0 tx_running) = []"
    "\<not> ts_silent (sess 0 tx_running)"
    using open_sess_clear by (simp_all add: sending_at_def tx_running_def open_sess_def open_session_def)
  show "own_card ''f1'' sample_card tx_running"
    using sample_own_card by (simp add: tx_running_def own_card_def findByFileId_def)
qed

theorem stop_between_chunks_witness:
  "canResumeFile ''f1'' (run_events tx_step [TxInterrupt ''f1'', TxJob 0 SendOk, TxJob 0 SendOk] tx_running)
   \<and> \<not> canResumeFile ''f1'' (run_events tx_step [TxCancel ''f1'', TxJob 0 SendOk, TxJob 0 SendOk] tx_running)"
proof -
  have "mget (tx_sending tx_running) ''f1'' = Some 0" "mget (tx_sendState tx_running) ''f1'' = Some sample_src"
    "\<not> sn_isRoom sample_src"
    by (simp_all add: tx_running_def mget_def sample_src_def)
  then show ?thesis
    using stop_between_chunks[OF tx_running_at(1), of sample_src sample_card] tx_running_at
    unfolding Let_def by (simp del: run_events.simps)
qed

subsection \<open>Back pressure\<close>

lemma wait_loop_closed:
  "wait_loop t = Some b \<Longrightarrow> ts_canceled t \<or> ts_buffered t \<le> CHUNK * 16 \<or> ts_dc t = Some DcOpen"
proof (erule wait_loop.raw_induct[rotated])
  fix wl :: "tx_session \<Rightarrow> bool option" and t b
  assume IH: "\<And>t b. wl t = Some b \<Longrightarrow> ts_canceled t \<or> ts_buffered t \<le> CHUNK * 16 \<or> ts_dc t = Some DcOpen"
    and body: "(if \<not> (\<not> ts_canceled t \<and> ts_buffered t > CHUNK * 16) then Some True
      else if ts_dc t \<noteq> Some DcOpen \<or> ts_canceled t then wl t else Some False) = Some b"
  show "ts_canceled t \<or> ts_buffered t \<le> CHUNK * 16 \<or> ts_dc t = Some DcOpen"
    using body IH[of t b] by (auto split: if_splits)
qed

text \<open>C30: the waiting loop of the back pressure ends or suspends itself on an open channel, and passes at
  once when the transfer is cancelled or the buffer is low; but when the channel is gone while more than
  sixteen chunks are buffered it never returns, so the failure branch behind it is never reached and
  every later event of the page is lost.\<close>

theorem backpressure_spins:
  "wait_loop t = (case wait_state t of WPass \<Rightarrow> Some True | WBlocked \<Rightarrow> Some False | WSpin \<Rightarrow> None)
   \<and> (wait_loop t = None \<longleftrightarrow> \<not> ts_canceled t \<and> CHUNK * 16 < ts_buffered t \<and> ts_dc t \<noteq> Some DcOpen)
   \<and> (wait_loop (sess (sj_sess j) s) = None \<longrightarrow> run_events tx_step es (check j i s) = s\<lparr>tx_hung := True\<rparr>)"
proof -
  have eq: "wait_loop t = (case wait_state t of WPass \<Rightarrow> Some True | WBlocked \<Rightarrow> Some False | WSpin \<Rightarrow> None)" for t
  proof (cases "wait_state t")
    case WSpin
    then have "\<not> ts_canceled t \<and> CHUNK * 16 < ts_buffered t \<and> ts_dc t \<noteq> Some DcOpen"
      by (auto simp: wait_state_def split: if_splits)
    then have "wait_loop t = None" using wait_loop_closed[of t] by (cases "wait_loop t") auto
    with WSpin show ?thesis by simp
  next
    case WPass
    then show ?thesis by (subst wait_loop.simps) (auto simp: wait_state_def split: if_splits)
  next
    case WBlocked
    then show ?thesis by (subst wait_loop.simps) (auto simp: wait_state_def split: if_splits)
  qed
  have hung: "run_events tx_step es x = x" if "tx_hung x" for es x
    using that by (induction es) (auto simp: tx_step_def)
  have spin: "wait_state (sess (sj_sess j) s) = WSpin" if "wait_loop (sess (sj_sess j) s) = None"
    using that eq[of "sess (sj_sess j) s"] by (auto split: wait.splits)
  show ?thesis
    using eq[of t] spin hung[of "s\<lparr>tx_hung := True\<rparr>"] by (auto simp: wait_state_def check_def Let_def split: if_splits)
qed

theorem backpressure_spins_witness:
  "wait_loop (open_sess\<lparr>ts_dc := Some DcClosed, ts_buffered := 2000000\<rparr>) = None"
  by (rule backpressure_spins[THEN conjunct2, THEN conjunct1, THEN iffD2])
     (simp add: open_sess_def open_session_def CHUNK_def)

end
