(* ===== verification/File_Transfer.thy ===== *)
theory File_Transfer
  imports File_Send
begin

text \<open>
  Sender and receiver together: what the chunk loop of \<open>File_Send\<close> puts on the channel is fed, in
  order (the data channel is reliable and ordered), to the receiver of \<open>File_Receive\<close>. The two
  sides are separate clients; only frames cross.
\<close>

text \<open>The frames a session carried since a point of its history.\<close>

definition wire_since :: "nat \<Rightarrow> tx \<Rightarrow> tx \<Rightarrow> rx_event list" where
  "wire_since a s s' = drop (length (ts_frames (sess a s))) (ts_frames (sess a s'))"

fun data_bytes :: "rx_event list \<Rightarrow> nat" where
  "data_bytes [] = 0"
| "data_bytes (RxBytes b # es) = length b + data_bytes es"
| "data_bytes (_ # es) = data_bytes es"

lemma data_bytes_append: "data_bytes (xs @ ys) = data_bytes xs + data_bytes ys"
  by (induction xs rule: data_bytes.induct) auto

lemma data_bytes_chunks:
  "i \<le> j \<Longrightarrow> data_bytes (concat (map (chunk_frames c f m) [i..<j])) = length (concat (map (chunk_at c f) [i..<j]))"
  by (induction j) (auto simp: data_bytes_append chunk_frames_def le_Suc_eq)

lemma chunks_tail:
  assumes c: "0 < c" and i: "i \<le> ceil_div (length f) c"
  shows "length (concat (map (chunk_at c f) [i..<ceil_div (length f) c])) = length f - i * c"
proof -
  let ?n = "ceil_div (length f) c"
  have "[0..<?n] = [0..<i] @ [i..<?n]" using i by (metis le_add_diff_inverse upt_add_eq_append zero_le)
  then have "concat (map (chunk_at c f) [0..<?n]) = take (i * c) f @ concat (map (chunk_at c f) [i..<?n])"
    by (simp add: concat_chunks flip: concat_append map_append)
       (metis concat_append concat_chunks map_append)
  then have "length f = length (take (i * c) f) + length (concat (map (chunk_at c f) [i..<?n]))"
    using all_chunks[OF c, of f] by (metis length_append)
  then show ?thesis by simp
qed

lemma data_bytes_wire:
  "0 < c \<Longrightarrow> k \<le> ceil_div (length f) c \<Longrightarrow> data_bytes (wire_frames c f m k) = length f - k * c"
  by (simp add: wire_frames_def data_bytes_chunks chunks_tail)

text \<open>C1: end to end, without interruption: the frames the sender's loop emits for a non-empty file, fed
  to a client that knows nothing of it, give that client exactly the bytes of the file behind a done card
  whose digest check succeeds when the sender announced the digest of the file; the sender's card is done
  as well, and both sides have released the transfer.\<close>

theorem transfer_end_to_end:
  assumes c: "0 < c" and f: "f \<noteq> []" and a: "a < length (tx_sess s)" "clear_to_send (sess a s)" "\<not> tx_hung s" "tx_jobs s = []"
    and card: "own_card (fm_fileId m) it s"
    and r: "rx_before c f m 0 r" "rx_jobs r = []"
    and sha: "fm_sha256 m = sha256Hex digest f" "fm_sha256 m \<noteq> None" "fm_sha256 m \<noteq> Some []"
  shows "let s' = run_events tx_step (drive (ceil_div (length f) c)) (sendFile a m f c 0 s);
             r' = run_events (rx_step digest) (wire_since a s s' @ completion m) r;
             url = blob_url (length (rx_urls r)); fid = fm_fileId m
         in shown fid url (Some True) (length f) r' \<and> rx_urls r' = rx_urls r @ [(url, f)]
          \<and> mget (rx_persist r') fid = None \<and> mget (tx_sending s') fid = None \<and> tx_jobs s' = []
          \<and> own_card fid (with_xfer (done_state (item_size it)) it) s'"
proof -
  have sz: "fm_size m = length f" using r by (simp add: rx_before_def)
  have n: "0 < ceil_div (length f) c" using c f by (simp add: ceil_div_least)
  obtain h where h: "sha256Hex digest f = Some h" "fm_sha256 m = Some h" "h \<noteq> []" using sha by auto
  have v: "verdict digest m f = Some True" using h by (simp add: verdict_def truthy_def)
  from send_all[OF c a sz n card] receive_all[OF c f r order_refl n, of digest] v
  show ?thesis by (simp add: Let_def wire_since_def)
qed

definition digest_meta :: file_meta where
  "digest_meta = sample_meta\<lparr>fm_sha256 := sha256Hex Some [1, 2, 3]\<rparr>"

theorem transfer_end_to_end_witness:
  "rx_urls (run_events (rx_step Some) (wire_since 0 tx_sample
       (run_events tx_step (drive 2) (sendFile 0 digest_meta [1, 2, 3] 2 0 tx_sample)) @ completion digest_meta)
     (rx_start ''bob'' 0)) = [(blob_url 0, [1, 2, 3])]"
proof -
  have n: "ceil_div (Suc (Suc (Suc 0))) 2 = 2" by (simp add: ceil_div_def)
  have m: "fm_fileId digest_meta = ''f1''" "fm_size digest_meta = 3" "fm_sha256 digest_meta = sha256Hex Some [1, 2, 3]"
    by (simp_all add: digest_meta_def)
  have h: "sha256Hex Some [1, 2, 3] \<noteq> Some []" "sha256Hex Some [1, 2, 3] \<noteq> None" by code_simp+
  have b: "rx_before 2 [1, 2, 3] digest_meta 0 (rx_start ''bob'' 0)"
    by (rule rx_before_start) (simp_all add: m)
  have j: "rx_jobs (rx_start ''bob'' 0) = []" "rx_urls (rx_start ''bob'' 0) = []"
    by (simp_all add: rx_start_def ui.defs)
  show ?thesis
    using transfer_end_to_end[of 2 "[1, 2, 3]" 0 tx_sample digest_meta sample_card "rx_start ''bob'' 0" Some]
      sample_own_card open_sess_clear b j h
    by (simp add: Let_def n m del: drive_simps)
qed

text \<open>C2: end to end, after an interruption: when the receiver was left with the first \<open>k\<close> chunks, a new
  session negotiates its progress, the sender starts at chunk \<open>k\<close> and transmits only the missing bytes,
  and the receiver ends with exactly the bytes of the file, having received in all sessions together
  what it had kept plus what was missing.\<close>

theorem resume_end_to_end:
  assumes c: "0 < c" and k: "k < ceil_div (length f) c"
    and r: "rx_before c f m k r" "rx_jobs r = []" "rec_of (fm_fileId m) r = Some rc" and dc: "rx_dc r" "rx_frames r = []"
    and st: "sn_meta st = m" "sn_blob st = f" "sn_chunk st = c"
    and a: "a < length (tx_sess s)" "clear_to_send (sess a s)" "\<not> tx_hung s" "tx_jobs s = []"
    and src: "mget (tx_sendState s) (fm_fileId m) = Some st" and card: "own_card (fm_fileId m) it s"
  shows "let fid = fm_fileId m; s1 = resumeAndSend a st s;
             r1 = run_events (rx_step digest) (wire_since a s s1) r
         in \<exists>got. rx_frames r1 = [FResumeAck fid (Some got)]
            \<and> (let s2 = resume_got a fid got s1;
                   s3 = run_events tx_step (drive (ceil_div (length f) c - k)) s2;
                   r2 = run_events (rx_step digest) (wire_since a s1 s3 @ completion m) r1;
                   url = blob_url (length (rx_urls r))
               in data_bytes (wire_since a s1 s3) = length f - k * c
                \<and> rx_urls r2 = rx_urls r @ [(url, f)] \<and> shown fid url (verdict digest m f) (length f) r2
                \<and> mget (rx_done r2) fid = Some (length f, rs_recvBytes rc + (length f - k * c))
                \<and> mget (tx_sendState s3) fid = None
                \<and> own_card fid (with_xfer (done_state (item_size it)) it) s3)"
proof -
  define fid where "fid = fm_fileId m"
  define s1 where "s1 = resumeAndSend a st s"
  have fid: "fid \<noteq> []" and sz: "fm_size m = length f" and part: "file_part c f rc" "rcv.prefix_of c f k rc"
    using r by (simp_all add: rx_before_def fid_def)
  have less: "k * c < length f" using k c by (simp add: ceil_div_least)
  then have f: "f \<noteq> []" by auto
  have got: "rs_got rc = k * c" using part_got[OF part] less by simp
  have sess1: "sess a s1 = (sess a s)\<lparr>ts_resume := mset_key fid st (ts_resume (sess a s)),
      ts_frames := ts_frames (sess a s) @ [RxText (Some (FResume fid))]\<rparr>"
    using a st by (simp add: s1_def resumeAndSend_def Let_def dc_send_def fid_def)
  define r1 where "r1 = run_events (rx_step digest) (wire_since a s s1) r"
  have r1: "r1 = r\<lparr>rx_frames := [FResumeAck fid (Some (k * c))]\<rparr>"
    using dc fid r(3) got by (simp add: r1_def wire_since_def sess1 on_fresume_def fid_def[symmetric])
  define s1' where "s1' = (upd_sess a (\<lambda>t. t\<lparr>ts_resume := mdel fid (ts_resume t)\<rparr>) s1)
      \<lparr>tx_sendState := mset_key fid (st\<lparr>sn_resumeFrom := Some k\<rparr>) (tx_sendState s1)\<rparr>"
  have idx: "from_index (k * c) (length f) c = k"
    using less c by (auto simp: from_index_def min_def)
  have state1: "tx_sendState s1 = tx_sendState s" "tx_jobs s1 = []" "\<not> tx_hung s1" "length (tx_sess s1) = length (tx_sess s)"
    "ui_store s1 = ui_store s"
    using a by (simp_all add: s1_def resumeAndSend_def Let_def dc_send_def)
  have s2: "resume_got a fid (k * c) s1 = sendFile a m f c k s1'"
    using src st sz idx state1 by (simp add: resume_got_def sess1 Let_def s1'_def fid_def)
  have sess1': "sess a s1' = (sess a s1)\<lparr>ts_resume := mdel fid (ts_resume (sess a s1))\<rparr>"
    using a state1 by (simp add: s1'_def sess_def upd_sess_def)
  have a': "a < length (tx_sess s1')" "clear_to_send (sess a s1')" "\<not> tx_hung s1'" "tx_jobs s1' = []"
    using a state1 sess1' sess1 by (simp_all add: s1'_def clear_to_send_def)
  have card': "own_card (fm_fileId m) it s1'"
    using card own_card_frame[of s1' s "fm_fileId m" it] state1 by (simp add: s1'_def)
  have rec1: "rec_of i (r\<lparr>rx_frames := fs\<rparr>) = rec_of i r" for i fs
    by (simp add: rec_of_def split: option.split)
  have rb: "rx_before c f m k r1" and rj: "rx_jobs r1 = []" and ru: "rx_urls r1 = rx_urls r"
    and rr: "rec_of (fm_fileId m) r1 = Some rc"
    using r rec1 by (simp_all add: r1 rx_before_def card_env_def)
  define s3 where "s3 = run_events tx_step (drive (ceil_div (length f) c - k)) (sendFile a m f c k s1')"
  note snd = send_all[OF c a' sz k card', unfolded Let_def, folded s3_def]
  have wire: "wire_since a s1 s3 = wire_frames c f m k"
    using snd sess1' by (simp add: wire_since_def)
  note rcv = receive_all[OF c f rb rj order_refl k, of digest, unfolded Let_def rr ru]
  have bytes: "data_bytes (wire_frames c f m k) = length f - k * c"
    using k by (intro data_bytes_wire[OF c]) simp
  have ack: "rx_frames r1 = [FResumeAck fid (Some (k * c))]" by (simp add: r1)
  show ?thesis
    unfolding Let_def fid_def[symmetric] s1_def[symmetric] r1_def[symmetric]
    by (rule exI[of _ "k * c"])
       (use snd rcv bytes ack in \<open>simp add: s2 s3_def[symmetric] wire fid_def[symmetric]\<close>)
qed

definition rx_kept :: rx where
  "rx_kept = (rx_start ''bob'' 0)\<lparr>rx_persist := [(''f1'', 0)],
     rx_recs := [rec_put 0 (chunk_at 2 [1, 2, 3] 0) (fresh_rec sample_meta)]\<rparr>"

lemma rx_kept_before:
  "rx_before 2 [1, 2, 3] sample_meta 1 rx_kept"
  "rec_of ''f1'' rx_kept = Some (rec_put 0 (chunk_at 2 [1, 2, 3] 0) (fresh_rec sample_meta))"
proof -
  show r: "rec_of ''f1'' rx_kept = Some (rec_put 0 (chunk_at 2 [1, 2, 3] 0) (fresh_rec sample_meta))"
    by (simp add: rx_kept_def rec_of_def mget_def)
  have n: "0 < ceil_div (length [1, 2, 3 :: byte]) 2" by (simp add: ceil_div_def)
  have e: "card_env ''f1'' rx_kept"
    by (simp add: card_env_def rx_kept_def rx_start_def ui_init_def ui.defs new_store_def)
  show "rx_before 2 [1, 2, 3] sample_meta 1 rx_kept"
    using file_part_put[OF file_part_fresh n] rcv.prefix_put[OF prefix_fresh order_refl n] e
    by (simp add: rx_before_def r) (simp add: fresh_rec_def)
qed

theorem resume_end_to_end_witness:
  "\<exists>got. data_bytes (wire_since 0 (resumeAndSend 0 sample_src (tx_running\<lparr>tx_jobs := []\<rparr>))
      (run_events tx_step (drive 1) (resume_got 0 ''f1'' got
         (resumeAndSend 0 sample_src (tx_running\<lparr>tx_jobs := []\<rparr>))))) = 1"
proof -
  let ?s = "tx_running\<lparr>tx_jobs := []\<rparr>"
  have n: "ceil_div (length [1, 2, 3 :: byte]) 2 = 2" by (simp add: ceil_div_def)
  have src: "sn_meta sample_src = sample_meta" "sn_blob sample_src = [1, 2, 3]" "sn_chunk sample_src = 2"
    by (simp_all add: sample_src_def)
  have k: "1 < ceil_div (length [1, 2, 3 :: byte]) 2" unfolding n by simp
  have a: "0 < length (tx_sess ?s)" "clear_to_send (sess 0 ?s)" "\<not> tx_hung ?s" "tx_jobs ?s = []"
    using tx_running_at(1) by (simp_all add: sending_at_def)
  have reg: "mget (tx_sendState ?s) (fm_fileId sample_meta) = Some sample_src"
    by (simp add: tx_running_def mget_def)
  have card: "own_card (fm_fileId sample_meta) sample_card ?s"
    using tx_running_at(4) by (simp add: own_card_def findByFileId_def)
  have r: "rx_jobs rx_kept = []" "rx_dc rx_kept" "rx_frames rx_kept = []"
    by (simp_all add: rx_kept_def rx_start_def ui.defs)
  have rc: "rec_of (fm_fileId sample_meta) rx_kept = Some (rec_put 0 (chunk_at 2 [1, 2, 3] 0) (fresh_rec sample_meta))"
    using rx_kept_before(2) by simp
  have c: "0 < (2::nat)" by simp
  from resume_end_to_end[OF c k rx_kept_before(1) r(1) rc r(2,3) src a reg card, of Some, unfolded Let_def n]
  obtain got where "data_bytes (wire_since 0 (resumeAndSend 0 sample_src ?s)
      (run_events tx_step (drive (2 - 1)) (resume_got 0 (fm_fileId sample_meta) got (resumeAndSend 0 sample_src ?s))))
     = length [1, 2, 3 :: byte] - 1 * 2"
    by (elim exE conjE) (rule that)
  then show ?thesis by (intro exI[of _ got]) (simp del: drive_simps)
qed


subsection \<open>What both ends report\<close>

text \<open>\<open>transferDebug\<close>: for each file the bytes received so far and the chunks held (the first 64 only), for
  each source the last offset sent and the chunk a resumption starts from. A finished reception is
  reported from its final record.\<close>

record transfer_debug =
  td_recvGot :: "(string, nat) jsmap"
  td_recvBytes :: "(string, nat) jsmap"
  td_recvChunks :: "(string, nat list) jsmap"
  td_sndGot :: "(string, nat) jsmap"
  td_sndFrom :: "(string, nat) jsmap"

definition held_chunks :: "recv_state \<Rightarrow> nat list" where
  "held_chunks r = filter (\<lambda>i. arr_get (rs_chunks r) i \<noteq> None) [0..<min (length (rs_chunks r)) 64]"

definition put_all :: "(string \<times> 'v) list \<Rightarrow> (string, 'v) jsmap \<Rightarrow> (string, 'v) jsmap" where
  "put_all es m = fold (\<lambda>(k, v). mset_key k v) es m"

definition transferDebug :: "rx \<Rightarrow> tx \<Rightarrow> transfer_debug" where
  "transferDebug r t =
     (let recs = map (\<lambda>(k, a). (k, rx_recs r ! a)) (rx_persist r)
      in \<lparr>td_recvGot = put_all (map (\<lambda>(k, d). (k, fst d)) (rx_done r)) (put_all (map (\<lambda>(k, x). (k, rs_got x)) recs) []),
          td_recvBytes = put_all (map (\<lambda>(k, d). (k, snd d)) (rx_done r)) (put_all (map (\<lambda>(k, x). (k, rs_recvBytes x)) recs) []),
          td_recvChunks = put_all (map (\<lambda>(k, x). (k, held_chunks x)) recs) [],
          td_sndGot = put_all (map (\<lambda>(k, x). (k, sn_lastGot x)) (tx_sendState t)) [],
          td_sndFrom = put_all (map (\<lambda>(k, x). (k, case sn_resumeFrom x of None \<Rightarrow> 0 | Some i \<Rightarrow> i)) (tx_sendState t)) []\<rparr>)"

lemma mget_put_all:
  "mwf m \<Longrightarrow> mget (put_all (map (\<lambda>(k, v). (k, f v)) m) t) k = (case mget m k of Some v \<Rightarrow> Some (f v) | None \<Rightarrow> mget t k)"
proof -
  assume "mwf m"
  then have "distinct (map fst (map (\<lambda>(k, v). (k, f v)) m))" by (simp add: mwf_def o_def case_prod_unfold)
  moreover have "map_of (map (\<lambda>(k, v). (k, f v)) m) k = map_option f (mget m k)" by (simp add: mget_def map_of_map)
  ultimately show ?thesis by (simp add: put_all_def mget_fold_set split: option.split)
qed

text \<open>The report for one file: the final record when there is one, else the record being filled.\<close>

theorem debug_reports:
  assumes "mwf (rx_persist r)" "mwf (rx_done r)" "mwf (tx_sendState t)"
    and "\<And>k a. mget (rx_persist r) k = Some a \<Longrightarrow> a < length (rx_recs r)"
  shows "mget (td_recvGot (transferDebug r t)) fid
       = (case mget (rx_done r) fid of Some (g, b) \<Rightarrow> Some g | None \<Rightarrow> map_option rs_got (rec_of fid r))"
    and "mget (td_sndGot (transferDebug r t)) fid = map_option sn_lastGot (mget (tx_sendState t) fid)"
proof -
  have comp: "(\<lambda>(k, x). (k, rs_got x)) \<circ> (\<lambda>(k, a). (k, rx_recs r ! a)) = (\<lambda>(k, a). (k, rs_got (rx_recs r ! a)))"
    by auto
  show "mget (td_recvGot (transferDebug r t)) fid
       = (case mget (rx_done r) fid of Some (g, b) \<Rightarrow> Some g | None \<Rightarrow> map_option rs_got (rec_of fid r))"
    using assms by (auto simp: transferDebug_def Let_def comp mget_put_all rec_of_def split: option.splits)
  show "mget (td_sndGot (transferDebug r t)) fid = map_option sn_lastGot (mget (tx_sendState t) fid)"
    using assms by (simp add: transferDebug_def Let_def mget_put_all split: option.split)
qed

end
