(* ===== verification/Signaling.thy ===== *)
theory Signaling
  imports Protocol "HOL-Library.Multiset"
begin

text \<open>
  Signalling inside one \<open>PeerSession\<close> of \<open>ui/src/client/webrtc.ts\<close>: \<open>onSignal\<close> for offers, answers
  and ICE candidates, \<open>flushIce\<close> and the candidate queue \<open>iceQueue\<close>.

  The peer connection belongs to the browser. Its part of the state is whether a remote description is
  set and whether the signalling state is stable; how long its operations take and whether they fail is
  left to the environment. \<open>onSignal\<close> is asynchronous, so signals interleave: each call of it is a
  \<open>sig_job\<close>, cut at its awaits, and \<open>sig_step\<close> is the step relation of the session. \<open>pe_added\<close> lists
  the candidates handed to \<open>addIceCandidate\<close>, \<open>pe_seen\<close> those that arrived, \<open>pe_answers\<close> counts the
  answers sent.
\<close>

datatype sig_kind = KOffer | KAnswer

text \<open>What an \<open>onSignal\<close> call still has to do.\<close>

datatype sig_job =
    JRemote sig_kind session_description   \<comment> \<open>awaiting \<open>setRemoteDescription\<close>\<close>
  | JFlush sig_kind                        \<comment> \<open>about to run \<open>flushIce\<close>\<close>
  | JAdd sig_kind "ice_candidate list"     \<comment> \<open>in the loop of \<open>flushIce\<close>, these candidates left\<close>
  | JAnswer                                \<comment> \<open>creating and setting the answer\<close>

record pc_session =
  pe_remote :: "session_description option"
  pe_stable :: bool
  pe_queue :: "ice_candidate list"
  pe_added :: "ice_candidate list"
  pe_seen :: "ice_candidate list"
  pe_jobs :: "sig_job list"
  pe_answers :: nat

definition pc_fresh :: pc_session where
  "pc_fresh = \<lparr>pe_remote = None, pe_stable = True, pe_queue = [], pe_added = [], pe_seen = [],
     pe_jobs = [], pe_answers = 0\<rparr>"

text \<open>The synchronous beginning of \<open>onSignal\<close>.\<close>

definition sig_offer :: "session_description \<Rightarrow> pc_session \<Rightarrow> pc_session" where
  "sig_offer sdp p = p\<lparr>pe_jobs := pe_jobs p @ [JRemote KOffer sdp]\<rparr>"

definition sig_answer :: "session_description \<Rightarrow> pc_session \<Rightarrow> pc_session" where
  "sig_answer sdp p =
     p\<lparr>pe_jobs := pe_jobs p @ [if pe_stable p then JFlush KAnswer else JRemote KAnswer sdp]\<rparr>"

text \<open>A candidate is handed over at once when a remote description is set and queued otherwise; that
  \<open>addIceCandidate\<close> may throw is caught in the code and changes nothing here.\<close>

definition sig_ice :: "ice_candidate \<Rightarrow> pc_session \<Rightarrow> pc_session" where
  "sig_ice c p =
     (if pe_remote p \<noteq> None then p\<lparr>pe_seen := pe_seen p @ [c], pe_added := pe_added p @ [c]\<rparr>
      else p\<lparr>pe_seen := pe_seen p @ [c], pe_queue := pe_queue p @ [c]\<rparr>)"

text \<open>\<open>flushIce\<close> up to its first await: nothing without a remote description, else the queue is taken.\<close>

definition after_flush :: "sig_kind \<Rightarrow> sig_job list" where
  "after_flush k = (case k of KOffer \<Rightarrow> [JAnswer] | KAnswer \<Rightarrow> [])"

definition flush_begin :: "sig_kind \<Rightarrow> pc_session \<Rightarrow> sig_job list \<times> pc_session" where
  "flush_begin k p =
     (if pe_remote p = None then (after_flush k, p) else ([JAdd k (pe_queue p)], p\<lparr>pe_queue := []\<rparr>))"

text \<open>One turn of the job at a position: what it leaves in its place, and the new session. A
  remote description that is refused (\<open>ok = False\<close>) rejects the promise and ends the call; so does
  a failure to produce the answer.\<close>

definition job_turn :: "sig_job \<Rightarrow> bool \<Rightarrow> pc_session \<Rightarrow> sig_job list \<times> pc_session" where
  "job_turn j ok p =
     (case j of
        JRemote k sdp \<Rightarrow>
          if ok then ([JFlush k], p\<lparr>pe_remote := Some sdp, pe_stable := (k = KAnswer)\<rparr>) else ([], p)
      | JFlush k \<Rightarrow> flush_begin k p
      | JAdd k [] \<Rightarrow> (after_flush k, p)
      | JAdd k (c # cs) \<Rightarrow> ([JAdd k cs], p\<lparr>pe_added := pe_added p @ [c]\<rparr>)
      | JAnswer \<Rightarrow> if ok then ([], p\<lparr>pe_stable := True, pe_answers := Suc (pe_answers p)\<rparr>) else ([], p))"

text \<open>The own offer (\<open>setLocalDescription\<close>) leaves the stable state.\<close>

definition local_offer :: "pc_session \<Rightarrow> pc_session" where
  "local_offer p = p\<lparr>pe_stable := False\<rparr>"

inductive sig_step :: "pc_session \<Rightarrow> pc_session \<Rightarrow> bool" where
  step_offer: "sig_step p (sig_offer sdp p)"
| step_answer: "sig_step p (sig_answer sdp p)"
| step_ice: "sig_step p (sig_ice c p)"
| step_local: "sig_step p (local_offer p)"
| step_job: "pe_jobs p = xs @ j # ys \<Longrightarrow> job_turn j ok (p\<lparr>pe_jobs := []\<rparr>) = (js, q) \<Longrightarrow>
    sig_step p (q\<lparr>pe_jobs := xs @ js @ ys\<rparr>)"

inductive reach :: "pc_session \<Rightarrow> bool" where
  reach_fresh: "reach pc_fresh"
| reach_step: "reach p \<Longrightarrow> sig_step p q \<Longrightarrow> reach q"

inductive_cases sig_stepE: "sig_step p q"

subsection \<open>No candidate is lost\<close>

fun job_cands :: "sig_job \<Rightarrow> ice_candidate list" where
  "job_cands (JAdd k cs) = cs"
| "job_cands _ = []"

definition in_flight :: "sig_job list \<Rightarrow> ice_candidate multiset" where
  "in_flight js = sum_list (map (\<lambda>j. mset (job_cands j)) js)"

lemma in_flight_simps [simp]:
  "in_flight [] = {#}" "in_flight (j # js) = mset (job_cands j) + in_flight js"
  "in_flight (xs @ ys) = in_flight xs + in_flight ys"
  by (simp_all add: in_flight_def)

definition is_flush :: "sig_job \<Rightarrow> bool" where
  "is_flush j = (case j of JFlush k \<Rightarrow> True | _ \<Rightarrow> False)"

text \<open>Every candidate that arrived was handed over, is queued or is in a flush under way; and a queue
  that is not empty though a remote description is set has a flush ahead of it.\<close>

definition sig_inv :: "pc_session \<Rightarrow> bool" where
  "sig_inv p \<longleftrightarrow>
     mset (pe_seen p) = mset (pe_added p) + mset (pe_queue p) + in_flight (pe_jobs p)
   \<and> (pe_remote p \<noteq> None \<and> pe_queue p \<noteq> [] \<longrightarrow> (\<exists>j \<in> set (pe_jobs p). is_flush j))"

lemma job_turn_inv:
  assumes inv: "sig_inv p" and jobs: "pe_jobs p = xs @ j # ys"
    and turn: "job_turn j ok (p\<lparr>pe_jobs := []\<rparr>) = (js, q)"
  shows "sig_inv (q\<lparr>pe_jobs := xs @ js @ ys\<rparr>)"
proof (cases j)
  case (JRemote k sdp)
  with assms show ?thesis
    by (cases ok) (auto simp: sig_inv_def job_turn_def is_flush_def)
next
  case (JFlush k)
  with assms show ?thesis
    by (cases k; cases "pe_remote p")
       (auto simp: sig_inv_def job_turn_def flush_begin_def after_flush_def is_flush_def)
next
  case (JAdd k cs)
  with assms show ?thesis
    by (cases cs; cases k) (auto simp: sig_inv_def job_turn_def after_flush_def is_flush_def)
next
  case JAnswer
  with assms show ?thesis
    by (cases ok) (auto simp: sig_inv_def job_turn_def is_flush_def)
qed

lemma sig_inv_step: "sig_step p q \<Longrightarrow> sig_inv p \<Longrightarrow> sig_inv q"
proof (erule sig_stepE)
  show "sig_inv p \<Longrightarrow> q = sig_offer sdp p \<Longrightarrow> sig_inv q" for sdp
    by (auto simp: sig_inv_def sig_offer_def is_flush_def)
  show "sig_inv p \<Longrightarrow> q = sig_answer sdp p \<Longrightarrow> sig_inv q" for sdp
    by (auto simp: sig_inv_def sig_answer_def is_flush_def)
  show "sig_inv p \<Longrightarrow> q = sig_ice c p \<Longrightarrow> sig_inv q" for c
    by (auto simp: sig_inv_def sig_ice_def)
  show "sig_inv p \<Longrightarrow> q = local_offer p \<Longrightarrow> sig_inv q"
    by (simp add: sig_inv_def local_offer_def)
qed (auto intro: job_turn_inv)

lemma sig_inv_reach: "reach p \<Longrightarrow> sig_inv p"
  by (induction rule: reach.induct) (simp add: sig_inv_def pc_fresh_def, rule sig_inv_step)

text \<open>Every turn of a job makes progress: without new signals a session comes to rest.\<close>

fun job_weight :: "nat \<Rightarrow> sig_job \<Rightarrow> nat" where
  "job_weight n (JRemote k sdp) = 5 + n"
| "job_weight n (JFlush k) = 4 + n"
| "job_weight n (JAdd k cs) = 3 + length cs"
| "job_weight n JAnswer = 1"

definition weight :: "pc_session \<Rightarrow> nat" where
  "weight p = sum_list (map (job_weight (length (pe_queue p))) (pe_jobs p))"

lemma weight_mono: "m \<le> n \<Longrightarrow> sum_list (map (job_weight m) js) \<le> sum_list (map (job_weight n) js)"
proof (induction js)
  case (Cons j js)
  have "job_weight m j \<le> job_weight n j" using Cons.prems by (cases j) auto
  with Cons show ?case by simp
qed simp

lemma job_turn_weight:
  assumes "job_turn j ok p = (js, q)"
  shows "length (pe_queue q) \<le> length (pe_queue p)"
    "sum_list (map (job_weight (length (pe_queue q))) js) < job_weight (length (pe_queue p)) j"
  using assms
  by (auto simp: job_turn_def flush_begin_def after_flush_def split: sig_job.splits if_splits list.splits sig_kind.splits)

lemma turn_decreases:
  assumes jobs: "pe_jobs p = xs @ j # ys" and turn: "job_turn j ok (p\<lparr>pe_jobs := []\<rparr>) = (js, q)"
  shows "weight (q\<lparr>pe_jobs := xs @ js @ ys\<rparr>) < weight p"
proof -
  have le: "length (pe_queue q) \<le> length (pe_queue p)"
    and less: "sum_list (map (job_weight (length (pe_queue q))) js) < job_weight (length (pe_queue p)) j"
    using job_turn_weight[OF turn] by simp_all
  from weight_mono[OF le, of xs] weight_mono[OF le, of ys] less show ?thesis
    by (simp add: weight_def jobs)
qed

text \<open>Running the jobs of a session to the end, first job first, every operation succeeding.\<close>

function settle :: "pc_session \<Rightarrow> pc_session" where
  "settle p = (case pe_jobs p of [] \<Rightarrow> p
     | j # ys \<Rightarrow> (let (js, q) = job_turn j True (p\<lparr>pe_jobs := []\<rparr>) in settle (q\<lparr>pe_jobs := js @ ys\<rparr>)))"
  by pat_completeness auto
termination
  using turn_decreases[where xs = "[]"] by (relation "measure weight") (auto simp del: weight_def)

declare settle.simps [simp del]

lemma settle_rest: "reach p \<Longrightarrow> reach (settle p) \<and> pe_jobs (settle p) = [] \<and> pe_seen (settle p) = pe_seen p"
proof (induction p rule: settle.induct)
  case (1 p)
  show ?case
  proof (cases "pe_jobs p")
    case Nil
    then show ?thesis using "1.prems" by (simp add: settle.simps[of p])
  next
    case (Cons j ys)
    obtain js q where t: "job_turn j True (p\<lparr>pe_jobs := []\<rparr>) = (js, q)" by fastforce
    have "sig_step p (q\<lparr>pe_jobs := [] @ js @ ys\<rparr>)"
      by (rule step_job[OF _ t]) (simp add: Cons)
    then have r: "reach (q\<lparr>pe_jobs := js @ ys\<rparr>)"
      using "1.prems" by (auto intro: reach_step)
    have seen: "pe_seen q = pe_seen p"
      using t by (auto simp: job_turn_def flush_begin_def split: sig_job.splits if_splits list.splits)
    from "1.IH"[OF Cons refl t[symmetric] r] t Cons seen show ?thesis
      by (simp add: settle.simps[of p])
  qed
qed

text \<open>C16: trickled ICE candidates are neither lost nor handed over twice, however candidates, offers and
  answers interleave and whichever operations of the peer connection fail: in every reachable state the
  candidates that arrived are those handed over, those queued and those in a flush under way; when a
  remote description is set and the pending calls have come to rest, all of them have been handed over;
  and the pending calls do come to rest.\<close>

theorem ice_not_lost:
  assumes "reach p"
  shows "mset (pe_seen p) = mset (pe_added p) + mset (pe_queue p) + in_flight (pe_jobs p)
    \<and> (pe_remote p \<noteq> None \<and> pe_jobs p = [] \<longrightarrow> mset (pe_added p) = mset (pe_seen p))
    \<and> pe_jobs (settle p) = []
    \<and> (pe_remote (settle p) \<noteq> None \<longrightarrow> mset (pe_added (settle p)) = mset (pe_seen p))"
proof -
  have rest: "pe_remote q \<noteq> None \<and> pe_jobs q = [] \<longrightarrow> mset (pe_added q) = mset (pe_seen q)" if "reach q" for q
    using sig_inv_reach[OF that] by (auto simp: sig_inv_def)
  show ?thesis
    using sig_inv_reach[OF assms] rest[OF assms] rest[of "settle p"] settle_rest[OF assms]
    by (simp add: sig_inv_def)
qed

definition cand :: "string \<Rightarrow> ice_candidate" where
  "cand c = \<lparr>ic_candidate = c, ic_sdpMLineIndex = None, ic_sdpMid = None\<rparr>"

theorem ice_not_lost_witness:
  "mset (pe_added (settle (sig_ice (cand ''b'') (sig_offer \<lparr>sd_sdp = [], sd_type = Offer\<rparr> (sig_ice (cand ''a'') pc_fresh)))))
   = {#cand ''a'', cand ''b''#}"
proof -
  let ?p = "sig_ice (cand ''b'') (sig_offer \<lparr>sd_sdp = [], sd_type = Offer\<rparr> (sig_ice (cand ''a'') pc_fresh))"
  have r: "reach ?p"
    by (intro reach_step[OF _ step_ice] reach_step[OF _ step_offer] reach_fresh)
  have "pe_remote (settle ?p) \<noteq> None" "pe_seen ?p = [cand ''a'', cand ''b'']"
    by code_simp+
  then show ?thesis using ice_not_lost[OF r] by simp
qed

end
