(* ===== verification/Peer_Sessions.thy ===== *)
theory Peer_Sessions
  imports Conversations
begin

text \<open>
  The module state of \<open>ui/src/client/webrtc.ts\<close> that calls and shares work on, and its basic
  operations: the sessions and their registry, the stream registry with its listeners, the routing of
  signals, hang-up, remote input.

  A \<open>PeerSession\<close> is shared by the registry of sessions and the viewers of a share, so sessions live in
  the store \<open>ca_heap\<close> and are named by their address. \<open>so_log\<close> records what is done to the peer
  connection of a session, in order: tracks added, signals handed to \<open>onSignal\<close> (whose inner working
  is the subject of \<open>Signaling\<close>), the own offer. A media stream is a number.
\<close>

datatype signal = SOffer session_description | SAnswer session_description | SIce ice_candidate

datatype so_event = LTrack nat | LSignal signal | LOwnOffer | LChannel

record sess_obj =
  so_callId :: string
  so_peerId :: string
  so_mode :: media_mode
  so_dc :: "dc_state option"
  so_closed :: bool
  so_log :: "so_event list"
  so_inputs :: "remote_input list"

record pending_call =
  pd_from :: string
  pd_mode :: media_mode
  pd_stream :: "nat option"

record room_share =
  sh_roomId :: string
  sh_stream :: nat
  sh_viewers :: "(string, nat) jsmap"

record calls = ui +
  ca_heap :: "sess_obj list"
  ca_sessions :: "(string, nat) jsmap"
  ca_pending :: "(string, pending_call) jsmap"
  ca_armed :: "(string, string) jsmap"
  ca_offer :: "(string \<times> session_description) option"
  ca_local :: "(string, nat) jsmap"
  ca_remote :: "(string, nat) jsmap"
  ca_listeners :: "nat list"
  ca_emitted :: "nat list"
  ca_stopped :: "nat list"
  ca_shareHeap :: "room_share list"
  ca_shares :: "(string, nat) jsmap"
  ca_shareOf :: "(string, string) jsmap"
  ca_stopReq :: "(string, string) jsmap"
  ca_ctrl :: "(string, string list) jsmap"

definition calls_init :: calls where
  "calls_init = ui.extend ui_init
     \<lparr>ca_heap = [], ca_sessions = [], ca_pending = [], ca_armed = [], ca_offer = None, ca_local = [],
      ca_remote = [], ca_listeners = [], ca_emitted = [], ca_stopped = [], ca_shareHeap = [],
      ca_shares = [], ca_shareOf = [], ca_stopReq = [], ca_ctrl = []\<rparr>"

subsection \<open>Sessions\<close>

definition obj :: "nat \<Rightarrow> calls \<Rightarrow> sess_obj" where
  "obj a s = ca_heap s ! a"

definition upd_obj :: "nat \<Rightarrow> (sess_obj \<Rightarrow> sess_obj) \<Rightarrow> calls \<Rightarrow> calls" where
  "upd_obj a f s = s\<lparr>ca_heap := (ca_heap s)[a := f (ca_heap s ! a)]\<rparr>"

definition log_obj :: "nat \<Rightarrow> so_event \<Rightarrow> calls \<Rightarrow> calls" where
  "log_obj a e = upd_obj a (\<lambda>ob. ob\<lparr>so_log := so_log ob @ [e]\<rparr>)"

text \<open>\<open>newSession\<close>: the new session and its address.\<close>

definition newSession :: "string \<Rightarrow> string \<Rightarrow> media_mode \<Rightarrow> calls \<Rightarrow> nat \<times> calls" where
  "newSession callId peerId mode s =
     (let a = length (ca_heap s)
      in (a, s\<lparr>ca_heap := ca_heap s @ [\<lparr>so_callId = callId, so_peerId = peerId, so_mode = mode, so_dc = None,
                 so_closed = False, so_log = [], so_inputs = []\<rparr>],
               ca_sessions := mset_key callId a (ca_sessions s)\<rparr>))"

text \<open>\<open>sessions.get(callId) ?? newSession(callId, peerId, mode)\<close>.\<close>

definition get_session :: "string \<Rightarrow> string \<Rightarrow> media_mode \<Rightarrow> calls \<Rightarrow> nat \<times> calls" where
  "get_session callId peerId mode s =
     (case mget (ca_sessions s) callId of Some a \<Rightarrow> (a, s) | None \<Rightarrow> newSession callId peerId mode s)"

definition closeObj :: "nat \<Rightarrow> calls \<Rightarrow> calls" where
  "closeObj a = upd_obj a (\<lambda>ob. ob\<lparr>so_closed := True, so_dc := map_option (\<lambda>_. DcClosed) (so_dc ob)\<rparr>)"

definition call_json :: "string \<Rightarrow> string \<Rightarrow> json" where
  "call_json callId to = JObj [(''callId'', JStr callId), (''to'', JStr to)]"

definition hangup :: "nat \<Rightarrow> calls \<Rightarrow> calls" where
  "hangup a s =
     closeObj a (send ''media'' ''call_hangup'' (Some (call_json (so_callId (obj a s)) (so_peerId (obj a s)))) s)"

definition sdp_json :: "session_description \<Rightarrow> json" where
  "sdp_json sd = JObj [(''type'', JStr (case sd_type sd of Offer \<Rightarrow> ''offer'' | Answer \<Rightarrow> ''answer'')), (''sdp'', JStr (sd_sdp sd))]"

definition signal_json :: "string \<Rightarrow> string \<Rightarrow> session_description \<Rightarrow> json" where
  "signal_json callId to sd = JObj [(''callId'', JStr callId), (''to'', JStr to), (''sdp'', sdp_json sd)]"

text \<open>\<open>sendOffer\<close>; the description is the one the peer connection created.\<close>

definition sendOffer :: "nat \<Rightarrow> session_description \<Rightarrow> calls \<Rightarrow> calls" where
  "sendOffer a sd s =
     (let s1 = log_obj a LOwnOffer s
      in send ''media'' ''offer'' (Some (signal_json (so_callId (obj a s1)) (so_peerId (obj a s1)) sd)) s1)"

text \<open>\<open>addTrackFrom\<close>: \<open>pc.addTrack\<close> throws (here None) on a closed connection and on a track the connection
  already sends.\<close>

definition addTrackFrom :: "nat \<Rightarrow> nat \<Rightarrow> calls \<Rightarrow> calls option" where
  "addTrackFrom a stream s =
     (if so_closed (obj a s) \<or> LTrack stream \<in> set (so_log (obj a s)) then None
      else Some (log_obj a (LTrack stream) s))"

definition onSignal :: "nat \<Rightarrow> signal \<Rightarrow> calls \<Rightarrow> calls" where
  "onSignal a sig = log_obj a (LSignal sig)"

text \<open>A candidate of the own peer connection (\<open>onicecandidate\<close>).\<close>

definition candidate_json :: "ice_candidate \<Rightarrow> json" where
  "candidate_json c = JObj ([(''candidate'', JStr (ic_candidate c))]
     @ opt_field ''sdpMLineIndex'' (\<lambda>n. JNum (int n)) (ic_sdpMLineIndex c) @ opt_field ''sdpMid'' JStr (ic_sdpMid c))"

definition on_local_candidate :: "nat \<Rightarrow> ice_candidate option \<Rightarrow> calls \<Rightarrow> calls" where
  "on_local_candidate a c s =
     (case c of None \<Rightarrow> s
      | Some c \<Rightarrow> send ''media'' ''ice'' (Some (JObj [(''callId'', JStr (so_callId (obj a s))),
            (''to'', JStr (so_peerId (obj a s))), (''candidate'', candidate_json c)])) s)"

text \<open>\<open>routeSignal\<close>; \<open>guessMode\<close> is voice.\<close>

definition routeSignal :: "string \<Rightarrow> signal \<Rightarrow> string \<Rightarrow> calls \<Rightarrow> calls" where
  "routeSignal callId sig source s =
     (let mode = (case mget (ca_pending s) callId of None \<Rightarrow> Voice | Some p \<Rightarrow> pd_mode p);
          (a, s1) = get_session callId source mode s
      in onSignal a sig s1)"

subsection \<open>Streams\<close>

definition emitStreams :: "calls \<Rightarrow> calls" where
  "emitStreams s = s\<lparr>ca_emitted := ca_emitted s @ ca_listeners s\<rparr>"

definition onStreamsChange :: "nat \<Rightarrow> calls \<Rightarrow> calls" where
  "onStreamsChange l s = s\<lparr>ca_listeners := set_add l (ca_listeners s)\<rparr>"

definition sessionStreams :: "string \<Rightarrow> calls \<Rightarrow> nat option \<times> nat option" where
  "sessionStreams callId s = (mget (ca_local s) callId, mget (ca_remote s) callId)"

definition setLocalStream :: "string \<Rightarrow> nat option \<Rightarrow> calls \<Rightarrow> calls" where
  "setLocalStream callId stream s =
     emitStreams (s\<lparr>ca_local := (case stream of Some x \<Rightarrow> mset_key callId x (ca_local s) | None \<Rightarrow> mdel callId (ca_local s))\<rparr>)"

text \<open>\<open>ontrack\<close> of a session: the remote stream is registered under the call.\<close>

definition on_remote_track :: "nat \<Rightarrow> nat \<Rightarrow> calls \<Rightarrow> calls" where
  "on_remote_track a stream s =
     emitStreams (s\<lparr>ca_remote := mset_key (so_callId (obj a s)) stream (ca_remote s)\<rparr>)"

text \<open>\<open>localStreams.delete(callId) || remoteStreams.delete(callId)\<close>: the second deletion is evaluated
  only when the first found nothing.\<close>

definition clearSessionStreams :: "string \<Rightarrow> calls \<Rightarrow> calls" where
  "clearSessionStreams callId s =
     (if mhas (ca_local s) callId then emitStreams (s\<lparr>ca_local := mdel callId (ca_local s)\<rparr>)
      else if mhas (ca_remote s) callId then emitStreams (s\<lparr>ca_remote := mdel callId (ca_remote s)\<rparr>)
      else s)"

subsection \<open>Remote input\<close>

definition sendInput :: "nat \<Rightarrow> remote_input \<Rightarrow> calls \<Rightarrow> calls" where
  "sendInput a ev s = (if so_dc (obj a s) = None then s else upd_obj a (\<lambda>ob. ob\<lparr>so_inputs := so_inputs ob @ [ev]\<rparr>) s)"

definition sendRemoteInput :: "string \<Rightarrow> remote_input \<Rightarrow> calls \<Rightarrow> calls" where
  "sendRemoteInput callId ev s =
     (case mget (ca_sessions s) callId of
        None \<Rightarrow> s
      | Some a \<Rightarrow> if so_dc (obj a s) \<noteq> Some DcOpen then s else sendInput a ev s)"

text \<open>\<open>attachRemoteDatachannel\<close>: a channel that is not closed is used again.\<close>

definition attachRemoteDatachannel :: "string \<Rightarrow> string \<Rightarrow> calls \<Rightarrow> (nat \<times> bool) \<times> calls" where
  "attachRemoteDatachannel callId peerId s =
     (let (a, s1) = get_session callId peerId Remote s
      in if so_dc (obj a s1) \<noteq> None \<and> so_dc (obj a s1) \<noteq> Some DcClosed then ((a, False), s1)
         else ((a, True), upd_obj a (\<lambda>ob. ob\<lparr>so_dc := Some DcConnecting, so_log := so_log ob @ [LChannel]\<rparr>) s1))"

subsection \<open>Frame conditions\<close>

lemma obj_upd [simp]:
  "a < length (ca_heap s) \<Longrightarrow> obj a (upd_obj a f s) = f (obj a s)"
  "b \<noteq> a \<Longrightarrow> obj b (upd_obj a f s) = obj b s"
  by (simp_all add: obj_def upd_obj_def)

lemma obj_upd_eq: "obj b (upd_obj a f s) = (if b = a \<and> a < length (ca_heap s) then f (obj a s) else obj b s)"
  by (cases "a < length (ca_heap s)") (auto simp: obj_def upd_obj_def list_update_beyond)

lemma ca_patch [simp]:
  fixes s :: calls
  shows
    "ca_heap (patch p s) = ca_heap s"
    "ca_sessions (patch p s) = ca_sessions s"
    "ca_pending (patch p s) = ca_pending s"
    "ca_armed (patch p s) = ca_armed s"
    "ca_offer (patch p s) = ca_offer s"
    "ca_local (patch p s) = ca_local s"
    "ca_remote (patch p s) = ca_remote s"
    "ca_listeners (patch p s) = ca_listeners s"
    "ca_emitted (patch p s) = ca_emitted s"
    "ca_stopped (patch p s) = ca_stopped s"
    "ca_shareHeap (patch p s) = ca_shareHeap s"
    "ca_shares (patch p s) = ca_shares s"
    "ca_shareOf (patch p s) = ca_shareOf s"
    "ca_stopReq (patch p s) = ca_stopReq s"
    "ca_ctrl (patch p s) = ca_ctrl s"
  by (simp_all add: patch_def)

lemma ca_send [simp]:
  fixes s :: calls
  shows
    "ca_heap (send ns m d s) = ca_heap s"
    "ca_sessions (send ns m d s) = ca_sessions s"
    "ca_pending (send ns m d s) = ca_pending s"
    "ca_armed (send ns m d s) = ca_armed s"
    "ca_offer (send ns m d s) = ca_offer s"
    "ca_local (send ns m d s) = ca_local s"
    "ca_remote (send ns m d s) = ca_remote s"
    "ca_listeners (send ns m d s) = ca_listeners s"
    "ca_emitted (send ns m d s) = ca_emitted s"
    "ca_stopped (send ns m d s) = ca_stopped s"
    "ca_shareHeap (send ns m d s) = ca_shareHeap s"
    "ca_shares (send ns m d s) = ca_shares s"
    "ca_shareOf (send ns m d s) = ca_shareOf s"
    "ca_stopReq (send ns m d s) = ca_stopReq s"
    "ca_ctrl (send ns m d s) = ca_ctrl s"
  by (simp_all add: send_def req_def)

lemma ca_toast [simp]:
  fixes s :: calls
  shows
    "ca_heap (toast n s) = ca_heap s"
    "ca_sessions (toast n s) = ca_sessions s"
    "ca_pending (toast n s) = ca_pending s"
    "ca_armed (toast n s) = ca_armed s"
    "ca_offer (toast n s) = ca_offer s"
    "ca_local (toast n s) = ca_local s"
    "ca_remote (toast n s) = ca_remote s"
    "ca_listeners (toast n s) = ca_listeners s"
    "ca_emitted (toast n s) = ca_emitted s"
    "ca_stopped (toast n s) = ca_stopped s"
    "ca_shareHeap (toast n s) = ca_shareHeap s"
    "ca_shares (toast n s) = ca_shares s"
    "ca_shareOf (toast n s) = ca_shareOf s"
    "ca_stopReq (toast n s) = ca_stopReq s"
    "ca_ctrl (toast n s) = ca_ctrl s"
  by (simp_all add: toast_def)

lemma ca_upd_obj [simp]:
  fixes s :: calls
  shows
    "ca_sessions (upd_obj a f s) = ca_sessions s"
    "ca_pending (upd_obj a f s) = ca_pending s"
    "ca_armed (upd_obj a f s) = ca_armed s"
    "ca_offer (upd_obj a f s) = ca_offer s"
    "ca_local (upd_obj a f s) = ca_local s"
    "ca_remote (upd_obj a f s) = ca_remote s"
    "ca_listeners (upd_obj a f s) = ca_listeners s"
    "ca_emitted (upd_obj a f s) = ca_emitted s"
    "ca_stopped (upd_obj a f s) = ca_stopped s"
    "ca_shareHeap (upd_obj a f s) = ca_shareHeap s"
    "ca_shares (upd_obj a f s) = ca_shares s"
    "ca_shareOf (upd_obj a f s) = ca_shareOf s"
    "ca_stopReq (upd_obj a f s) = ca_stopReq s"
    "ca_ctrl (upd_obj a f s) = ca_ctrl s"
  by (simp_all add: upd_obj_def)

lemma ca_emitStreams [simp]:
  fixes s :: calls
  shows
    "ca_heap (emitStreams s) = ca_heap s"
    "ca_sessions (emitStreams s) = ca_sessions s"
    "ca_pending (emitStreams s) = ca_pending s"
    "ca_armed (emitStreams s) = ca_armed s"
    "ca_offer (emitStreams s) = ca_offer s"
    "ca_local (emitStreams s) = ca_local s"
    "ca_remote (emitStreams s) = ca_remote s"
    "ca_listeners (emitStreams s) = ca_listeners s"
    "ca_stopped (emitStreams s) = ca_stopped s"
    "ca_shareHeap (emitStreams s) = ca_shareHeap s"
    "ca_shares (emitStreams s) = ca_shares s"
    "ca_shareOf (emitStreams s) = ca_shareOf s"
    "ca_stopReq (emitStreams s) = ca_stopReq s"
    "ca_ctrl (emitStreams s) = ca_ctrl s"
  by (simp_all add: emitStreams_def)

lemma ca_clear [simp]:
  fixes s :: calls
  shows
    "ca_heap (clearSessionStreams c s) = ca_heap s"
    "ca_sessions (clearSessionStreams c s) = ca_sessions s"
    "ca_pending (clearSessionStreams c s) = ca_pending s"
    "ca_armed (clearSessionStreams c s) = ca_armed s"
    "ca_offer (clearSessionStreams c s) = ca_offer s"
    "ca_listeners (clearSessionStreams c s) = ca_listeners s"
    "ca_stopped (clearSessionStreams c s) = ca_stopped s"
    "ca_shareHeap (clearSessionStreams c s) = ca_shareHeap s"
    "ca_shares (clearSessionStreams c s) = ca_shares s"
    "ca_shareOf (clearSessionStreams c s) = ca_shareOf s"
    "ca_stopReq (clearSessionStreams c s) = ca_stopReq s"
    "ca_ctrl (clearSessionStreams c s) = ca_ctrl s"
  by (simp_all add: clearSessionStreams_def)

lemma upd_obj_ui [simp]:
  "ui_store (upd_obj a f s) = ui_store s" "ui_out (upd_obj a f s) = ui_out s" "ui_txn (upd_obj a f s) = ui_txn s"
  "sent (upd_obj a f s) = sent s" "length (ca_heap (upd_obj a f s)) = length (ca_heap s)"
  by (simp_all add: upd_obj_def sent_def)

lemma streams_ui [simp]:
  "ui_store (emitStreams s) = ui_store s" "sent (emitStreams s) = sent s"
  "ui_store (clearSessionStreams c s) = ui_store s" "sent (clearSessionStreams c s) = sent s"
  by (simp_all add: emitStreams_def clearSessionStreams_def sent_def)

lemma obj_frame [simp]:
  "obj a (patch p s) = obj a s" "obj a (toast n s) = obj a s" "obj a (send ns m d s) = obj a s"
  "obj a (emitStreams s) = obj a s" "obj a (clearSessionStreams c s) = obj a s"
  by (simp_all add: obj_def)

lemmas obj_ops = log_obj_def onSignal_def closeObj_def

text \<open>A new session takes any stream.\<close>

lemma newSession_obj:
  assumes "newSession callId peerId mode s = (a, s1)"
  shows "a = length (ca_heap s)" "length (ca_heap s1) = Suc a" "mget (ca_sessions s1) callId = Some a"
    "obj a s1 = \<lparr>so_callId = callId, so_peerId = peerId, so_mode = mode, so_dc = None, so_closed = False, so_log = [], so_inputs = []\<rparr>"
    "b < length (ca_heap s) \<Longrightarrow> obj b s1 = obj b s"
  using assms by (auto simp: newSession_def obj_def nth_append Let_def)

lemma addTrack_new: "so_log (obj a s) = [] \<Longrightarrow> \<not> so_closed (obj a s) \<Longrightarrow> addTrackFrom a stream s = Some (log_obj a (LTrack stream) s)"
  by (simp add: addTrackFrom_def)

subsection \<open>Streams of an ended call\<close>

text \<open>Ending a call that has both an own and a remote stream removes only the own one: the short
  circuit skips the second deletion, the remote stream stays registered and is still handed to the views;
  only a second clearing, or a call without an own stream, removes it.\<close>

theorem clear_leaves_remote:
  assumes "mget (ca_local s) c = Some l" "mget (ca_remote s) c = Some r"
  shows "sessionStreams c (clearSessionStreams c s) = (None, Some r)
    \<and> sessionStreams c (clearSessionStreams c (clearSessionStreams c s)) = (None, None)
    \<and> (\<forall>c'. c' \<noteq> c \<longrightarrow> sessionStreams c' (clearSessionStreams c s) = sessionStreams c' s)
    \<and> ca_emitted (clearSessionStreams c s) = ca_emitted s @ ca_listeners s"
  using assms by (simp add: clearSessionStreams_def sessionStreams_def emitStreams_def mhas_get)

theorem clear_leaves_remote_witness:
  "sessionStreams ''c'' (clearSessionStreams ''c'' (calls_init\<lparr>ca_local := [(''c'', 1)], ca_remote := [(''c'', 2)]\<rparr>))
     = (None, Some 2)"
  using clear_leaves_remote[of "calls_init\<lparr>ca_local := [(''c'', 1)], ca_remote := [(''c'', 2)]\<rparr>" "''c''" 1 2]
  by (simp add: mget_def)

end
