(* ===== verification/Room_Share.thy ===== *)
theory Room_Share
  imports Peer_Sessions
begin

text \<open>
  Sharing the desktop with a room (\<open>ui/src/client/webrtc.ts\<close>): starting and ending a share, kicking a
  viewer, requests of viewers to stop the share or to control it, and who controls it. The daemon's side
  of \<open>media.remote_host\<close> (\<open>native/core/daemon.cc\<close>) is modelled as far as it reads the flag, so that what
  the messages sent by the client do to the injection of input is part of the theorems.

  \<open>startRoomShare\<close> awaits several times: \<open>share_open\<close> is its part after the screen was captured,
  \<open>share_invite\<close> one turn of its loop, \<open>share_opened\<close> its end; \<open>startRoomShare\<close> composes them for a run
  without events in between.
\<close>

subsection \<open>The flag as the daemon reads it\<close>

text \<open>\<open>GetStr\<close>: the field when it is a string, else the fallback; other types count as absent.\<close>

definition getStr :: "json option \<Rightarrow> string \<Rightarrow> string \<Rightarrow> string" where
  "getStr d k fallback = (case d of None \<Rightarrow> fallback
     | Some j \<Rightarrow> (case jfield k j of Some (JStr v) \<Rightarrow> v | _ \<Rightarrow> fallback))"

definition hosting_step :: "bool \<Rightarrow> string \<times> string \<times> json option \<Rightarrow> bool" where
  "hosting_step h e = (case e of (ns, m, d) \<Rightarrow>
     if ns = ''media'' \<and> m = ''remote_host'' then getStr d ''on'' ''true'' = ''true'' else h)"

text \<open>Whether the daemon injects remote input after these messages.\<close>

definition hosting :: "(string \<times> string \<times> json option) list \<Rightarrow> bool" where
  "hosting msgs = foldl hosting_step False msgs"

definition host_text :: "bool \<Rightarrow> json" where
  "host_text b = JObj [(''on'', JStr (if b then ''true'' else ''false''))]"

definition host_bool :: "bool \<Rightarrow> json" where
  "host_bool b = JObj [(''on'', JBool b)]"

lemma hosting_simps [simp]:
  "hosting [] = False"
  "hosting (xs @ [(''media'', ''remote_host'', Some (host_text b))]) = b"
  "hosting (xs @ [(''media'', ''remote_host'', Some (host_bool b))])"
  "m \<noteq> ''remote_host'' \<Longrightarrow> hosting (xs @ [(ns, m, d)]) = hosting xs"
  by (simp_all add: hosting_def hosting_step_def getStr_def host_text_def host_bool_def)

subsection \<open>Shares\<close>

definition share_of :: "string \<Rightarrow> calls \<Rightarrow> room_share option" where
  "share_of rid s = map_option (\<lambda>a. ca_shareHeap s ! a) (mget (ca_shares s) rid)"

definition upd_share :: "nat \<Rightarrow> (room_share \<Rightarrow> room_share) \<Rightarrow> calls \<Rightarrow> calls" where
  "upd_share a f s = s\<lparr>ca_shareHeap := (ca_shareHeap s)[a := f (ca_shareHeap s ! a)]\<rparr>"

definition set_media :: "(media_session \<Rightarrow> media_session) \<Rightarrow> calls \<Rightarrow> calls" where
  "set_media f = patch (\<lambda>a. a\<lparr>media := map_option f (media a)\<rparr>)"

definition close_media :: "calls \<Rightarrow> calls" where
  "close_media = patch (\<lambda>a. a\<lparr>media := None\<rparr>)"

text \<open>The title of the overlay, in the bytes of its UTF-8 encoding.\<close>

definition share_title :: "string option \<Rightarrow> string" where
  "share_title nm = [CHR 0xE7, CHR 0xBE, CHR 0xA4, CHR 0xE5, CHR 0x85, CHR 0xB1, CHR 0xE4, CHR 0xBA, CHR 0xAB,
     CHR 0xC2, CHR 0xB7] @ (case nm of None \<Rightarrow> ''undefined'' | Some n \<Rightarrow> n)"

definition plain_session :: "string \<Rightarrow> media_peer \<Rightarrow> call_direction \<Rightarrow> call_state \<Rightarrow> media_session" where
  "plain_session callId peer dir st =
     \<lparr>ms_callId = callId, ms_peer = peer, ms_direction = dir, ms_state = st, ms_roomShare = False,
      ms_shareReq = None, ms_ctrlReq = None, ms_ctrl = False, ms_controllers = None\<rparr>"

text \<open>The members a share invites: those of the room that are on line.\<close>

definition online_members :: "string \<Rightarrow> calls \<Rightarrow> string list option" where
  "online_members rid s = (case mget (rooms (app s)) rid of None \<Rightarrow> None
     | Some r \<Rightarrow> Some (filter (\<lambda>m. mhas (peers (app s)) m) (members_of r)))"

definition share_open :: "string \<Rightarrow> string option \<Rightarrow> nat \<Rightarrow> calls \<Rightarrow> nat \<times> calls" where
  "share_open rid nm stream s =
     (let a = length (ca_shareHeap s);
          s1 = s\<lparr>ca_shareHeap := ca_shareHeap s @ [\<lparr>sh_roomId = rid, sh_stream = stream, sh_viewers = []\<rparr>],
                 ca_shares := mset_key rid a (ca_shares s)\<rparr>;
          s2 = setLocalStream rid (Some stream) s1;
          m = plain_session rid \<lparr>mp_deviceId = rid, mp_name = share_title nm, mp_mode = Share\<rparr> Outgoing Live
      in (a, patch (\<lambda>p. p\<lparr>media := Some (m\<lparr>ms_roomShare := True\<rparr>)\<rparr>) s2))"

definition invite_json :: "string \<Rightarrow> string \<Rightarrow> media_mode \<Rightarrow> string option \<Rightarrow> json" where
  "invite_json callId to mode rid = JObj ([(''callId'', JStr callId), (''to'', JStr to),
     (''mode'', JStr (mode_name mode)), (''direction'', JStr ''outgoing'')] @ opt_field ''roomId'' JStr rid)"

text \<open>One member: a session of its own, registered with the share object \<open>a\<close>, invited and offered.\<close>

definition share_invite :: "nat \<Rightarrow> string \<Rightarrow> string \<Rightarrow> string \<Rightarrow> nat \<Rightarrow> session_description \<Rightarrow> calls \<Rightarrow> calls" where
  "share_invite a rid m callId stream sd s =
     (let (x, s1) = newSession callId m Share s;
          s2 = upd_share a (\<lambda>sh. sh\<lparr>sh_viewers := mset_key m x (sh_viewers sh)\<rparr>) s1;
          s3 = s2\<lparr>ca_shareOf := mset_key callId rid (ca_shareOf s2)\<rparr>
      in case addTrackFrom x stream s3 of
           None \<Rightarrow> s3
         | Some s4 \<Rightarrow> sendOffer x sd (send ''media'' ''call_invite'' (Some (invite_json callId m Share (Some rid))) s4))"

text \<open>The session is new, so adding the tracks does not fail.\<close>

lemma share_invite_eq:
  "share_invite a rid m callId stream sd s =
     (let (x, s1) = newSession callId m Share s;
          s2 = upd_share a (\<lambda>sh. sh\<lparr>sh_viewers := mset_key m x (sh_viewers sh)\<rparr>) s1;
          s3 = s2\<lparr>ca_shareOf := mset_key callId rid (ca_shareOf s2)\<rparr>
      in sendOffer x sd (send ''media'' ''call_invite'' (Some (invite_json callId m Share (Some rid))) (log_obj x (LTrack stream) s3)))"
  by (simp add: share_invite_def newSession_def addTrackFrom_def obj_def upd_share_def Let_def)

definition share_opened :: "nat \<Rightarrow> calls \<Rightarrow> calls" where
  "share_opened n = toast (NShareStarted n)"

definition startRoomShare :: "string \<Rightarrow> nat \<Rightarrow> (string \<times> session_description) list \<Rightarrow> calls \<Rightarrow> (nat \<times> calls) option" where
  "startRoomShare rid stream ids s =
     (case online_members rid s of None \<Rightarrow> None
      | Some ms \<Rightarrow>
          (let nm = Option.bind (mget (rooms (app s)) rid) ri_name;
               (a, s1) = share_open rid nm stream s;
               s2 = fold (\<lambda>(m, c, sd). share_invite a rid m c stream sd) (zip ms ids) s1
           in Some (length ms, share_opened (length ms) s2)))"

subsection \<open>Ending a share\<close>

definition drop_share_call :: "string \<Rightarrow> calls \<Rightarrow> calls" where
  "drop_share_call cid s =
     (let s1 = (case mget (ca_sessions s) cid of None \<Rightarrow> s | Some a \<Rightarrow> closeObj a s)
      in s1\<lparr>ca_sessions := mdel cid (ca_sessions s1), ca_pending := mdel cid (ca_pending s1),
            ca_shareOf := mdel cid (ca_shareOf s1)\<rparr>)"

definition calls_of_share :: "string \<Rightarrow> calls \<Rightarrow> string list" where
  "calls_of_share rid s = map fst (filter (\<lambda>e. snd e = rid) (ca_shareOf s))"

definition disarm :: "calls \<Rightarrow> calls" where
  "disarm = send ''media'' ''remote_host'' (Some (host_text False))"

definition endRoomShare :: "string \<Rightarrow> calls \<Rightarrow> calls" where
  "endRoomShare rid s =
     (let s1 = (case share_of rid s of None \<Rightarrow> s
                | Some sh \<Rightarrow> (let t = fold hangup (mvals (sh_viewers sh)) s
                             in t\<lparr>ca_stopped := ca_stopped t @ [sh_stream sh]\<rparr>));
          s2 = disarm s1;
          s3 = fold drop_share_call (calls_of_share rid s2) s2;
          s4 = s3\<lparr>ca_shares := mdel rid (ca_shares s3), ca_ctrl := mdel rid (ca_ctrl s3)\<rparr>
      in close_media (clearSessionStreams rid s4))"

definition roomShareViewers :: "string \<Rightarrow> calls \<Rightarrow> string list" where
  "roomShareViewers rid s = (case share_of rid s of None \<Rightarrow> [] | Some sh \<Rightarrow> mkeys (sh_viewers sh))"

definition roomShareViewerCount :: "string \<Rightarrow> calls \<Rightarrow> nat" where
  "roomShareViewerCount rid s = length (roomShareViewers rid s)"

definition roomShareControllers :: "string \<Rightarrow> calls \<Rightarrow> string list" where
  "roomShareControllers rid s = (case mget (ca_ctrl s) rid of None \<Rightarrow> [] | Some l \<Rightarrow> l)"

text \<open>\<open>ctrlMembers.get(roomId)?.delete(member)\<close>.\<close>

definition drop_ctrl :: "string \<Rightarrow> string \<Rightarrow> calls \<Rightarrow> calls" where
  "drop_ctrl rid mid s = (case mget (ca_ctrl s) rid of None \<Rightarrow> s
     | Some l \<Rightarrow> s\<lparr>ca_ctrl := mset_key rid (set_del mid l) (ca_ctrl s)\<rparr>)"

definition syncShareControllers :: "string \<Rightarrow> bool \<Rightarrow> bool \<Rightarrow> calls \<Rightarrow> calls" where
  "syncShareControllers rid clearReq disarming s =
     (let l = roomShareControllers rid s;
          s1 = (case media (app s) of
                  Some m \<Rightarrow> if ms_roomShare m \<and> ms_callId m = rid
                    then patch (\<lambda>a. a\<lparr>media := Some (m\<lparr>ms_controllers := Some l,
                           ms_ctrlReq := (if clearReq then None else ms_ctrlReq m)\<rparr>)\<rparr>) s
                    else s
                | None \<Rightarrow> s)
      in if disarming \<and> l = [] then disarm s1 else s1)"

definition endRoomShareViewer :: "string \<Rightarrow> string \<Rightarrow> calls \<Rightarrow> bool \<times> calls" where
  "endRoomShareViewer rid mid s =
     (case mget (ca_shares s) rid of None \<Rightarrow> (False, s)
      | Some a \<Rightarrow>
         (case mget (sh_viewers (ca_shareHeap s ! a)) mid of None \<Rightarrow> (False, s)
          | Some x \<Rightarrow>
             (let s1 = hangup x s;
                  s2 = upd_share a (\<lambda>sh. sh\<lparr>sh_viewers := mdel mid (sh_viewers sh)\<rparr>) s1;
                  s3 = fold (\<lambda>cid t. if mget (ca_sessions t) cid = Some x
                                     then clearSessionStreams cid (drop_share_call cid t) else t)
                         (calls_of_share rid s2) s2;
                  s4 = drop_ctrl rid mid (s3\<lparr>ca_stopReq := mdel rid (ca_stopReq s3)\<rparr>);
                  vs = sh_viewers (ca_shareHeap s4 ! a)
              in (True, if vs = [] then endRoomShare rid s4
                        else toast (NViewerKicked (length vs)) (syncShareControllers rid False True s4)))))"

subsection \<open>Requests to stop\<close>

definition media_peer_id :: "calls \<Rightarrow> string option" where
  "media_peer_id s = truthy (map_option (\<lambda>m. mp_deviceId (ms_peer m)) (media (app s)))"

definition room_json :: "string \<Rightarrow> string \<Rightarrow> json" where
  "room_json to rid = JObj [(''to'', JStr to), (''roomId'', JStr rid)]"

definition verdict_json :: "string \<Rightarrow> string \<Rightarrow> bool \<Rightarrow> json" where
  "verdict_json to rid ok = JObj [(''to'', JStr to), (''roomId'', JStr rid), (''approved'', JBool ok)]"

definition peer_label :: "string \<Rightarrow> calls \<Rightarrow> string" where
  "peer_label did s = (case mget (peers (app s)) did of None \<Rightarrow> did | Some p \<Rightarrow> pi_name p)"

text \<open>Viewer: \<open>requestRoomShareStop\<close>, \<open>requestShareControl\<close>.\<close>

definition requestRoomShareStop :: "string \<Rightarrow> calls \<Rightarrow> bool \<times> calls" where
  "requestRoomShareStop rid s = (case media_peer_id s of None \<Rightarrow> (False, s)
     | Some h \<Rightarrow> (True, toast NStopRequested (send ''media'' ''room_share_stop_request'' (Some (room_json h rid)) s)))"

definition requestShareControl :: "string \<Rightarrow> calls \<Rightarrow> bool \<times> calls" where
  "requestShareControl callId s = (case media_peer_id s of None \<Rightarrow> (False, s)
     | Some h \<Rightarrow> (True, toast NControlRequested (send ''media'' ''share_control_request'' (Some (room_json h callId)) s)))"

text \<open>Host: whether the overlay on display is that of the share.\<close>

definition share_overlay :: "string \<Rightarrow> calls \<Rightarrow> bool" where
  "share_overlay rid s = (case media (app s) of None \<Rightarrow> False | Some m \<Rightarrow> ms_roomShare m \<and> ms_callId m = rid)"

definition on_stop_request :: "string \<Rightarrow> string \<Rightarrow> calls \<Rightarrow> calls" where
  "on_stop_request rid from s =
     (if \<not> mhas (ca_shares s) rid then s
      else (let s1 = s\<lparr>ca_stopReq := mset_key rid from (ca_stopReq s)\<rparr>; nm = peer_label from s1
            in if share_overlay rid s1 then set_media (\<lambda>m. m\<lparr>ms_shareReq := Some (from, nm)\<rparr>) s1
               else toast (NAskStop nm) s1))"

definition on_stop_ack :: "bool \<Rightarrow> calls \<Rightarrow> calls" where
  "on_stop_ack approved = toast (if approved then NStopApproved else NStopIgnored)"

definition resolveRoomShareStopRequest :: "string \<Rightarrow> string \<Rightarrow> bool \<Rightarrow> calls \<Rightarrow> bool \<times> calls" where
  "resolveRoomShareStopRequest rid mid approve s =
     (if \<not> mhas (ca_shares s) rid then (False, s)
      else (let s1 = s\<lparr>ca_stopReq := mdel rid (ca_stopReq s)\<rparr>;
                s2 = send ''media'' ''room_share_stop_ack'' (Some (verdict_json mid rid approve)) s1
            in (True, if approve then endRoomShare rid s2
                      else set_media (\<lambda>m. m\<lparr>ms_shareReq := None\<rparr>) s2)))"

subsection \<open>Control of a share\<close>

definition roomShareForMember :: "string \<Rightarrow> calls \<Rightarrow> string option" where
  "roomShareForMember mid s =
     map_option fst (find (\<lambda>(rid, a). mhas (sh_viewers (ca_shareHeap s ! a)) mid) (ca_shares s))"

definition on_control_request :: "string \<Rightarrow> calls \<Rightarrow> calls" where
  "on_control_request from s =
     (case truthy (roomShareForMember from s) of None \<Rightarrow> s
      | Some rid \<Rightarrow>
         (let nm = peer_label from s
          in if share_overlay rid s then set_media (\<lambda>m. m\<lparr>ms_ctrlReq := Some (from, nm)\<rparr>) s
             else toast (NAskControl nm) s))"

definition resolveShareControlRequest :: "string \<Rightarrow> bool \<Rightarrow> string option \<Rightarrow> calls \<Rightarrow> bool \<times> calls" where
  "resolveShareControlRequest mid approve roomId s =
     (case truthy (case roomId of Some r \<Rightarrow> Some r | None \<Rightarrow> roomShareForMember mid s) of
        None \<Rightarrow> (False, s)
      | Some rid \<Rightarrow>
         (let s1 = (if approve
                    then send ''media'' ''remote_host'' (Some (host_text True))
                           (s\<lparr>ca_ctrl := mset_key rid (set_add mid (roomShareControllers rid s)) (ca_ctrl s)\<rparr>)
                    else s);
              s2 = send ''media'' ''share_control_grant'' (Some (verdict_json mid rid approve)) s1
          in (True, syncShareControllers rid True False s2)))"

definition revokeShareControl :: "string \<Rightarrow> string \<Rightarrow> calls \<Rightarrow> bool \<times> calls" where
  "revokeShareControl rid mid s =
     (if \<not> mhas (ca_shares s) rid \<or> mid \<notin> set (roomShareControllers rid s) then (False, s)
      else (let s1 = drop_ctrl rid mid s;
                s2 = send ''media'' ''share_control_revoke'' (Some (room_json mid rid)) s1;
                s3 = syncShareControllers rid False True s2
            in (True, toast (NYouRevoked (peer_label mid s)) s3)))"

definition on_control_release :: "string \<Rightarrow> calls \<Rightarrow> calls" where
  "on_control_release from s =
     (case truthy (roomShareForMember from s) of None \<Rightarrow> s
      | Some rid \<Rightarrow> toast (NControlReleased (peer_label from s)) (syncShareControllers rid False True (drop_ctrl rid from s)))"

text \<open>Viewer: taking and leaving control. \<open>exn\<close>: the message of the exception when the channel cannot
  be created; \<open>sd\<close>: the offer of the renegotiation.\<close>

definition enableShareControl :: "string \<Rightarrow> string \<Rightarrow> string option \<Rightarrow> session_description \<Rightarrow> calls \<Rightarrow> (string, unit) sum \<times> calls" where
  "enableShareControl callId hostId exn sd s =
     (let (a, s1) = get_session callId hostId Remote s;
          reuse = (so_dc (obj a s1) \<noteq> None \<and> so_dc (obj a s1) \<noteq> Some DcClosed)
      in case (if reuse then None else exn) of
           Some msg \<Rightarrow> (Inl msg, toast (NControlFailed msg) s1)
         | None \<Rightarrow>
             (let ((b, created), s2) = attachRemoteDatachannel callId hostId s;
                  s3 = (if created then sendOffer b sd s2 else s2)
              in (Inr (), set_media (\<lambda>m. m\<lparr>ms_ctrl := True\<rparr>) s3)))"

definition disableShareControl :: "string option \<Rightarrow> calls \<Rightarrow> calls" where
  "disableShareControl callId s =
     (let cid = truthy (case callId of Some c \<Rightarrow> Some c | None \<Rightarrow> map_option ms_callId (media (app s)));
          s1 = (case (media_peer_id s, cid) of
                  (Some h, Some c) \<Rightarrow> send ''media'' ''share_control_release'' (Some (room_json h c)) s
                | _ \<Rightarrow> s)
      in set_media (\<lambda>m. m\<lparr>ms_ctrl := False\<rparr>) s1)"

definition on_control_grant :: "bool \<Rightarrow> string option \<Rightarrow> session_description \<Rightarrow> calls \<Rightarrow> calls" where
  "on_control_grant approved exn sd s =
     (if approved
      then (case media (app s) of
              None \<Rightarrow> s
            | Some m \<Rightarrow> if mp_mode (ms_peer m) = Share \<and> mp_deviceId (ms_peer m) \<noteq> []
                then snd (enableShareControl (ms_callId m) (mp_deviceId (ms_peer m)) exn sd s) else s)
      else toast NControlDenied s)"

definition on_control_revoke :: "calls \<Rightarrow> calls" where
  "on_control_revoke s =
     (case media (app s) of
        None \<Rightarrow> s
      | Some m \<Rightarrow> if mp_mode (ms_peer m) \<noteq> Share then s
                  else toast NControlRevoked (disableShareControl (Some (ms_callId m)) s))"

subsection \<open>What the operations do to shares, controllers and the injection\<close>

lemma sent_update [simp]:
  "sent (s\<lparr>ca_shares := x1\<rparr>) = sent s" "sent (s\<lparr>ca_ctrl := x2\<rparr>) = sent s" "sent (s\<lparr>ca_stopReq := x3\<rparr>) = sent s"
  "sent (s\<lparr>ca_stopped := x4\<rparr>) = sent s" "sent (s\<lparr>ca_shareHeap := x5\<rparr>) = sent s" "sent (s\<lparr>ca_shareOf := x6\<rparr>) = sent s"
  "sent (s\<lparr>ca_heap := x7\<rparr>) = sent s" "sent (s\<lparr>ca_sessions := x8\<rparr>) = sent s" "sent (s\<lparr>ca_local := x9\<rparr>) = sent s"
  "sent (s\<lparr>ca_pending := x10\<rparr>) = sent s" "sent (s\<lparr>ca_armed := x11\<rparr>) = sent s" "sent (s\<lparr>ca_offer := x12\<rparr>) = sent s"
  by (simp_all add: sent_def)

lemma ca_set_media [simp]:
  fixes s :: calls
  shows
    "ca_heap (set_media f s) = ca_heap s"
    "ca_sessions (set_media f s) = ca_sessions s"
    "ca_pending (set_media f s) = ca_pending s"
    "ca_armed (set_media f s) = ca_armed s"
    "ca_offer (set_media f s) = ca_offer s"
    "ca_local (set_media f s) = ca_local s"
    "ca_remote (set_media f s) = ca_remote s"
    "ca_listeners (set_media f s) = ca_listeners s"
    "ca_emitted (set_media f s) = ca_emitted s"
    "ca_stopped (set_media f s) = ca_stopped s"
    "ca_shareHeap (set_media f s) = ca_shareHeap s"
    "ca_shares (set_media f s) = ca_shares s"
    "ca_shareOf (set_media f s) = ca_shareOf s"
    "ca_stopReq (set_media f s) = ca_stopReq s"
    "ca_ctrl (set_media f s) = ca_ctrl s"
    "sent (set_media f s) = sent s"
  by (simp_all add: set_media_def)

lemma ca_close_media [simp]:
  fixes s :: calls
  shows
    "ca_heap (close_media s) = ca_heap s"
    "ca_sessions (close_media s) = ca_sessions s"
    "ca_pending (close_media s) = ca_pending s"
    "ca_armed (close_media s) = ca_armed s"
    "ca_offer (close_media s) = ca_offer s"
    "ca_local (close_media s) = ca_local s"
    "ca_remote (close_media s) = ca_remote s"
    "ca_listeners (close_media s) = ca_listeners s"
    "ca_emitted (close_media s) = ca_emitted s"
    "ca_stopped (close_media s) = ca_stopped s"
    "ca_shareHeap (close_media s) = ca_shareHeap s"
    "ca_shares (close_media s) = ca_shares s"
    "ca_shareOf (close_media s) = ca_shareOf s"
    "ca_stopReq (close_media s) = ca_stopReq s"
    "ca_ctrl (close_media s) = ca_ctrl s"
    "sent (close_media s) = sent s"
  by (simp_all add: close_media_def)

text \<open>The part of the state that decides who can inject input.\<close>

record host_view =
  hv_shares :: "(string, nat) jsmap"
  hv_heap :: "room_share list"
  hv_ctrl :: "(string, string list) jsmap"
  hv_host :: bool

definition host_view :: "calls \<Rightarrow> host_view" where
  "host_view s = \<lparr>hv_shares = ca_shares s, hv_heap = ca_shareHeap s, hv_ctrl = ca_ctrl s, hv_host = hosting (sent s)\<rparr>"

lemma host_view_frame [simp]:
  "host_view (patch p s) = host_view s" "host_view (toast n s) = host_view s"
  "host_view (upd_obj a f s) = host_view s" "host_view (emitStreams s) = host_view s"
  "host_view (clearSessionStreams c s) = host_view s" "host_view (set_media g s) = host_view s"
  "host_view (close_media s) = host_view s"
  "m \<noteq> ''remote_host'' \<Longrightarrow> host_view (send ns m d s) = host_view s"
  by (simp_all add: host_view_def)

lemma host_view_drop_call [simp]: "host_view (drop_share_call c s) = host_view s"
  by (cases "mget (ca_sessions s) c") (simp_all add: host_view_def drop_share_call_def closeObj_def)

lemma host_view_hangup [simp]: "host_view (hangup a s) = host_view s"
  by (simp add: hangup_def closeObj_def)

lemma host_view_fold:
  "(\<And>x t. host_view (f x t) = host_view t) \<Longrightarrow> host_view (fold f xs s) = host_view s"
  by (induction xs arbitrary: s) auto

lemma host_view_disarm [simp]: "host_view (disarm s) = (host_view s)\<lparr>hv_host := False\<rparr>"
  by (simp add: host_view_def disarm_def)

lemma host_view_end:
  "host_view (endRoomShare rid s) = (host_view s)
     \<lparr>hv_shares := mdel rid (ca_shares s), hv_ctrl := mdel rid (ca_ctrl s), hv_host := False\<rparr>"
proof -
  define s1 where "s1 = (case share_of rid s of None \<Rightarrow> s
      | Some sh \<Rightarrow> (let t = fold hangup (mvals (sh_viewers sh)) s in t\<lparr>ca_stopped := ca_stopped t @ [sh_stream sh]\<rparr>))"
  have stop: "host_view (t\<lparr>ca_stopped := x\<rparr>) = host_view t" for t x by (simp add: host_view_def)
  have 1: "host_view s1 = host_view s"
    by (auto simp: s1_def Let_def stop host_view_fold[of hangup] split: option.split)
  define s3 where "s3 = fold drop_share_call (calls_of_share rid (disarm s1)) (disarm s1)"
  have 3: "host_view s3 = (host_view s)\<lparr>hv_host := False\<rparr>"
    by (simp add: s3_def host_view_fold[of drop_share_call] 1)
  have "endRoomShare rid s = close_media (clearSessionStreams rid
      (s3\<lparr>ca_shares := mdel rid (ca_shares s3), ca_ctrl := mdel rid (ca_ctrl s3)\<rparr>))"
    by (simp add: endRoomShare_def Let_def s3_def s1_def)
  moreover have "ca_shares s3 = ca_shares s" "ca_ctrl s3 = ca_ctrl s" "ca_shareHeap s3 = ca_shareHeap s" "\<not> hosting (sent s3)"
    using 3 by (simp_all add: host_view_def)
  ultimately show ?thesis by (simp add: host_view_def)
qed

lemma host_view_sync:
  "host_view (syncShareControllers rid c d s) =
     (if d \<and> roomShareControllers rid s = [] then (host_view s)\<lparr>hv_host := False\<rparr> else host_view s)"
  by (simp add: syncShareControllers_def Let_def split: option.split)

lemma host_view_drop_ctrl:
  "host_view (drop_ctrl rid mid s) = (host_view s)\<lparr>hv_ctrl := ca_ctrl (drop_ctrl rid mid s)\<rparr>"
  by (simp add: drop_ctrl_def host_view_def split: option.split)

lemma controllers_drop:
  "roomShareControllers r (drop_ctrl rid mid s) =
     (if r = rid then set_del mid (roomShareControllers rid s) else roomShareControllers r s)"
  by (auto simp: drop_ctrl_def roomShareControllers_def set_del_def split: option.split)

subsection \<open>Input is injected only for a controlling viewer\<close>

text \<open>
  The host's side as a transition system. \<open>HOpen\<close> is taken only when the room is not being shared
  (sharing it a second time is the subject of \<open>reshare_leaks\<close>); \<open>HInvite\<close> may come at any time, also
  after the share was ended, because the loop of \<open>startRoomShare\<close> goes on.
\<close>

datatype host_event =
    HOpen string "string option" nat
  | HInvite nat string string string nat session_description
  | HStopRequest string string
  | HStopResolve string string bool
  | HControlRequest string
  | HControlResolve string bool
  | HRelease string
  | HRevoke string string
  | HKick string string
  | HEnd string

fun host_step :: "host_event \<Rightarrow> calls \<Rightarrow> calls" where
  "host_step (HOpen rid nm stream) s = (if mhas (ca_shares s) rid then s else snd (share_open rid nm stream s))"
| "host_step (HInvite a rid m c stream sd) s =
     (if a < length (ca_shareHeap s) then share_invite a rid m c stream sd s else s)"
| "host_step (HStopRequest rid from) s = on_stop_request rid from s"
| "host_step (HStopResolve rid mid ok) s = snd (resolveRoomShareStopRequest rid mid ok s)"
| "host_step (HControlRequest from) s = on_control_request from s"
| "host_step (HControlResolve mid ok) s = snd (resolveShareControlRequest mid ok None s)"
| "host_step (HRelease from) s = on_control_release from s"
| "host_step (HRevoke rid mid) s = snd (revokeShareControl rid mid s)"
| "host_step (HKick rid mid) s = snd (endRoomShareViewer rid mid s)"
| "host_step (HEnd rid) s = endRoomShare rid s"

definition host_ok :: "host_view \<Rightarrow> bool" where
  "host_ok v \<longleftrightarrow> mwf (hv_shares v)
   \<and> (\<forall>rid a. mget (hv_shares v) rid = Some a \<longrightarrow> a < length (hv_heap v))
   \<and> (\<forall>rid rid' a. mget (hv_shares v) rid = Some a \<and> mget (hv_shares v) rid' = Some a \<longrightarrow> rid = rid')
   \<and> (\<forall>rid l mid. mget (hv_ctrl v) rid = Some l \<and> mid \<in> set l \<longrightarrow>
        (\<exists>a. mget (hv_shares v) rid = Some a \<and> mhas (sh_viewers (hv_heap v ! a)) mid))
   \<and> (hv_host v \<longrightarrow> (\<exists>rid l. mget (hv_ctrl v) rid = Some l \<and> l \<noteq> []))"

lemma ok_end:
  assumes "host_ok v"
  shows "host_ok (v\<lparr>hv_shares := mdel rid (hv_shares v), hv_ctrl := mdel rid (hv_ctrl v), hv_host := False\<rparr>)"
  using assms unfolding host_ok_def by (auto split: if_splits)

lemma ok_open:
  assumes ok: "host_ok v" and new: "\<not> mhas (hv_shares v) rid"
  shows "host_ok (v\<lparr>hv_shares := mset_key rid (length (hv_heap v)) (hv_shares v), hv_heap := hv_heap v @ [sh]\<rparr>)"
proof -
  have lt: "a < length (hv_heap v)" if "mget (hv_shares v) r = Some a" for r a
    using ok that by (auto simp: host_ok_def)
  have ctrl: "\<exists>a. mget (hv_shares v) r = Some a \<and> r \<noteq> rid \<and> a < length (hv_heap v) \<and> mhas (sh_viewers (hv_heap v ! a)) mid"
    if "mget (hv_ctrl v) r = Some l" "mid \<in> set l" for r l mid
    using ok new that lt unfolding host_ok_def by (metis mhas_get option.distinct(1))
  show ?thesis
    unfolding host_ok_def
  proof (intro conjI allI impI)
    show "mwf (hv_shares (v\<lparr>hv_shares := mset_key rid (length (hv_heap v)) (hv_shares v), hv_heap := hv_heap v @ [sh]\<rparr>))"
      using ok by (simp add: host_ok_def)
  next
    fix r a assume "mget (hv_shares (v\<lparr>hv_shares := mset_key rid (length (hv_heap v)) (hv_shares v), hv_heap := hv_heap v @ [sh]\<rparr>)) r = Some a"
    then show "a < length (hv_heap (v\<lparr>hv_shares := mset_key rid (length (hv_heap v)) (hv_shares v), hv_heap := hv_heap v @ [sh]\<rparr>))"
      using lt by (auto split: if_splits intro: less_SucI)
  next
    fix r r' a
    assume "mget (hv_shares (v\<lparr>hv_shares := mset_key rid (length (hv_heap v)) (hv_shares v), hv_heap := hv_heap v @ [sh]\<rparr>)) r = Some a
      \<and> mget (hv_shares (v\<lparr>hv_shares := mset_key rid (length (hv_heap v)) (hv_shares v), hv_heap := hv_heap v @ [sh]\<rparr>)) r' = Some a"
    then show "r = r'" using ok lt by (auto simp: host_ok_def split: if_splits)
  next
    fix r l mid
    assume "mget (hv_ctrl (v\<lparr>hv_shares := mset_key rid (length (hv_heap v)) (hv_shares v), hv_heap := hv_heap v @ [sh]\<rparr>)) r = Some l \<and> mid \<in> set l"
    then show "\<exists>a. mget (hv_shares (v\<lparr>hv_shares := mset_key rid (length (hv_heap v)) (hv_shares v), hv_heap := hv_heap v @ [sh]\<rparr>)) r = Some a
        \<and> mhas (sh_viewers (hv_heap (v\<lparr>hv_shares := mset_key rid (length (hv_heap v)) (hv_shares v), hv_heap := hv_heap v @ [sh]\<rparr>) ! a)) mid"
      using ctrl[of r l mid] by (auto simp: nth_append)
  next
    assume "hv_host (v\<lparr>hv_shares := mset_key rid (length (hv_heap v)) (hv_shares v), hv_heap := hv_heap v @ [sh]\<rparr>)"
    then show "\<exists>r l. mget (hv_ctrl (v\<lparr>hv_shares := mset_key rid (length (hv_heap v)) (hv_shares v), hv_heap := hv_heap v @ [sh]\<rparr>)) r = Some l \<and> l \<noteq> []"
      using ok by (simp add: host_ok_def)
  qed
qed

text \<open>Changing the viewers of one share, as long as every controller of its room stays a viewer.\<close>

lemma ok_viewers:
  assumes ok: "host_ok v"
    and keep: "\<And>rid l mid. mget (hv_shares v) rid = Some a \<Longrightarrow> mget (hv_ctrl v) rid = Some l \<Longrightarrow> mid \<in> set l \<Longrightarrow>
      mhas (sh_viewers (hv_heap v ! a)) mid \<Longrightarrow> mhas (sh_viewers (f (hv_heap v ! a))) mid"
  shows "host_ok (v\<lparr>hv_heap := (hv_heap v)[a := f (hv_heap v ! a)]\<rparr>)"
proof -
  have "\<exists>b. mget (hv_shares v) r = Some b \<and> mhas (sh_viewers ((hv_heap v)[a := f (hv_heap v ! a)] ! b)) mid"
    if l: "mget (hv_ctrl v) r = Some l" "mid \<in> set l" for r l mid
  proof -
    from ok l obtain b where b: "mget (hv_shares v) r = Some b" "mhas (sh_viewers (hv_heap v ! b)) mid" "b < length (hv_heap v)"
      unfolding host_ok_def by blast
    then show ?thesis using keep[of r l mid] l by (cases "b = a") auto
  qed
  then show ?thesis using ok by (simp add: host_ok_def)
qed

text \<open>Taking control from a member: injection goes off with the last controller of the room.\<close>

lemma ok_drop:
  assumes ok: "host_ok v" and l: "mget (hv_ctrl v) rid = Some l"
    and h: "h \<longrightarrow> hv_host v \<and> set_del mid l \<noteq> []"
  shows "host_ok (v\<lparr>hv_ctrl := mset_key rid (set_del mid l) (hv_ctrl v), hv_host := h\<rparr>)"
proof -
  have "\<exists>a. mget (hv_shares v) rid = Some a \<and> mhas (sh_viewers (hv_heap v ! a)) m" if "m \<in> set (set_del mid l)" for m
    using ok l that unfolding host_ok_def set_set_del by blast
  then show ?thesis
    using ok h unfolding host_ok_def by auto
qed

lemma ok_off: "host_ok v \<Longrightarrow> host_ok (v\<lparr>hv_host := False\<rparr>)"
  unfolding host_ok_def by (simp, blast)

lemma ok_ctrlD:
  "host_ok v \<Longrightarrow> mget (hv_ctrl v) r = Some l \<Longrightarrow> m \<in> set l \<Longrightarrow>
   \<exists>a. mget (hv_shares v) r = Some a \<and> mhas (sh_viewers (hv_heap v ! a)) m"
  unfolding host_ok_def by blast

lemma ok_grant:
  assumes ok: "host_ok v" and a: "mget (hv_shares v) rid = Some a" "mhas (sh_viewers (hv_heap v ! a)) mid"
  shows "host_ok (v\<lparr>hv_ctrl := mset_key rid (set_add mid (case mget (hv_ctrl v) rid of None \<Rightarrow> [] | Some l \<Rightarrow> l)) (hv_ctrl v),
     hv_host := True\<rparr>)"
proof -
  have "\<exists>a. mget (hv_shares v) rid = Some a \<and> mhas (sh_viewers (hv_heap v ! a)) m"
    if "m \<in> insert mid (set (case mget (hv_ctrl v) rid of None \<Rightarrow> [] | Some l \<Rightarrow> l))" for m
    using a that ok_ctrlD[OF ok, of rid _ m] by (cases "mget (hv_ctrl v) rid") auto
  moreover have "set_add mid xs \<noteq> []" for xs by (auto simp: set_add_def)
  ultimately show ?thesis
    using ok unfolding host_ok_def by auto
qed

lemma view_simps [simp]:
  "hv_shares (host_view s) = ca_shares s" "hv_heap (host_view s) = ca_shareHeap s" "hv_ctrl (host_view s) = ca_ctrl s"
  "hv_host (host_view s) = hosting (sent s)"
  by (simp_all add: host_view_def)

definition host_inv :: "calls \<Rightarrow> bool" where
  "host_inv s \<longleftrightarrow> host_ok (host_view s)"

definition host_start :: "calls \<Rightarrow> bool" where
  "host_start s \<longleftrightarrow> ca_shares s = [] \<and> ca_ctrl s = [] \<and> \<not> hosting (sent s)"

lemma inv_end: "host_inv s \<Longrightarrow> host_inv (endRoomShare rid s)"
  using ok_end[of "host_view s" rid] by (simp add: host_inv_def host_view_end)

lemma inv_open: "host_inv s \<Longrightarrow> \<not> mhas (ca_shares s) rid \<Longrightarrow> host_inv (snd (share_open rid nm stream s))"
proof -
  assume i: "host_inv s" and n: "\<not> mhas (ca_shares s) rid"
  have "host_view (snd (share_open rid nm stream s)) = (host_view s)
      \<lparr>hv_shares := mset_key rid (length (ca_shareHeap s)) (ca_shares s),
       hv_heap := ca_shareHeap s @ [\<lparr>sh_roomId = rid, sh_stream = stream, sh_viewers = []\<rparr>]\<rparr>"
    by (simp add: share_open_def Let_def setLocalStream_def host_view_def)
  with ok_open[of "host_view s" rid] i n show ?thesis by (simp add: host_inv_def)
qed

lemma inv_invite: "host_inv s \<Longrightarrow> host_inv (share_invite a rid m c stream sd s)"
proof -
  assume i: "host_inv s"
  have "host_view (share_invite a rid m c stream sd s) = (host_view s)
      \<lparr>hv_heap := (ca_shareHeap s)[a := (\<lambda>sh. sh\<lparr>sh_viewers := mset_key m (length (ca_heap s)) (sh_viewers sh)\<rparr>) (ca_shareHeap s ! a)]\<rparr>"
    by (simp add: share_invite_eq newSession_def sendOffer_def obj_ops Let_def) (simp add: host_view_def upd_share_def)
  with ok_viewers[of "host_view s" a "\<lambda>sh. sh\<lparr>sh_viewers := mset_key m (length (ca_heap s)) (sh_viewers sh)\<rparr>"] i
  show ?thesis by (simp add: host_inv_def)
qed

lemma view_stopReq [simp]: "host_view (s\<lparr>ca_stopReq := x\<rparr>) = host_view s"
  by (simp add: host_view_def)

lemma inv_stop_request: "host_inv s \<Longrightarrow> host_inv (on_stop_request rid from s)"
  by (simp add: on_stop_request_def Let_def host_inv_def)

lemma inv_stop_resolve: "host_inv s \<Longrightarrow> host_inv (snd (resolveRoomShareStopRequest rid mid ok s))"
proof -
  assume i: "host_inv s"
  have "host_inv (endRoomShare rid (send ''media'' ''room_share_stop_ack'' d (s\<lparr>ca_stopReq := x\<rparr>)))" for d x
    by (rule inv_end) (use i in \<open>simp add: host_inv_def\<close>)
  then show ?thesis using i by (simp add: resolveRoomShareStopRequest_def Let_def) (simp add: host_inv_def)
qed

lemma inv_control_request: "host_inv s \<Longrightarrow> host_inv (on_control_request from s)"
  by (simp add: on_control_request_def Let_def host_inv_def split: option.split)

lemma drop_sync_view:
  "host_view (syncShareControllers rid c True (drop_ctrl rid mid s)) =
     (case mget (ca_ctrl s) rid of
        None \<Rightarrow> (host_view s)\<lparr>hv_host := False\<rparr>
      | Some l \<Rightarrow> (host_view s)\<lparr>hv_ctrl := mset_key rid (set_del mid l) (ca_ctrl s),
                              hv_host := (hosting (sent s) \<and> set_del mid l \<noteq> [])\<rparr>)"
  by (simp add: host_view_sync controllers_drop) (auto simp: roomShareControllers_def drop_ctrl_def host_view_def set_del_def split: option.split)

lemma inv_drop_sync: "host_inv s \<Longrightarrow> host_inv (syncShareControllers rid c True (drop_ctrl rid mid s))"
  using ok_off[of "host_view s"] ok_drop[of "host_view s" rid]
  by (simp add: host_inv_def drop_sync_view split: option.split)

lemma inv_release: "host_inv s \<Longrightarrow> host_inv (on_control_release from s)"
  using inv_drop_sync by (simp add: on_control_release_def host_inv_def split: option.split)

lemma ctrl_send [simp]: "drop_ctrl rid mid (send ns m d s) = send ns m d (drop_ctrl rid mid s)"
  by (simp add: drop_ctrl_def send_def Let_def req_def split: option.split)

lemma inv_revoke: "host_inv s \<Longrightarrow> host_inv (snd (revokeShareControl rid mid s))"
proof -
  assume i: "host_inv s"
  have "host_inv (send ''media'' ''share_control_revoke'' (Some (room_json mid rid)) s)"
    using i by (simp add: host_inv_def)
  from inv_drop_sync[OF this, of rid False mid] i show ?thesis
    by (simp add: revokeShareControl_def Let_def) (simp add: host_inv_def)
qed

lemma share_member:
  assumes "mwf (ca_shares s)" "roomShareForMember mid s = Some rid"
  shows "\<exists>a. mget (ca_shares s) rid = Some a \<and> mhas (sh_viewers (ca_shareHeap s ! a)) mid"
  using assms
  by (auto simp: roomShareForMember_def mget_in_set dest!: find_first_split)

lemma inv_grant: "host_inv s \<Longrightarrow> host_inv (snd (resolveShareControlRequest mid ok None s))"
proof -
  assume i: "host_inv s"
  show ?thesis
  proof (cases "truthy (roomShareForMember mid s)")
    case None
    then show ?thesis using i by (simp add: resolveShareControlRequest_def)
  next
    case (Some rid)
    then have "roomShareForMember mid s = Some rid" by (auto simp: truthy_def split: option.splits if_splits)
    moreover have "mwf (ca_shares s)" using i by (simp add: host_inv_def host_ok_def)
    ultimately obtain a where a: "mget (ca_shares s) rid = Some a" "mhas (sh_viewers (ca_shareHeap s ! a)) mid"
      using share_member by blast
    have "host_view (snd (resolveShareControlRequest mid ok None s)) =
      (if ok then (host_view s)\<lparr>hv_ctrl := mset_key rid (set_add mid (roomShareControllers rid s)) (ca_ctrl s), hv_host := True\<rparr>
       else host_view s)"
      using Some by (simp add: resolveShareControlRequest_def Let_def host_view_sync del: host_view.simps)
    with ok_grant[of "host_view s" rid a mid] a i show ?thesis
      by (simp add: host_inv_def roomShareControllers_def)
  qed
qed

text \<open>Kicking a viewer: control first, then the entry of the viewer.\<close>

lemma view_kick_loop:
  "host_view (fold (\<lambda>cid t. if mget (ca_sessions t) cid = Some x then clearSessionStreams cid (drop_share_call cid t) else t) cs s) = host_view s"
  by (rule host_view_fold) simp

lemma inv_kick: "host_inv s \<Longrightarrow> host_inv (snd (endRoomShareViewer rid mid s))"
proof -
  assume i: "host_inv s"
  show ?thesis
  proof (cases "mget (ca_shares s) rid")
    case None
    then show ?thesis using i by (simp add: endRoomShareViewer_def)
  next
    case (Some a)
    show ?thesis
    proof (cases "mget (sh_viewers (ca_shareHeap s ! a)) mid")
      case None
      with Some show ?thesis using i by (simp add: endRoomShareViewer_def)
    next
      case x: (Some x)
      define f where "f sh = sh\<lparr>sh_viewers := mdel mid (sh_viewers sh)\<rparr>" for sh :: room_share
      define s2 where "s2 = upd_share a f (hangup x s)"
      define s3 where "s3 = fold (\<lambda>cid t. if mget (ca_sessions t) cid = Some x
          then clearSessionStreams cid (drop_share_call cid t) else t) (calls_of_share rid s2) s2"
      define s3' where "s3' = s3\<lparr>ca_stopReq := mdel rid (ca_stopReq s3)\<rparr>"
      define s4 where "s4 = drop_ctrl rid mid s3'"
      have op: "snd (endRoomShareViewer rid mid s) = (if sh_viewers (ca_shareHeap s4 ! a) = [] then endRoomShare rid s4
          else toast (NViewerKicked (length (sh_viewers (ca_shareHeap s4 ! a)))) (syncShareControllers rid False True s4))"
        unfolding endRoomShareViewer_def Let_def s4_def s3'_def s3_def s2_def f_def using Some x by simp
      have v3: "host_view s3' = (host_view s)\<lparr>hv_heap := (ca_shareHeap s)[a := f (ca_shareHeap s ! a)]\<rparr>"
      proof -
        have "host_view s3' = host_view s2" by (simp add: s3'_def s3_def view_kick_loop)
        also have "\<dots> = (host_view (hangup x s))\<lparr>hv_heap := (hv_heap (host_view (hangup x s)))[a := f (hv_heap (host_view (hangup x s)) ! a)]\<rparr>"
          by (simp add: s2_def upd_share_def host_view_def)
        finally show ?thesis by simp
      qed
      define ctrl' where "ctrl' = (case mget (ca_ctrl s) rid of None \<Rightarrow> ca_ctrl s | Some l \<Rightarrow> mset_key rid (set_del mid l) (ca_ctrl s))"
      have c3: "ca_ctrl s3' = ca_ctrl s" using arg_cong[OF v3, of hv_ctrl] by simp
      have v4: "host_view s4 = (host_view s)\<lparr>hv_ctrl := ctrl', hv_heap := (ca_shareHeap s)[a := f (ca_shareHeap s ! a)]\<rparr>"
        unfolding s4_def by (simp add: host_view_drop_ctrl v3) (simp add: drop_ctrl_def ctrl'_def c3 split: option.split)
      have kept: "host_ok ((host_view s)\<lparr>hv_ctrl := ctrl', hv_host := h\<rparr>)"
        if "h \<longrightarrow> hosting (sent s) \<and> mget ctrl' rid \<noteq> None \<and> mget ctrl' rid \<noteq> Some []" for h
      proof (cases "mget (ca_ctrl s) rid")
        case None
        then have "\<not> h" "ctrl' = ca_ctrl s" using that by (auto simp: ctrl'_def)
        then show ?thesis using ok_off[of "host_view s"] i by (simp add: host_inv_def) (simp add: host_view_def)
      next
        case (Some l)
        then have c: "ctrl' = mset_key rid (set_del mid l) (ca_ctrl s)" by (simp add: ctrl'_def)
        then show ?thesis using ok_drop[of "host_view s" rid l h mid] i Some that by (simp add: host_inv_def)
      qed
      have shrunk: "host_ok ((host_view s)\<lparr>hv_ctrl := ctrl', hv_host := h, hv_heap := (ca_shareHeap s)[a := f (ca_shareHeap s ! a)]\<rparr>)"
        if "h \<longrightarrow> hosting (sent s) \<and> mget ctrl' rid \<noteq> None \<and> mget ctrl' rid \<noteq> Some []" for h
      proof -
        have one: "r = rid" if "mget (ca_shares s) r = Some a" for r
          using i Some that unfolding host_inv_def host_ok_def by auto
        have gone: "mid \<notin> set l" if "mget ctrl' rid = Some l" for l
          using that by (auto simp: ctrl'_def split: option.splits)
        let ?v = "(host_view s)\<lparr>hv_ctrl := ctrl', hv_host := h\<rparr>"
        have "host_ok (?v\<lparr>hv_heap := (hv_heap ?v)[a := f (hv_heap ?v ! a)]\<rparr>)"
        proof (rule ok_viewers[OF kept[OF that]])
          fix r l m
          assume "mget (hv_shares ?v) r = Some a" "mget (hv_ctrl ?v) r = Some l" "m \<in> set l"
            "mhas (sh_viewers (hv_heap ?v ! a)) m"
          then have "r = rid" "mget ctrl' r = Some l" "m \<in> set l" "mhas (sh_viewers (ca_shareHeap s ! a)) m"
            using one by simp_all
          with gone[of l] show "mhas (sh_viewers (f (hv_heap ?v ! a))) m" by (auto simp: f_def)
        qed
        then show ?thesis by simp
      qed
      show ?thesis
      proof (cases "sh_viewers (ca_shareHeap s4 ! a) = []")
        case True
        have "(host_view s4)\<lparr>hv_host := False\<rparr> = (host_view s)
            \<lparr>hv_ctrl := ctrl', hv_host := False, hv_heap := (ca_shareHeap s)[a := f (ca_shareHeap s ! a)]\<rparr>"
          by (rule host_view.equality) (simp_all add: v4 del: view_simps)
        then have "host_ok ((host_view s4)\<lparr>hv_host := False\<rparr>)"
          using shrunk[of False] by simp
        from ok_end[OF this, of rid] show ?thesis
          using op True by (simp add: host_inv_def host_view_end)
      next
        case False
        define h where "h = (hosting (sent s) \<and> roomShareControllers rid s4 \<noteq> [])"
        have c4: "ca_ctrl s4 = ctrl'" using arg_cong[OF v4, of hv_ctrl] by simp
        have "host_view (syncShareControllers rid False True s4)
            = (host_view s)\<lparr>hv_ctrl := ctrl', hv_host := h, hv_heap := (ca_shareHeap s)[a := f (ca_shareHeap s ! a)]\<rparr>"
          by (rule host_view.equality) (auto simp: host_view_sync v4 h_def)
        moreover have "h \<longrightarrow> hosting (sent s) \<and> mget ctrl' rid \<noteq> None \<and> mget ctrl' rid \<noteq> Some []"
          by (auto simp: h_def roomShareControllers_def c4 split: option.splits)
        ultimately show ?thesis using shrunk[of h] op False by (simp add: host_inv_def)
      qed
    qed
  qed
qed

lemma host_inv_start: "host_start s \<Longrightarrow> host_inv s"
  by (simp add: host_start_def host_inv_def host_ok_def)

lemma host_inv_step: "host_inv s \<Longrightarrow> host_inv (host_step e s)"
  by (cases e) (simp_all add: inv_end inv_open inv_invite inv_stop_request inv_stop_resolve inv_control_request
      inv_grant inv_release inv_revoke inv_kick)

interpretation host_sys: transition_system host_step host_start host_inv
  by unfold_locales (rule host_inv_start host_inv_step, assumption)+


definition some_sdp :: session_description where
  "some_sdp = \<lparr>sd_sdp = ''v=0'', sd_type = Offer\<rparr>"

definition granted_run :: "host_event list" where
  "granted_run = [HOpen ''r'' (Some ''team'') 1, HInvite 0 ''r'' ''bob'' ''c1'' 1 some_sdp,
     HInvite 0 ''r'' ''eve'' ''c2'' 1 some_sdp, HControlResolve ''bob'' True]"


subsection \<open>What an ended share leaves behind\<close>

lemma obj_close:
  "obj b (closeObj a s) = (if b = a \<and> a < length (ca_heap s)
     then (obj b s)\<lparr>so_closed := True, so_dc := map_option (\<lambda>_. DcClosed) (so_dc (obj b s))\<rparr> else obj b s)"
  by (cases "a < length (ca_heap s)") (auto simp: closeObj_def obj_def upd_obj_def list_update_beyond)

lemma hangup_obj:
  "length (ca_heap (hangup a s)) = length (ca_heap s)"
  "so_callId (obj b (hangup a s)) = so_callId (obj b s)" "so_peerId (obj b (hangup a s)) = so_peerId (obj b s)"
  "a < length (ca_heap s) \<Longrightarrow> so_closed (obj b (hangup a s)) = (so_closed (obj b s) \<or> b = a)"
  by (simp_all add: hangup_def obj_close) (simp add: closeObj_def)

lemma hangup_frame [simp]:
  "ca_sessions (hangup a s) = ca_sessions s" "ca_pending (hangup a s) = ca_pending s"
  "ca_shareOf (hangup a s) = ca_shareOf s" "ca_stopped (hangup a s) = ca_stopped s"
  "ca_shares (hangup a s) = ca_shares s" "ca_ctrl (hangup a s) = ca_ctrl s"
  by (simp_all add: hangup_def closeObj_def)

lemma hangup_sent:
  "sent (hangup a s) = sent s @ [(''media'', ''call_hangup'', Some (call_json (so_callId (obj a s)) (so_peerId (obj a s))))]"
  by (simp add: hangup_def closeObj_def)

lemma fold_hangup:
  assumes "\<forall>a \<in> set as. a < length (ca_heap s)"
  shows "sent (fold hangup as s) = sent s @ map (\<lambda>a. (''media'', ''call_hangup'',
           Some (call_json (so_callId (obj a s)) (so_peerId (obj a s))))) as"
    and "so_closed (obj b (fold hangup as s)) = (so_closed (obj b s) \<or> b \<in> set as)"
    and "ca_sessions (fold hangup as s) = ca_sessions s" and "ca_pending (fold hangup as s) = ca_pending s"
    and "ca_shareOf (fold hangup as s) = ca_shareOf s" and "length (ca_heap (fold hangup as s)) = length (ca_heap s)"
    and "ca_shares (fold hangup as s) = ca_shares s" and "ca_ctrl (fold hangup as s) = ca_ctrl s"
    and "ca_stopped (fold hangup as s) = ca_stopped s"
  using assms
  by (induction as arbitrary: s) (auto simp: hangup_obj hangup_sent)

lemma drop_call_fields [simp]:
  "ca_sessions (drop_share_call c s) = mdel c (ca_sessions s)" "ca_pending (drop_share_call c s) = mdel c (ca_pending s)"
  "ca_shareOf (drop_share_call c s) = mdel c (ca_shareOf s)" "sent (drop_share_call c s) = sent s"
  "ca_shares (drop_share_call c s) = ca_shares s" "ca_ctrl (drop_share_call c s) = ca_ctrl s"
  "ca_stopped (drop_share_call c s) = ca_stopped s" "length (ca_heap (drop_share_call c s)) = length (ca_heap s)"
  "ui_store (drop_share_call c s) = ui_store s"
  by (auto simp: drop_share_call_def closeObj_def sent_def split: option.split)

lemma drop_call_closed: "so_closed (obj b s) \<Longrightarrow> so_closed (obj b (drop_share_call c s))"
proof -
  assume c: "so_closed (obj b s)"
  have "obj b (drop_share_call c s) = obj b (case mget (ca_sessions s) c of None \<Rightarrow> s | Some a \<Rightarrow> closeObj a s)"
    by (simp add: drop_share_call_def obj_def Let_def)
  then show ?thesis using c by (auto simp: obj_close split: option.split)
qed

lemma fold_drop:
  "mget (ca_sessions (fold drop_share_call cs s)) c = (if c \<in> set cs then None else mget (ca_sessions s) c)"
  "mget (ca_pending (fold drop_share_call cs s)) c = (if c \<in> set cs then None else mget (ca_pending s) c)"
  "mget (ca_shareOf (fold drop_share_call cs s)) c = (if c \<in> set cs then None else mget (ca_shareOf s) c)"
  "sent (fold drop_share_call cs s) = sent s" "ca_shares (fold drop_share_call cs s) = ca_shares s"
  "ca_ctrl (fold drop_share_call cs s) = ca_ctrl s" "ca_stopped (fold drop_share_call cs s) = ca_stopped s"
  "so_closed (obj b s) \<Longrightarrow> so_closed (obj b (fold drop_share_call cs s))"
  by (induction cs arbitrary: s) (auto simp: drop_call_closed)

lemma share_calls: "mwf (ca_shareOf s) \<Longrightarrow> c \<in> set (calls_of_share rid s) \<longleftrightarrow> mget (ca_shareOf s) c = Some rid"
  by (auto simp: calls_of_share_def mget_in_set image_iff)


definition sample_sess :: "string \<Rightarrow> string \<Rightarrow> sess_obj" where
  "sample_sess callId peer = \<lparr>so_callId = callId, so_peerId = peer, so_mode = Share, so_dc = None, so_closed = False,
     so_log = [], so_inputs = []\<rparr>"

definition sample_share :: room_share where
  "sample_share = \<lparr>sh_roomId = ''r'', sh_stream = 1, sh_viewers = [(''bob'', 0), (''eve'', 1)]\<rparr>"

definition shared_run :: calls where
  "shared_run = calls_init\<lparr>ca_heap := [sample_sess ''c1'' ''bob'', sample_sess ''c2'' ''eve''],
     ca_sessions := [(''c1'', 0), (''c2'', 1)], ca_shareHeap := [sample_share], ca_shares := [(''r'', 0)],
     ca_shareOf := [(''c1'', ''r''), (''c2'', ''r'')], ca_ctrl := [(''r'', [''bob''])]\<rparr>"

lemma shared_run_facts:
  "share_of ''r'' shared_run = Some sample_share" "sh_viewers sample_share = [(''bob'', 0), (''eve'', 1)]"
  "sh_stream sample_share = 1"
  "ca_shareOf shared_run = [(''c1'', ''r''), (''c2'', ''r'')]" "length (ca_heap shared_run) = 2"
  "mget (ca_shares shared_run) ''r'' = Some 0" "length (ca_shareHeap shared_run) = 1"
  "ca_shareHeap shared_run ! 0 = sample_share" "ca_sessions shared_run = [(''c1'', 0), (''c2'', 1)]"
  by (simp_all add: shared_run_def sample_share_def share_of_def mget_def)


subsection \<open>Kicking one viewer\<close>

lemma kick_loop:
  fixes x :: nat
  defines "step \<equiv> (\<lambda>cid t. if mget (ca_sessions t) cid = Some x then clearSessionStreams cid (drop_share_call cid t) else t)"
  shows "mget (ca_sessions (fold step cs s)) c = (if c \<in> set cs \<and> mget (ca_sessions s) c = Some x then None else mget (ca_sessions s) c)"
    and "mget (ca_shareOf (fold step cs s)) c = (if c \<in> set cs \<and> mget (ca_sessions s) c = Some x then None else mget (ca_shareOf s) c)"
    and "sent (fold step cs s) = sent s" and "app (fold step cs s) = app s"
    and "b \<noteq> x \<Longrightarrow> obj b (fold step cs s) = obj b s"
    and "so_closed (obj x s) \<Longrightarrow> so_closed (obj x (fold step cs s))"
proof (induction cs arbitrary: s)
  case (Cons d cs)
  have t: "mget (ca_sessions (step d s)) e = (if e = d \<and> mget (ca_sessions s) d = Some x then None else mget (ca_sessions s) e)"
    "mget (ca_shareOf (step d s)) e = (if e = d \<and> mget (ca_sessions s) d = Some x then None else mget (ca_shareOf s) e)"
    "sent (step d s) = sent s" "app (step d s) = app s" "so_closed (obj x s) \<Longrightarrow> so_closed (obj x (step d s))" for e s
    by (auto simp: step_def drop_call_closed)
  have o: "obj e (step d s) = obj e s" if "e \<noteq> x" for e s
  proof (cases "mget (ca_sessions s) d = Some x")
    case True
    have "obj e (drop_share_call d s) = obj e (closeObj x s)"
      using True by (simp add: drop_share_call_def Let_def obj_def)
    then show ?thesis using True that by (simp add: step_def obj_close)
  qed (simp add: step_def)
  { case 1 show ?case by (auto simp: Cons.IH t) }
  { case 2 show ?case by (auto simp: Cons.IH t) }
  { case 3 show ?case by (simp add: Cons.IH t) }
  { case 4 show ?case by (simp add: Cons.IH t) }
  { case 5 then show ?case by (simp add: Cons.IH o) }
  { case 6 then show ?case by (simp add: Cons.IH t) }
qed simp_all

text \<open>Kicking a viewer hangs up that viewer and no other: with viewers left, the share goes on with
  exactly the others, whose connections are untouched; the viewer's calls are gone from the registries and
  the viewer is no controller any more; injection stops exactly when no controller is left. Kicking
  someone who does not watch, or in a room that is not shared, changes nothing.\<close>

theorem kick_one_viewer:
  assumes a: "mget (ca_shares s) rid = Some a" "a < length (ca_shareHeap s)"
    and x: "mget (sh_viewers (ca_shareHeap s ! a)) mid = Some x" "x < length (ca_heap s)"
    and wf: "mwf (ca_shareOf s)"
  shows "let rest = mdel mid (sh_viewers (ca_shareHeap s ! a)); s' = snd (endRoomShareViewer rid mid s)
    in fst (endRoomShareViewer rid mid s)
     \<and> (rest \<noteq> [] \<longrightarrow>
          map_option sh_viewers (share_of rid s') = Some rest
        \<and> so_closed (obj x s') \<and> (\<forall>b. b = x \<or> obj b s' = obj b s)
        \<and> (\<forall>c. mget (ca_sessions s) c = Some x \<and> mget (ca_shareOf s) c = Some rid \<longrightarrow>
               mget (ca_sessions s') c = None \<and> mget (ca_shareOf s') c = None)
        \<and> set (roomShareControllers rid s') = set (roomShareControllers rid s) - {mid}
        \<and> sent s' = sent s @ (''media'', ''call_hangup'', Some (call_json (so_callId (obj x s)) (so_peerId (obj x s))))
             # (if roomShareControllers rid s' = [] then [(''media'', ''remote_host'', Some (host_text False))] else []))
     \<and> (rest = [] \<longrightarrow> share_of rid s' = None \<and> \<not> hosting (sent s'))
     \<and> (\<forall>rid' mid'. mid' \<notin> set (roomShareViewers rid' s) \<longrightarrow> endRoomShareViewer rid' mid' s = (False, s))"
proof -
  define f where "f sh = sh\<lparr>sh_viewers := mdel mid (sh_viewers sh)\<rparr>" for sh :: room_share
  define s1 where "s1 = hangup x s"
  define s2 where "s2 = upd_share a f s1"
  define s3 where "s3 = fold (\<lambda>cid t. if mget (ca_sessions t) cid = Some x
      then clearSessionStreams cid (drop_share_call cid t) else t) (calls_of_share rid s2) s2"
  define s3' where "s3' = s3\<lparr>ca_stopReq := mdel rid (ca_stopReq s3)\<rparr>"
  define s4 where "s4 = drop_ctrl rid mid s3'"
  define s5 where "s5 = syncShareControllers rid False True s4"
  have v: "ca_shares s3' = ca_shares s" "ca_shareHeap s3' = (ca_shareHeap s)[a := f (ca_shareHeap s ! a)]" "ca_ctrl s3' = ca_ctrl s"
  proof -
    have "host_view s3' = (host_view s)\<lparr>hv_heap := (ca_shareHeap s)[a := f (ca_shareHeap s ! a)]\<rparr>"
    proof -
      have "host_view s3' = host_view s2" by (simp add: s3'_def s3_def view_kick_loop)
      also have "\<dots> = (host_view s1)\<lparr>hv_heap := (hv_heap (host_view s1))[a := f (hv_heap (host_view s1) ! a)]\<rparr>"
        by (simp add: s2_def upd_share_def host_view_def)
      finally show ?thesis by (simp add: s1_def)
    qed
    note this = this[THEN arg_cong[of _ _ hv_shares]] this[THEN arg_cong[of _ _ hv_heap]] this[THEN arg_cong[of _ _ hv_ctrl]]
    then show "ca_shares s3' = ca_shares s" "ca_shareHeap s3' = (ca_shareHeap s)[a := f (ca_shareHeap s ! a)]" "ca_ctrl s3' = ca_ctrl s"
      by simp_all
  qed
  have d4: "ca_shares s4 = ca_shares s3'" "ca_shareHeap s4 = ca_shareHeap s3'" "ca_heap s4 = ca_heap s3'"
    "ca_sessions s4 = ca_sessions s3'" "ca_shareOf s4 = ca_shareOf s3'" "sent s4 = sent s3'"
    by (simp_all add: s4_def drop_ctrl_def split: option.split)
  have rest: "sh_viewers (ca_shareHeap s4 ! a) = mdel mid (sh_viewers (ca_shareHeap s ! a))"
    using a(2) by (simp add: d4 v f_def)
  have op: "endRoomShareViewer rid mid s = (True, if sh_viewers (ca_shareHeap s4 ! a) = [] then endRoomShare rid s4
      else toast (NViewerKicked (length (sh_viewers (ca_shareHeap s4 ! a)))) s5)"
    unfolding endRoomShareViewer_def Let_def s5_def s4_def s3'_def s3_def s2_def s1_def f_def using a x by simp
  have s2: "ca_sessions s2 = ca_sessions s" "ca_shareOf s2 = ca_shareOf s" "sent s2 = sent s1"
    "ca_heap s2 = ca_heap s1"
    by (simp_all add: s2_def upd_share_def s1_def)
  note loop = kick_loop[where x = x and cs = "calls_of_share rid s2" and s = s2, folded s3_def]
  have calls: "c \<in> set (calls_of_share rid s2) \<longleftrightarrow> mget (ca_shareOf s) c = Some rid" for c
    using share_calls[of s2 c rid] wf s2 by simp
  have s5: "ca_sessions s5 = ca_sessions s3" "ca_shareOf s5 = ca_shareOf s3" "ca_heap s5 = ca_heap s3"
    "share_of rid s5 = share_of rid s4" "roomShareControllers r s5 = roomShareControllers r s4"
    "sent s5 = sent s3 @ (if roomShareControllers rid s4 = [] then [(''media'', ''remote_host'', Some (host_text False))] else [])" for r
    by (auto simp: s5_def syncShareControllers_def Let_def disarm_def share_of_def roomShareControllers_def d4 s3'_def split: option.split)
  have closed: "so_closed (obj x s5)"
  proof -
    have "so_closed (obj x s2)" using x(2) hangup_obj(4)[of x s x] by (simp add: s1_def obj_def[of _ s2] s2) (simp add: obj_def)
    then have "so_closed (obj x s3)" by (rule loop)
    then show ?thesis by (simp add: obj_def s5)
  qed
  have others: "obj b s5 = obj b s" if "b \<noteq> x" for b
    using loop(5)[OF that] that by (simp add: obj_def s5 s2) (simp add: s1_def obj_def[symmetric] hangup_def obj_close)
  have gone: "mget (ca_sessions s5) c = None \<and> mget (ca_shareOf s5) c = None"
    if "mget (ca_sessions s) c = Some x" "mget (ca_shareOf s) c = Some rid" for c
    using that loop(1,2)[of c] by (simp add: s5 s2 calls)
  have ctl: "set (roomShareControllers rid s5) = set (roomShareControllers rid s) - {mid}"
    by (simp add: s5 s4_def controllers_drop) (simp add: roomShareControllers_def v)
  have sent5: "sent s5 = sent s @ (''media'', ''call_hangup'', Some (call_json (so_callId (obj x s)) (so_peerId (obj x s))))
      # (if roomShareControllers rid s5 = [] then [(''media'', ''remote_host'', Some (host_text False))] else [])"
    using loop(3) by (simp add: s5 s2 s1_def hangup_sent)
  have over: "share_of rid (endRoomShare rid s4) = None" "\<not> hosting (sent (endRoomShare rid s4))"
    using arg_cong[OF host_view_end[of rid s4], of hv_shares] arg_cong[OF host_view_end[of rid s4], of hv_host]
    by (simp_all add: share_of_def)
  have still: "map_option sh_viewers (share_of rid s5) = Some (mdel mid (sh_viewers (ca_shareHeap s ! a)))"
    unfolding s5(4) using a rest by (simp add: share_of_def d4 v)
  have noop: "endRoomShareViewer rid' mid' s = (False, s)" if "mid' \<notin> set (roomShareViewers rid' s)" for rid' mid'
    using that by (auto simp: endRoomShareViewer_def roomShareViewers_def share_of_def mkeys_mhas mhas_get split: option.splits)
  show ?thesis
    unfolding Let_def op rest using still closed others gone ctl sent5 over noop
    by (auto simp: obj_def share_of_def roomShareControllers_def)
qed

theorem kick_one_viewer_witness:
  "roomShareControllers ''r'' (snd (endRoomShareViewer ''r'' ''bob'' shared_run)) = []
   \<and> map_option sh_viewers (share_of ''r'' (snd (endRoomShareViewer ''r'' ''bob'' shared_run))) = Some [(''eve'', 1)]"
proof -
  have wf: "mwf (ca_shareOf shared_run)" by (simp add: shared_run_facts mwf_def)
  have a: "mget (ca_shares shared_run) ''r'' = Some 0" "0 < length (ca_shareHeap shared_run)"
    "mget (sh_viewers (ca_shareHeap shared_run ! 0)) ''bob'' = Some 0" "0 < length (ca_heap shared_run)"
    by (simp_all add: shared_run_facts) (simp add: mget_def)
  have rest: "mdel ''bob'' (sh_viewers (ca_shareHeap shared_run ! 0)) = [(''eve'', 1)]"
    by (simp add: shared_run_facts mdel_def)
  have c: "set (roomShareControllers ''r'' shared_run) = {''bob''}"
    by (simp add: roomShareControllers_def shared_run_def mget_def)
  have "map_option sh_viewers (share_of ''r'' (snd (endRoomShareViewer ''r'' ''bob'' shared_run))) = Some [(''eve'', 1)]"
    "set (roomShareControllers ''r'' (snd (endRoomShareViewer ''r'' ''bob'' shared_run))) = {''bob''} - {''bob''}"
    using kick_one_viewer[OF a wf] unfolding Let_def rest c by blast+
  then show ?thesis by simp
qed

subsection \<open>Sharing a room again\<close>

text \<open>Sharing a room that is being shared replaces the registered share. The first capture is then never
  stopped: ending the room's share stops the second one only, and the viewers of the first share are not
  told, although the daemon is disarmed and the room counts as not shared.\<close>

theorem reshare_leaks:
  assumes first: "share_of rid s = Some sh" and running: "sh_stream sh \<notin> set (ca_stopped s)" and new: "x \<noteq> sh_stream sh"
  shows "let t = endRoomShare rid (snd (share_open rid nm x s)) in
      share_of rid t = None \<and> ca_stopped t = ca_stopped s @ [x] \<and> sh_stream sh \<notin> set (ca_stopped t)
    \<and> sent t = sent s @ [(''media'', ''remote_host'', Some (host_text False))]"
proof -
  define s1 where "s1 = snd (share_open rid nm x s)"
  have s1: "share_of rid s1 = Some \<lparr>sh_roomId = rid, sh_stream = x, sh_viewers = []\<rparr>" "ca_stopped s1 = ca_stopped s" "sent s1 = sent s"
    by (simp_all add: s1_def share_open_def Let_def share_of_def setLocalStream_def)
  have "share_of rid (endRoomShare rid s1) = None" by (simp add: endRoomShare_def Let_def share_of_def)
  then show ?thesis
    unfolding s1_def[symmetric]
    using running new by (simp add: endRoomShare_def s1 Let_def fold_drop mvals_def disarm_def)
qed

theorem reshare_leaks_witness:
  "ca_stopped (endRoomShare ''r'' (snd (share_open ''r'' None 2 shared_run))) = [2]"
proof -
  have "ca_stopped shared_run = []" by (simp add: shared_run_def calls_init_def ui.defs)
  then show ?thesis
    using reshare_leaks[OF shared_run_facts(1), of 2 None] by (simp add: shared_run_facts Let_def)
qed

end
