(* ===== verification/Calls.thy ===== *)
theory Calls
  imports Room_Share
begin

text \<open>
  One-to-one calls (\<open>ui/src/client/webrtc.ts\<close>): placing and answering a call, the handlers of the
  signalling events, hanging up. The capture of microphone, camera or screen is the browser's: its result
  is a parameter, None when the user refuses. The functions that await it are given in two parts, so that
  events can come in between. The rendez-vous of an offer and the user's answer is kept in \<open>ca_offer\<close>
  (\<open>pendingOffer\<close>, one slot) and \<open>ca_armed\<close> (\<open>armedAnswer\<close>).
\<close>

subsection \<open>Placing a call\<close>

definition startCall_open :: "string \<Rightarrow> string \<Rightarrow> media_mode \<Rightarrow> calls \<Rightarrow> nat \<times> calls" where
  "startCall_open callId peerId mode s =
     (let (a, s1) = newSession callId peerId mode s;
          m = plain_session callId \<lparr>mp_deviceId = peerId, mp_name = peer_label peerId s1, mp_mode = mode\<rparr> Outgoing Connecting;
          s2 = patch (\<lambda>p. p\<lparr>media := Some m\<rparr>) s1
      in (a, send ''media'' ''call_invite'' (Some (invite_json callId peerId mode None)) s2))"

text \<open>\<open>getShareStream\<close>: with sound, and when that fails without.\<close>

definition getShareStream :: "nat option \<Rightarrow> nat option \<Rightarrow> nat option" where
  "getShareStream withSound plain = (case withSound of Some x \<Rightarrow> Some x | None \<Rightarrow> plain)"

text \<open>After the capture: the flag tells whether the promise is resolved. A session controlled remotely
  gets the input channel and arms the injection of the own daemon.\<close>

definition startCall_go :: "nat \<Rightarrow> string \<Rightarrow> media_mode \<Rightarrow> nat option \<Rightarrow> session_description \<Rightarrow> calls \<Rightarrow> bool \<times> calls" where
  "startCall_go a callId mode got sd s =
     (case got of None \<Rightarrow> (False, s)
      | Some x \<Rightarrow>
          (let s1 = setLocalStream callId (Some x) s
           in case addTrackFrom a x s1 of None \<Rightarrow> (False, s1)
              | Some s2 \<Rightarrow>
                  (let s3 = (if mode = Remote
                       then send ''media'' ''remote_host'' (Some (host_bool True))
                              (upd_obj a (\<lambda>ob. ob\<lparr>so_dc := Some DcConnecting, so_log := so_log ob @ [LChannel]\<rparr>) s2)
                       else s2)
                   in (True, sendOffer a sd s3))))"

definition startCall :: "string \<Rightarrow> string \<Rightarrow> media_mode \<Rightarrow> nat option \<Rightarrow> session_description \<Rightarrow> calls \<Rightarrow> bool \<times> calls" where
  "startCall callId peerId mode got sd s =
     (let (a, s1) = startCall_open callId peerId mode s in startCall_go a callId mode got sd s1)"

subsection \<open>Answering a call\<close>

definition captures :: "media_mode \<Rightarrow> bool" where
  "captures mode \<longleftrightarrow> mode \<noteq> Share \<and> mode \<noteq> Remote"

text \<open>\<open>acceptIncomingCall\<close> after \<open>getUserMedia\<close> (\<open>got\<close>). A failing \<open>addTrackFrom\<close> rejects the promise; the
  answer to a stored offer may fail without consequence for what follows.\<close>

definition acceptIncomingCall :: "string \<Rightarrow> media_mode \<Rightarrow> string \<Rightarrow> nat option \<Rightarrow> calls \<Rightarrow> bool \<times> calls" where
  "acceptIncomingCall callId mode deviceId got s =
     (if captures mode \<and> got = None then (False, s)
      else (let stream = (if captures mode then got else None);
          s1 = (case stream of None \<Rightarrow> s | Some x \<Rightarrow> setLocalStream callId (Some x) s);
          pc = mget (ca_pending s1) callId;
          s2 = (case (stream, pc) of
                  (Some x, Some p) \<Rightarrow> s1\<lparr>ca_pending := mset_key callId (p\<lparr>pd_stream := Some x\<rparr>) (ca_pending s1)\<rparr>
                | _ \<Rightarrow> s1);
          peerId = (case pc of None \<Rightarrow> deviceId | Some p \<Rightarrow> pd_from p);
          nm = (case truthy (map_option pd_from pc) of None \<Rightarrow> peerId | Some f \<Rightarrow> peer_label f s2);
          m = plain_session callId \<lparr>mp_deviceId = peerId, mp_name = nm, mp_mode = mode\<rparr> Outgoing Connecting;
          s3 = patch (\<lambda>p. p\<lparr>media := Some m\<rparr>) s2;
          (a, s4) = get_session callId peerId mode s3
      in case (case stream of None \<Rightarrow> Some s4 | Some x \<Rightarrow> addTrackFrom a x s4) of
           None \<Rightarrow> (False, s4)
         | Some s5 \<Rightarrow>
             (let arm = s5\<lparr>ca_armed := mset_key callId peerId (ca_armed s5)\<rparr>;
                  s6 = (case ca_offer s5 of
                          None \<Rightarrow> arm
                        | Some (c, sd) \<Rightarrow> if c = callId then onSignal a (SOffer sd) (s5\<lparr>ca_offer := None\<rparr>) else arm)
              in (True, send ''media'' ''call_accept'' (Some (call_json callId peerId)) s6))))"

subsection \<open>The handlers of the signalling events\<close>

definition on_call_invite :: "string \<Rightarrow> string \<Rightarrow> media_mode \<Rightarrow> calls \<Rightarrow> calls" where
  "on_call_invite callId from mode s =
     (let s1 = s\<lparr>ca_pending := mset_key callId \<lparr>pd_from = from, pd_mode = mode, pd_stream = None\<rparr> (ca_pending s)\<rparr>
      in if self_id s1 = Some from then s1
         else patch (\<lambda>p. p\<lparr>media := Some (plain_session callId
                  \<lparr>mp_deviceId = from, mp_name = from, mp_mode = mode\<rparr> Incoming Ringing)\<rparr>) s1)"

text \<open>\<open>addTrackFrom(stream).then(() => onSignal('offer', ...)).catch(() => {})\<close>.\<close>

definition answer_with :: "nat \<Rightarrow> nat option \<Rightarrow> session_description \<Rightarrow> calls \<Rightarrow> calls" where
  "answer_with a stream sd s =
     (case stream of None \<Rightarrow> onSignal a (SOffer sd) s
      | Some x \<Rightarrow> (case addTrackFrom a x s of None \<Rightarrow> s | Some t \<Rightarrow> onSignal a (SOffer sd) t))"

definition on_offer :: "string \<Rightarrow> string \<Rightarrow> session_description \<Rightarrow> bool \<Rightarrow> calls \<Rightarrow> calls" where
  "on_offer callId from sd fileSignaling s =
     (let pc = mget (ca_pending s) callId;
          stream = Option.bind pc pd_stream;
          (a, s1) = get_session callId from (case pc of None \<Rightarrow> Voice | Some p \<Rightarrow> pd_mode p) s
      in if mhas (ca_armed s1) callId
         then (answer_with a stream sd (s1\<lparr>ca_armed := mdel callId (ca_armed s1)\<rparr>))\<lparr>ca_offer := None\<rparr>
         else if fileSignaling \<or> pc = None then (answer_with a None sd s1)\<lparr>ca_offer := None\<rparr>
         else if stream \<noteq> None then (answer_with a stream sd s1)\<lparr>ca_offer := None\<rparr>
         else s1\<lparr>ca_offer := Some (callId, sd)\<rparr>)"

definition on_answer :: "string \<Rightarrow> string \<Rightarrow> session_description \<Rightarrow> calls \<Rightarrow> calls" where
  "on_answer callId from sd = routeSignal callId (SAnswer sd) from"

definition on_ice :: "string \<Rightarrow> string \<Rightarrow> ice_candidate \<Rightarrow> calls \<Rightarrow> calls" where
  "on_ice callId from c = routeSignal callId (SIce c) from"

definition on_call_accept :: "string \<Rightarrow> calls \<Rightarrow> calls" where
  "on_call_accept callId = set_media (\<lambda>m. m\<lparr>ms_state := Connecting\<rparr>)"

subsection \<open>Hanging up\<close>

definition roomShareOfCallId :: "string \<Rightarrow> calls \<Rightarrow> string option" where
  "roomShareOfCallId callId s = mget (ca_shareOf s) callId"

text \<open>The first viewer whose session it is.\<close>

fun drop_viewer :: "nat \<Rightarrow> (string, nat) jsmap \<Rightarrow> (string, nat) jsmap" where
  "drop_viewer x [] = []"
| "drop_viewer x ((m, y) # vs) = (if y = x then vs else (m, y) # drop_viewer x vs)"

definition forget_call :: "string \<Rightarrow> calls \<Rightarrow> calls" where
  "forget_call callId s = clearSessionStreams callId
     (s\<lparr>ca_sessions := mdel callId (ca_sessions s), ca_pending := mdel callId (ca_pending s),
        ca_armed := mdel callId (ca_armed s)\<rparr>)"

definition on_call_hangup :: "string \<Rightarrow> calls \<Rightarrow> calls" where
  "on_call_hangup callId s =
     (let ss = mget (ca_sessions s) callId
      in case truthy (roomShareOfCallId callId s) of
           Some rid \<Rightarrow>
             (let s1 = (case mget (ca_shares s) rid of None \<Rightarrow> s
                  | Some a \<Rightarrow>
                      (let t = (case ss of None \<Rightarrow> s
                                | Some x \<Rightarrow> upd_share a (\<lambda>sh. sh\<lparr>sh_viewers := drop_viewer x (sh_viewers sh)\<rparr>) s)
                       in if sh_viewers (ca_shareHeap t ! a) = [] then endRoomShare rid t else t))
              in clearSessionStreams callId
                   (s1\<lparr>ca_sessions := mdel callId (ca_sessions s1), ca_pending := mdel callId (ca_pending s1),
                       ca_shareOf := mdel callId (ca_shareOf s1)\<rparr>))
         | None \<Rightarrow>
             (let s1 = (case ss of None \<Rightarrow> s
                  | Some x \<Rightarrow> if so_mode (obj x s) = Remote
                       then send ''media'' ''remote_host'' (Some (host_bool False)) s else s);
                  s2 = (case ss of None \<Rightarrow> s1 | Some x \<Rightarrow> closeObj x s1)
              in close_media (forget_call callId s2)))"

text \<open>\<open>hangupDebug\<close>: every session, in the order of the registry.\<close>

definition hangup_one :: "string \<times> nat \<Rightarrow> calls \<Rightarrow> calls" where
  "hangup_one e s =
     (let (callId, x) = e;
          s1 = (if so_mode (obj x s) = Remote then send ''media'' ''remote_host'' (Some (host_bool False)) s else s)
      in forget_call callId (hangup x s1))"

definition hangupDebug :: "calls \<Rightarrow> calls" where
  "hangupDebug s = close_media ((fold hangup_one (ca_sessions s) s)\<lparr>ca_offer := None\<rparr>)"

subsection \<open>The rendez-vous of offer and answer\<close>

lemma calls_init_simps [simp]:
  "ca_sessions calls_init = []" "ca_armed calls_init = []" "ca_offer calls_init = None" "ca_heap calls_init = []"
  "ca_pending calls_init = []" "ca_shareOf calls_init = []" "ca_shares calls_init = []" "sent calls_init = []"
  by (simp_all add: calls_init_def ui.defs sent_def ui_init_def)

lemma get_session_cases:
  assumes "get_session c p m s = (a, t)"
  obtains "mget (ca_sessions s) c = Some a" "t = s"
  | "mget (ca_sessions s) c = None" "newSession c p m s = (a, t)"
  using assms by (auto simp: get_session_def split: option.splits)

lemma newSession_frame:
  assumes "newSession c p m s = (a, t)"
  shows "ca_pending t = ca_pending s" "ca_armed t = ca_armed s" "ca_offer t = ca_offer s" "ca_local t = ca_local s"
    "ca_remote t = ca_remote s" "ui_store t = ui_store s" "sent t = sent s" "ca_shareHeap t = ca_shareHeap s"
    "ca_sessions t = mset_key c a (ca_sessions s)" "ca_stopped t = ca_stopped s" "ca_shareOf t = ca_shareOf s"
    "ca_listeners t = ca_listeners s"
  using assms by (auto simp: newSession_def Let_def)

lemma get_session_frame:
  assumes "get_session c p m s = (a, t)"
  shows "ca_pending t = ca_pending s" "ca_armed t = ca_armed s" "ca_offer t = ca_offer s" "ca_local t = ca_local s"
    "ca_remote t = ca_remote s" "ui_store t = ui_store s" "sent t = sent s" "mget (ca_sessions t) c = Some a"
    "c' \<noteq> c \<Longrightarrow> mget (ca_sessions t) c' = mget (ca_sessions s) c'"
    "b < length (ca_heap s) \<Longrightarrow> obj b t = obj b s"
  using assms by (auto elim!: get_session_cases simp: newSession_frame newSession_obj)

lemma log_obj_frame [simp]:
  "ca_sessions (log_obj a e s) = ca_sessions s" "ca_pending (log_obj a e s) = ca_pending s"
  "ca_armed (log_obj a e s) = ca_armed s" "ca_offer (log_obj a e s) = ca_offer s" "ui_store (log_obj a e s) = ui_store s"
  "sent (log_obj a e s) = sent s" "length (ca_heap (log_obj a e s)) = length (ca_heap s)"
  "ca_local (log_obj a e s) = ca_local s" "ca_remote (log_obj a e s) = ca_remote s" "ca_stopped (log_obj a e s) = ca_stopped s"
  by (simp_all add: log_obj_def)

lemma obj_log:
  "obj b (log_obj a e s) = (if b = a \<and> a < length (ca_heap s) then (obj b s)\<lparr>so_log := so_log (obj b s) @ [e]\<rparr> else obj b s)"
  by (cases "a < length (ca_heap s)") (auto simp: log_obj_def obj_def upd_obj_def list_update_beyond)

lemma obj_fields [simp]:
  "obj b (s\<lparr>ca_pending := x1\<rparr>) = obj b s" "obj b (s\<lparr>ca_armed := x2\<rparr>) = obj b s" "obj b (s\<lparr>ca_offer := x3\<rparr>) = obj b s"
  "obj b (s\<lparr>ca_local := x4\<rparr>) = obj b s" "obj b (s\<lparr>ca_sessions := x5\<rparr>) = obj b s" "obj b (s\<lparr>ca_shareOf := x6\<rparr>) = obj b s"
  by (simp_all add: obj_def)

lemma setLocal_frame [simp]:
  "ca_sessions (setLocalStream c x s) = ca_sessions s" "ca_pending (setLocalStream c x s) = ca_pending s"
  "ca_armed (setLocalStream c x s) = ca_armed s" "ca_offer (setLocalStream c x s) = ca_offer s"
  "ui_store (setLocalStream c x s) = ui_store s" "sent (setLocalStream c x s) = sent s"
  "ca_heap (setLocalStream c x s) = ca_heap s" "obj b (setLocalStream c x s) = obj b s"
  "ca_stopped (setLocalStream c x s) = ca_stopped s"
  by (simp_all add: setLocalStream_def)

text \<open>What the user's answer does, for a call that was announced by \<open>from\<close>.\<close>

definition call_stream :: "media_mode \<Rightarrow> nat \<Rightarrow> nat option" where
  "call_stream mode x = (if captures mode then Some x else None)"

definition call_tracks :: "media_mode \<Rightarrow> nat \<Rightarrow> so_event list" where
  "call_tracks mode x = (if captures mode then [LTrack x] else [])"

lemma accept_announced:
  fixes mode :: media_mode and dev :: string
  assumes p: "mget (ca_pending s) c = Some p" and a: "mget (ca_sessions s) c = Some a" "a < length (ca_heap s)"
    and free: "\<not> so_closed (obj a s)" "LTrack x \<notin> set (so_log (obj a s))"
  defines "r \<equiv> acceptIncomingCall c mode dev (call_stream mode x) s"
  defines "t \<equiv> snd r"
  shows "fst r"
    and "obj a t = (obj a s)\<lparr>so_log := so_log (obj a s) @ call_tracks mode x
           @ (case ca_offer s of Some (c', sd) \<Rightarrow> if c' = c then [LSignal (SOffer sd)] else [] | None \<Rightarrow> [])\<rparr>"
    and "ca_offer t = (if map_option fst (ca_offer s) = Some c then None else ca_offer s)"
    and "ca_armed t = (if map_option fst (ca_offer s) = Some c then ca_armed s else mset_key c (pd_from p) (ca_armed s))"
    and "ca_sessions t = ca_sessions s" "length (ca_heap t) = length (ca_heap s)"
    and "mget (ca_pending t) c = Some (p\<lparr>pd_stream := (if captures mode then Some x else pd_stream p)\<rparr>)"
    and "sent t = sent s @ [(''media'', ''call_accept'', Some (call_json c (pd_from p)))]"
    and "map_option (\<lambda>m. (ms_callId m, mp_deviceId (ms_peer m), ms_state m)) (media (app t)) = Some (c, pd_from p, Connecting)"
  using p a free unfolding t_def r_def
  by (cases "captures mode"; auto simp: acceptIncomingCall_def call_stream_def call_tracks_def Let_def get_session_def addTrackFrom_def
      onSignal_def obj_log plain_session_def split: option.split)+

lemma invite_fields:
  "ca_sessions (on_call_invite c from mode s) = ca_sessions s" "ca_armed (on_call_invite c from mode s) = ca_armed s"
  "ca_offer (on_call_invite c from mode s) = ca_offer s" "ca_heap (on_call_invite c from mode s) = ca_heap s"
  "ca_pending (on_call_invite c from mode s) = mset_key c \<lparr>pd_from = from, pd_mode = mode, pd_stream = None\<rparr> (ca_pending s)"
  "sent (on_call_invite c from mode s) = sent s"
  by (simp_all add: on_call_invite_def Let_def)

text \<open>C19: a call whose offer arrives before the user answers is answered once: the offer is kept until
  then; answering adds the captured tracks to the connection before the offer is handed to it, tells the
  caller, and leaves neither a stored offer nor an armed answer behind. A viewer of a share captures
  nothing.\<close>

theorem offer_then_answer:
  assumes fresh: "mget (ca_sessions s) c = None" "\<not> mhas (ca_armed s) c"
  shows "let s2 = on_offer c from sd False (on_call_invite c from mode s);
             r = acceptIncomingCall c mode dev (call_stream mode x) s2; t = snd r
         in ca_offer s2 = Some (c, sd) \<and> sent s2 = sent s \<and> fst r
          \<and> (\<exists>a. mget (ca_sessions t) c = Some a \<and> so_peerId (obj a t) = from \<and> so_mode (obj a t) = mode
                \<and> so_log (obj a t) = call_tracks mode x @ [LSignal (SOffer sd)])
          \<and> ca_offer t = None \<and> \<not> mhas (ca_armed t) c
          \<and> sent t = sent s @ [(''media'', ''call_accept'', Some (call_json c from))]"
proof -
  define s1 where "s1 = on_call_invite c from mode s"
  obtain a n where new: "newSession c from mode s1 = (a, n)" by fastforce
  define s2 where "s2 = n\<lparr>ca_offer := Some (c, sd)\<rparr>"
  have p1: "mget (ca_pending s1) c = Some \<lparr>pd_from = from, pd_mode = mode, pd_stream = None\<rparr>"
    by (simp add: s1_def invite_fields)
  note nf = newSession_frame[OF new] newSession_obj[OF new]
  have none: "mget (ca_sessions s1) c = None" "\<not> mhas (ca_armed n) c" using fresh nf by (simp_all add: s1_def invite_fields)
  then have off: "on_offer c from sd False s1 = s2"
    using new p1 by (simp add: on_offer_def get_session_def Let_def s2_def)
  have h: "mget (ca_pending s2) c = Some \<lparr>pd_from = from, pd_mode = mode, pd_stream = None\<rparr>"
    "mget (ca_sessions s2) c = Some a" "a < length (ca_heap s2)" "\<not> so_closed (obj a s2)" "LTrack x \<notin> set (so_log (obj a s2))"
    "ca_offer s2 = Some (c, sd)" "so_log (obj a s2) = []" "ca_armed s2 = ca_armed s" "sent s2 = sent s"
    using nf p1 by (simp_all add: s2_def) (simp_all add: s1_def invite_fields)
  note acc = accept_announced[OF h(1-5), where mode = mode and dev = dev]
  have peer: "so_peerId (obj a s2) = from" "so_mode (obj a s2) = mode" using nf by (simp_all add: s2_def)
  show ?thesis
    unfolding Let_def s1_def[symmetric] off using acc h peer fresh by auto
qed

theorem offer_then_answer_witness:
  "sent (snd (acceptIncomingCall ''c'' Voice ''bob'' (Some 7) (on_offer ''c'' ''bob'' some_sdp False
      (on_call_invite ''c'' ''bob'' Voice calls_init)))) = [(''media'', ''call_accept'', Some (call_json ''c'' ''bob''))]"
  using offer_then_answer[of calls_init "''c''" "''bob''" some_sdp Voice "''bob''" 7]
  by (simp add: Let_def call_stream_def captures_def)

lemma accept_early:
  fixes mode :: media_mode and dev :: string and x :: nat
  assumes p: "mget (ca_pending s) c = Some p" and a: "mget (ca_sessions s) c = None"
    and stored: "map_option fst (ca_offer s) \<noteq> Some c"
  defines "r \<equiv> acceptIncomingCall c mode dev (call_stream mode x) s"
  defines "t \<equiv> snd r" and "k \<equiv> length (ca_heap s)"
  shows "fst r" and "mget (ca_sessions t) c = Some k" and "length (ca_heap t) = Suc k"
    and "so_log (obj k t) = call_tracks mode x" and "\<not> so_closed (obj k t)" and "mhas (ca_armed t) c"
    and "mget (ca_pending t) c = Some (p\<lparr>pd_stream := (if captures mode then Some x else pd_stream p)\<rparr>)"
    and "sent t = sent s @ [(''media'', ''call_accept'', Some (call_json c (pd_from p)))]"
  using p a stored unfolding t_def r_def k_def
  by (cases "captures mode"; auto simp: acceptIncomingCall_def call_stream_def call_tracks_def Let_def get_session_def addTrackFrom_def
      onSignal_def obj_log plain_session_def newSession_def split: option.splits; simp add: obj_def)+

text \<open>C23: a call the user answers before its offer arrives. A viewer of a share or of a remote session is
  armed, and the offer is answered the moment it comes. With a microphone or a camera it never is: the
  handler adds the captured stream to the connection a second time, which throws, and the exception is
  swallowed together with the offer; the call is no longer armed and nothing of the offer is kept, so
  no later event makes up for it.\<close>

theorem answer_then_offer:
  assumes fresh: "mget (ca_sessions s) c = None" and stored: "map_option fst (ca_offer s) \<noteq> Some c"
  shows "let r = acceptIncomingCall c mode dev (call_stream mode x) (on_call_invite c from mode s);
             u = on_offer c from sd False (snd r)
         in fst r \<and> (\<exists>a. mget (ca_sessions u) c = Some a
              \<and> so_log (obj a u) = (if captures mode then [LTrack x] else [LSignal (SOffer sd)]))
          \<and> \<not> mhas (ca_armed u) c \<and> ca_offer u = None"
proof -
  define s1 where "s1 = on_call_invite c from mode s"
  define r where "r = acceptIncomingCall c mode dev (call_stream mode x) s1"
  have p: "mget (ca_pending s1) c = Some \<lparr>pd_from = from, pd_mode = mode, pd_stream = None\<rparr>"
    and q: "mget (ca_sessions s1) c = None" "map_option fst (ca_offer s1) \<noteq> Some c"
    using fresh stored by (simp_all add: s1_def invite_fields)
  note e = accept_early[OF p q, where mode = mode and dev = dev and x = x, folded r_def]
  define k where "k = length (ca_heap s1)"
  have "mget (ca_sessions (on_offer c from sd False (snd r))) c = Some k"
    "so_log (obj k (on_offer c from sd False (snd r))) = (if captures mode then [LTrack x] else [LSignal (SOffer sd)])"
    "\<not> mhas (ca_armed (on_offer c from sd False (snd r))) c" "ca_offer (on_offer c from sd False (snd r)) = None"
    using e by (auto simp: on_offer_def get_session_def answer_with_def addTrackFrom_def onSignal_def obj_log k_def
        call_tracks_def Let_def)
  with e(1) show ?thesis unfolding Let_def s1_def[symmetric] r_def[symmetric] by blast
qed

theorem answer_then_offer_witness:
  "ca_offer (on_offer ''c'' ''bob'' some_sdp False (snd (acceptIncomingCall ''c'' Video ''bob'' (Some 7)
      (on_call_invite ''c'' ''bob'' Video calls_init)))) = None"
  using answer_then_offer[of calls_init "''c''" Video "''bob''" 7 "''bob''" some_sdp]
  by (simp add: Let_def call_stream_def captures_def)

text \<open>C31: an offer that overtakes its invitation is answered before the call rings: no session and no pending call is
  known, so the handler takes it for an unannounced one and hands it to a new connection. When the invitation
  then rings and the user answers, the captured tracks are added to a connection whose answer is already
  given, and the call stays armed for an offer that does not come again.\<close>

theorem offer_overtakes_invite:
  assumes fresh: "mget (ca_sessions s) c = None" "mget (ca_pending s) c = None" "\<not> mhas (ca_armed s) c"
    and other: "self_id s \<noteq> Some from"
  shows "let t = on_offer c from sd False s; u = on_call_invite c from mode t;
             v = snd (acceptIncomingCall c mode dev (call_stream mode x) u)
         in (\<exists>a. mget (ca_sessions t) c = Some a \<and> so_log (obj a t) = [LSignal (SOffer sd)] \<and> sent t = sent s
               \<and> map_option ms_state (media (app u)) = Some Ringing
               \<and> so_log (obj a v) = LSignal (SOffer sd) # call_tracks mode x)
          \<and> mhas (ca_armed v) c \<and> ca_offer v = None"
proof -
  obtain a n where new: "newSession c from Voice s = (a, n)" by fastforce
  note nf = newSession_frame[OF new] newSession_obj[OF new]
  define t where "t = on_offer c from sd False s"
  have t: "t = (onSignal a (SOffer sd) n)\<lparr>ca_offer := None\<rparr>"
    using fresh nf new by (simp add: t_def on_offer_def get_session_def answer_with_def Let_def)
  define u where "u = on_call_invite c from mode t"
  have o: "mget (ca_sessions t) c = Some a" "a < length (ca_heap t)" "\<not> so_closed (obj a t)" "so_log (obj a t) = [LSignal (SOffer sd)]"
    "ca_offer t = None" "sent t = sent s" "self_id t = self_id s"
    using nf by (simp_all add: t onSignal_def obj_log) (simp_all add: self_id_def)
  have h: "mget (ca_pending u) c = Some \<lparr>pd_from = from, pd_mode = mode, pd_stream = None\<rparr>" "mget (ca_sessions u) c = Some a"
    "a < length (ca_heap u)" "\<not> so_closed (obj a u)" "LTrack x \<notin> set (so_log (obj a u))"
    "so_log (obj a u) = [LSignal (SOffer sd)]" "ca_offer u = None"
    using o by (simp_all add: u_def invite_fields obj_def)
  have "map_option ms_state (media (app u)) = Some Ringing"
    unfolding u_def on_call_invite_def Let_def using o(7) other
    by (cases "app_profile (app s)"; cases "app_profile (app t)") (auto simp: plain_session_def self_id_def)
  then show ?thesis
    using o h accept_announced[OF h(1-5), where mode = mode and dev = dev]
    unfolding Let_def t_def[symmetric] u_def[symmetric] by (auto simp: h(7))
qed

theorem offer_overtakes_invite_witness:
  "mhas (ca_armed (snd (acceptIncomingCall ''c'' Voice ''bob'' (Some 7) (on_call_invite ''c'' ''bob'' Voice
      (on_offer ''c'' ''bob'' some_sdp False calls_init))))) ''c''"
proof -
  have "self_id calls_init \<noteq> Some ''bob''" by (simp add: self_id_def calls_init_def ui_init_def new_store_def ui.defs)
  then show ?thesis
    using offer_overtakes_invite[of calls_init "''c''" "''bob''" some_sdp Voice "''bob''" 7]
    by (simp add: Let_def call_stream_def captures_def)
qed

text \<open>There is one slot for a stored offer. Any offer for another call, be it the unannounced offer of a
  file transfer, drops the offer a ringing call is waiting with: when the user then answers, the call is
  armed for an offer that does not come again, and nothing is handed to its connection but the tracks.\<close>

theorem stored_offer_lost:
  assumes ring: "ca_offer s = Some (c, sd)" "mget (ca_pending s) c = Some p" "mget (ca_sessions s) c = Some a"
    "a < length (ca_heap s)" "so_log (obj a s) = []" "\<not> so_closed (obj a s)"
    and other: "c' \<noteq> c" "\<forall>b. mget (ca_sessions s) c' = Some b \<longrightarrow> b \<noteq> a"
  shows "let u = on_offer c' from' sd' fs s; t = snd (acceptIncomingCall c mode dev (call_stream mode x) u)
         in so_log (obj a t) = call_tracks mode x \<and> mhas (ca_armed t) c"
proof -
  obtain b n where g: "get_session c' from' (case mget (ca_pending s) c' of None \<Rightarrow> Voice | Some p \<Rightarrow> pd_mode p) s = (b, n)"
    by fastforce
  define u where "u = on_offer c' from' sd' fs s"
  have b: "b \<noteq> a" using g
  proof (cases rule: get_session_cases)
    case 2
    then show ?thesis using newSession_obj(1)[OF 2(2)] ring(4) by simp
  qed (use other in auto)
  note gf = get_session_frame[OF g]
  have len: "a < length (ca_heap n)"
    using g ring(4) by (cases rule: get_session_cases) (auto simp: newSession_def Let_def)
  have ans: "obj a (answer_with b st sd' t) = obj a t \<and> length (ca_heap (answer_with b st sd' t)) = length (ca_heap t)
      \<and> ca_sessions (answer_with b st sd' t) = ca_sessions t \<and> ca_pending (answer_with b st sd' t) = ca_pending t" for st t
    using b by (auto simp: answer_with_def addTrackFrom_def onSignal_def obj_log split: option.split)
  have u: "mget (ca_pending u) c = Some p" "mget (ca_sessions u) c = Some a" "a < length (ca_heap u)"
    "obj a u = obj a s" "map_option fst (ca_offer u) \<noteq> Some c"
    using g gf ring other ans len unfolding u_def on_offer_def Let_def by simp_all
  have free: "\<not> so_closed (obj a u)" "LTrack x \<notin> set (so_log (obj a u))" using u(4) ring(5,6) by simp_all
  note acc = accept_announced[OF u(1-3) free, where mode = mode and dev = dev]
  have "so_log (obj a (snd (acceptIncomingCall c mode dev (call_stream mode x) u))) = call_tracks mode x"
    using acc(2) u(4,5) ring(5) by (auto split: option.split)
  then show ?thesis using acc(4) u(5) by (auto simp: u_def[symmetric] Let_def)
qed

definition ringing :: calls where
  "ringing = calls_init\<lparr>ca_heap := [\<lparr>so_callId = ''c'', so_peerId = ''bob'', so_mode = Voice, so_dc = None, so_closed = False,
       so_log = [], so_inputs = []\<rparr>], ca_sessions := [(''c'', 0)], ca_offer := Some (''c'', some_sdp),
     ca_pending := [(''c'', \<lparr>pd_from = ''bob'', pd_mode = Voice, pd_stream = None\<rparr>)]\<rparr>"

theorem stored_offer_lost_witness:
  "mhas (ca_armed (snd (acceptIncomingCall ''c'' Voice ''bob'' (Some 7) (on_offer ''file1'' ''eve'' some_sdp True ringing)))) ''c''"
  using stored_offer_lost[of ringing "''c''" some_sdp "\<lparr>pd_from = ''bob'', pd_mode = Voice, pd_stream = None\<rparr>" 0 "''file1''"
      "''eve''" some_sdp True Voice "''bob''" 7]
  by (simp add: Let_def ringing_def mget_def obj_def call_stream_def captures_def)

subsection \<open>Placing a call\<close>

text \<open>Placing a call announces it before anything is captured and offers it after the tracks are on the
  connection; a call that will be controlled remotely opens its input channel and arms the injection
  before the offer. When the user refuses the capture, the callee has been rung, and the session and the
  overlay stay as they are: nothing is taken back.\<close>

theorem start_call_order:
  "let a = length (ca_heap s); r = startCall callId peerId mode got sd s; t = snd r;
       invite = (''media'', ''call_invite'', Some (invite_json callId peerId mode None))
   in fst r = (got \<noteq> None) \<and> mget (ca_sessions t) callId = Some a
    \<and> map_option ms_callId (media (app t)) = Some callId
    \<and> (case got of
         None \<Rightarrow> sent t = sent s @ [invite] \<and> so_log (obj a t) = [] \<and> \<not> so_closed (obj a t)
       | Some x \<Rightarrow> sent t = sent s @ [invite]
              @ (if mode = Remote then [(''media'', ''remote_host'', Some (host_bool True))] else [])
              @ [(''media'', ''offer'', Some (signal_json callId peerId sd))]
           \<and> so_log (obj a t) = [LTrack x] @ (if mode = Remote then [LChannel] else []) @ [LOwnOffer]
           \<and> fst (sessionStreams callId t) = Some x \<and> hosting (sent t) = (mode = Remote \<or> hosting (sent s)))"
  by (cases got)
    (auto simp: startCall_def startCall_open_def startCall_go_def newSession_def Let_def addTrackFrom_def sendOffer_def
      obj_log plain_session_def sessionStreams_def setLocalStream_def obj_def hosting_def hosting_step_def host_bool_def getStr_def
      log_obj_def upd_obj_def)

subsection \<open>Hanging up\<close>

lemma drop_viewer_at: "x \<notin> snd ` set pre \<Longrightarrow> drop_viewer x (pre @ (m, x) # post) = pre @ post"
  by (induction pre) auto

text \<open>The hang-up of one viewer of a shared room removes that viewer and its call and, with viewers left,
  nothing else: the share goes on. Its connection is not closed, and a viewer who had control keeps the
  entry among the controllers while the injection stays as it was. With the last viewer the share
  ends and the injection is off.\<close>

theorem viewer_hangup:
  assumes call: "mget (ca_shareOf s) c = Some rid" "rid \<noteq> []" "mget (ca_sessions s) c = Some x"
    and share: "mget (ca_shares s) rid = Some a" "a < length (ca_shareHeap s)"
      "sh_viewers (ca_shareHeap s ! a) = pre @ (m, x) # post" "x \<notin> snd ` set pre"
  shows "let t = on_call_hangup c s in
      mget (ca_sessions t) c = None \<and> mget (ca_shareOf t) c = None
    \<and> (if pre @ post \<noteq> []
       then map_option sh_viewers (share_of rid t) = Some (pre @ post)
          \<and> (\<forall>b. obj b t = obj b s) \<and> sent t = sent s \<and> media (app t) = media (app s)
          \<and> roomShareControllers rid t = roomShareControllers rid s
       else share_of rid t = None \<and> roomShareControllers rid t = [] \<and> \<not> hosting (sent t))"
proof -
  define s1 where "s1 = upd_share a (\<lambda>sh. sh\<lparr>sh_viewers := drop_viewer x (sh_viewers sh)\<rparr>) s"
  define s2 where "s2 = (if pre @ post = [] then endRoomShare rid s1 else s1)"
  have vs: "sh_viewers (ca_shareHeap s1 ! a) = pre @ post"
    using share by (simp add: s1_def upd_share_def drop_viewer_at)
  have op: "on_call_hangup c s = clearSessionStreams c (s2\<lparr>ca_sessions := mdel c (ca_sessions s2),
      ca_pending := mdel c (ca_pending s2), ca_shareOf := mdel c (ca_shareOf s2)\<rparr>)"
    using call share vs by (simp add: on_call_hangup_def roomShareOfCallId_def truthy_def s2_def s1_def[symmetric] Let_def)
  have view: "host_view (on_call_hangup c s) = host_view s2"
    unfolding op by (simp add: host_view_def)
  show ?thesis
  proof (cases "pre @ post = []")
    case True
    have "host_view s2 = (host_view s1)\<lparr>hv_shares := mdel rid (ca_shares s1), hv_ctrl := mdel rid (ca_ctrl s1), hv_host := False\<rparr>"
      using True by (simp add: s2_def host_view_end)
    note v = this[folded view, THEN arg_cong[of _ _ hv_shares]] this[folded view, THEN arg_cong[of _ _ hv_ctrl]]
      this[folded view, THEN arg_cong[of _ _ hv_host]]
    have "mget (ca_sessions (on_call_hangup c s)) c = None" "mget (ca_shareOf (on_call_hangup c s)) c = None" by (simp_all add: op)
    then show ?thesis using True v by (simp add: share_of_def roomShareControllers_def)
  next
    case False
    then have "s2 = s1" by (auto simp: s2_def)
    then show ?thesis
      using False vs share unfolding Let_def op
      by (simp add: share_of_def roomShareControllers_def) (simp add: s1_def upd_share_def obj_def)
  qed
qed

theorem viewer_hangup_witness:
  "map_option sh_viewers (share_of ''r'' (on_call_hangup ''c1'' shared_run)) = Some [(''eve'', 1)]
   \<and> roomShareControllers ''r'' (on_call_hangup ''c1'' shared_run) = roomShareControllers ''r'' shared_run"
  using viewer_hangup[of shared_run "''c1''" "''r''" 0 0 "[]" "''bob''" "[(''eve'', 1)]"]
  by (simp add: Let_def shared_run_facts) (simp add: mget_def)

text \<open>The hang-up of any other call forgets that call, closes its connection and no other, and takes the
  overlay away even when it shows a different call. The capture is not stopped, a stored offer stays, and
  the end of a remote session arms the injection of input instead of disarming it: the message carries
  the boolean, which the daemon reads as the default.\<close>

theorem call_hangup_forgets:
  assumes plain: "mget (ca_shareOf s) c = None" and x: "mget (ca_sessions s) c = Some x" "x < length (ca_heap s)"
  shows "let t = on_call_hangup c s in
      mget (ca_sessions t) c = None \<and> mget (ca_pending t) c = None \<and> mget (ca_armed t) c = None
    \<and> (\<forall>c'. c' \<noteq> c \<longrightarrow> mget (ca_sessions t) c' = mget (ca_sessions s) c' \<and> mget (ca_pending t) c' = mget (ca_pending s) c'
          \<and> mget (ca_armed t) c' = mget (ca_armed s) c')
    \<and> so_closed (obj x t) \<and> (\<forall>b. b \<noteq> x \<longrightarrow> obj b t = obj b s)
    \<and> media (app t) = None \<and> ca_stopped t = ca_stopped s \<and> ca_offer t = ca_offer s
    \<and> hosting (sent t) = (so_mode (obj x s) = Remote \<or> hosting (sent s))"
proof -
  define s1 where "s1 = (if so_mode (obj x s) = Remote then send ''media'' ''remote_host'' (Some (host_bool False)) s else s)"
  define s2 where "s2 = closeObj x s1"
  have op: "on_call_hangup c s = close_media (forget_call c s2)"
    using plain x by (simp add: on_call_hangup_def roomShareOfCallId_def truthy_def s2_def s1_def Let_def)
  have s1: "ca_sessions s1 = ca_sessions s" "ca_pending s1 = ca_pending s" "ca_armed s1 = ca_armed s" "ca_stopped s1 = ca_stopped s"
    "ca_offer s1 = ca_offer s" "obj b s1 = obj b s" "length (ca_heap s1) = length (ca_heap s)"
    "hosting (sent s1) = (so_mode (obj x s) = Remote \<or> hosting (sent s))" for b
    by (auto simp: s1_def)
  have s2: "ca_sessions s2 = ca_sessions s" "ca_pending s2 = ca_pending s" "ca_armed s2 = ca_armed s" "ca_stopped s2 = ca_stopped s"
    "ca_offer s2 = ca_offer s" "sent s2 = sent s1"
    by (simp_all add: s2_def closeObj_def s1)
  have o: "obj b (close_media (forget_call c s2)) = obj b s2" for b
    by (simp add: close_media_def forget_call_def)
  have o2: "so_closed (obj x s2)" "b \<noteq> x \<Longrightarrow> obj b s2 = obj b s" for b
    using x(2) by (simp_all add: s2_def obj_close s1)
  have rest: "media (app (close_media (forget_call c s2))) = None" "ca_stopped (close_media (forget_call c s2)) = ca_stopped s"
    "ca_offer (close_media (forget_call c s2)) = ca_offer s" "sent (close_media (forget_call c s2)) = sent s1"
    by (simp_all add: forget_call_def s2) (simp add: close_media_def)
  show ?thesis
    unfolding Let_def op rest o
    using o2 s1(8) by (simp add: forget_call_def s2)
qed

theorem call_hangup_forgets_witness:
  "so_closed (obj 0 (on_call_hangup ''c'' ringing)) \<and> ca_offer (on_call_hangup ''c'' ringing) = Some (''c'', some_sdp)"
  using call_hangup_forgets[of ringing "''c''" 0] by (simp add: Let_def ringing_def mget_def)

subsection \<open>The registry of sessions and the rendez-vous, whatever happens\<close>

text \<open>\<open>calm s t\<close>: from \<open>s\<close> to \<open>t\<close> no session was registered, no session object lost, no offer stored and no
  answer armed. Most operations are of this kind.\<close>

definition calm :: "calls \<Rightarrow> calls \<Rightarrow> bool" where
  "calm s t \<longleftrightarrow> (\<forall>c a. mget (ca_sessions t) c = Some a \<longrightarrow> mget (ca_sessions s) c = Some a)
    \<and> length (ca_heap t) = length (ca_heap s) \<and> (\<forall>b. so_callId (obj b t) = so_callId (obj b s))
    \<and> (ca_offer t = ca_offer s \<or> ca_offer t = None) \<and> (\<forall>c. mhas (ca_armed t) c \<longrightarrow> mhas (ca_armed s) c)"

lemma calm_refl: "calm s s"
  by (simp add: calm_def)

lemma calm_trans: "calm s t \<Longrightarrow> calm t u \<Longrightarrow> calm s u"
  unfolding calm_def by metis

named_theorems calm_intros \<open>operations that keep the registry calm\<close>

lemma calm_ui [calm_intros]:
  "calm s t \<Longrightarrow> calm s (patch p t)" "calm s t \<Longrightarrow> calm s (send ns m d t)" "calm s t \<Longrightarrow> calm s (toast n t)"
  "calm s t \<Longrightarrow> calm s (emitStreams t)" "calm s t \<Longrightarrow> calm s (clearSessionStreams c t)"
  "calm s t \<Longrightarrow> calm s (set_media f t)" "calm s t \<Longrightarrow> calm s (close_media t)" "calm s t \<Longrightarrow> calm s (disarm t)"
  "calm s t \<Longrightarrow> calm s (setLocalStream c x t)"
  by (simp_all add: calm_def set_media_def close_media_def disarm_def)

lemma calm_fields [calm_intros]:
  "calm s t \<Longrightarrow> calm s (t\<lparr>ca_stopped := x1\<rparr>)" "calm s t \<Longrightarrow> calm s (t\<lparr>ca_shares := x2\<rparr>)" "calm s t \<Longrightarrow> calm s (t\<lparr>ca_ctrl := x3\<rparr>)"
  "calm s t \<Longrightarrow> calm s (t\<lparr>ca_stopReq := x4\<rparr>)" "calm s t \<Longrightarrow> calm s (t\<lparr>ca_pending := x5\<rparr>)" "calm s t \<Longrightarrow> calm s (t\<lparr>ca_shareOf := x6\<rparr>)"
  "calm s t \<Longrightarrow> calm s (t\<lparr>ca_shareHeap := x7\<rparr>)" "calm s t \<Longrightarrow> calm s (upd_share a g t)"
  by (simp_all add: calm_def obj_def upd_share_def)

lemma calm_dels [calm_intros]:
  "calm s t \<Longrightarrow> calm s (t\<lparr>ca_sessions := mdel c (ca_sessions t), ca_pending := x5, ca_shareOf := x6\<rparr>)"
  "calm s t \<Longrightarrow> calm s (t\<lparr>ca_sessions := mdel c (ca_sessions t), ca_pending := x5, ca_armed := mdel c (ca_armed t)\<rparr>)"
  "calm s t \<Longrightarrow> calm s (t\<lparr>ca_armed := mdel c (ca_armed t)\<rparr>)"
  "calm s t \<Longrightarrow> calm s (t\<lparr>ca_offer := None\<rparr>)"
  by (auto simp: calm_def obj_def)

lemma calm_upd: "(\<And>ob. so_callId (f ob) = so_callId ob) \<Longrightarrow> calm s t \<Longrightarrow> calm s (upd_obj a f t)"
proof -
  assume f: "\<And>ob. so_callId (f ob) = so_callId ob" and c: "calm s t"
  have "so_callId (obj b (upd_obj a f t)) = so_callId (obj b t)" for b
    using f by (cases "a < length (ca_heap t)"; cases "b = a") (simp_all add: upd_obj_def obj_def list_update_beyond)
  then show ?thesis using c by (simp add: calm_def)
qed

lemma calm_obj [calm_intros]:
  "calm s t \<Longrightarrow> calm s (log_obj a e t)" "calm s t \<Longrightarrow> calm s (closeObj a t)" "calm s t \<Longrightarrow> calm s (hangup a t)"
  "calm s t \<Longrightarrow> calm s (onSignal a sig t)" "calm s t \<Longrightarrow> calm s (sendOffer a sd t)"
  unfolding log_obj_def closeObj_def hangup_def onSignal_def sendOffer_def Let_def
  by (intro calm_upd calm_ui; simp)+

lemma calm_fold: "(\<And>x t. calm t (f x t)) \<Longrightarrow> calm s (fold f xs s)"
  by (induction xs arbitrary: s) (auto intro: calm_refl calm_trans)

lemma calm_drop_call: "calm s (drop_share_call c s)"
  by (auto simp: drop_share_call_def Let_def calm_refl intro!: calm_intros split: option.split)

lemma calm_end [calm_intros]: "calm s t \<Longrightarrow> calm s (endRoomShare rid t)"
proof -
  assume c: "calm s t"
  have "calm t (fold hangup xs t)" for xs by (rule calm_fold) (rule calm_intros, rule calm_refl)
  moreover have "calm u (fold drop_share_call cs u)" for cs u by (rule calm_fold) (rule calm_drop_call)
  ultimately have "calm s (endRoomShare rid t)"
    unfolding endRoomShare_def Let_def
    by (intro calm_intros) (rule calm_trans[rotated], blast, rule calm_intros, auto intro: calm_trans[OF c] calm_intros c split: option.split)
  then show ?thesis .
qed

lemma calm_ctrl [calm_intros]:
  "calm s t \<Longrightarrow> calm s (drop_ctrl rid mid t)" "calm s t \<Longrightarrow> calm s (syncShareControllers rid b d t)"
  by (auto simp: drop_ctrl_def syncShareControllers_def Let_def intro!: calm_intros split: option.split)

lemma calm_kick: "calm s (snd (endRoomShareViewer rid mid s))"
proof -
  have step: "calm u (if P cid u then clearSessionStreams cid (drop_share_call cid u) else u)" for P cid and u :: calls
    by (auto intro!: calm_ui calm_drop_call calm_refl)
  have "calm t (fold (\<lambda>cid t. if mget (ca_sessions t) cid = Some x then clearSessionStreams cid (drop_share_call cid t) else t) cs t)"
    for x cs t by (rule calm_fold) (rule step[where P = "\<lambda>cid t. mget (ca_sessions t) cid = Some x"])
  note loop = calm_trans[OF _ this]
  show ?thesis
    unfolding endRoomShareViewer_def Let_def
    by (auto intro!: calm_intros loop calm_refl split: option.split)
qed

lemma calm_host:
  "calm s (snd (share_open rid nm stream s))" "calm s (on_stop_request rid from s)"
  "calm s (snd (resolveRoomShareStopRequest rid mid ok s))" "calm s (on_control_request from s)"
  "calm s (snd (resolveShareControlRequest mid ok r s))" "calm s (on_control_release from s)"
  "calm s (snd (revokeShareControl rid mid s))"
  unfolding share_open_def on_stop_request_def resolveRoomShareStopRequest_def on_control_request_def
    resolveShareControlRequest_def on_control_release_def revokeShareControl_def Let_def
  by (auto intro!: calm_intros calm_refl split: option.split)

definition reg_inv :: "calls \<Rightarrow> bool" where
  "reg_inv s \<longleftrightarrow> (\<forall>c a. mget (ca_sessions s) c = Some a \<longrightarrow> a < length (ca_heap s) \<and> so_callId (obj a s) = c)
    \<and> (\<forall>c sd. ca_offer s = Some (c, sd) \<longrightarrow> \<not> mhas (ca_armed s) c)"

lemma reg_calm: "calm s t \<Longrightarrow> reg_inv s \<Longrightarrow> reg_inv t"
  unfolding calm_def reg_inv_def by (metis option.distinct(1))

lemma reg_new: "newSession c p m s = (a, t) \<Longrightarrow> reg_inv s \<Longrightarrow> reg_inv t"
  by (auto simp: newSession_def reg_inv_def Let_def obj_def nth_append less_Suc_eq split: if_splits)

lemma reg_get: "get_session c p m s = (a, t) \<Longrightarrow> reg_inv s \<Longrightarrow> reg_inv t"
  by (auto elim!: get_session_cases intro: reg_new)

lemma reg_arm: "reg_inv s \<Longrightarrow> map_option fst (ca_offer s) \<noteq> Some c \<Longrightarrow> reg_inv (s\<lparr>ca_armed := mset_key c p (ca_armed s)\<rparr>)"
  by (auto simp: reg_inv_def obj_def)

lemma reg_store: "reg_inv s \<Longrightarrow> \<not> mhas (ca_armed s) c \<Longrightarrow> reg_inv (s\<lparr>ca_offer := Some (c, sd)\<rparr>)"
  by (auto simp: reg_inv_def obj_def)

lemma calm_track: "addTrackFrom a x s = Some t \<Longrightarrow> calm s t"
  by (auto simp: addTrackFrom_def intro: calm_intros calm_refl split: if_splits)

lemma reg_invite: "reg_inv s \<Longrightarrow> reg_inv (share_invite a rid m c stream sd s)"
proof -
  obtain x t where new: "newSession c m Share s = (x, t)" by fastforce
  assume "reg_inv s"
  from reg_new[OF new this] show ?thesis
    unfolding share_invite_eq Let_def new by (auto intro!: calm_intros intro: reg_calm calm_refl)
qed

lemma reg_start:
  "reg_inv s \<Longrightarrow> reg_inv (snd (startCall_open c p m s))" "reg_inv s \<Longrightarrow> reg_inv (snd (startCall_go a c m got sd s))"
proof -
  assume i: "reg_inv s"
  obtain x t where new: "newSession c p m s = (x, t)" by fastforce
  from reg_new[OF new i] show "reg_inv (snd (startCall_open c p m s))"
    unfolding startCall_open_def Let_def new by (auto intro!: calm_intros intro: reg_calm calm_refl)
  have "calm s (snd (startCall_go a c m got sd s))"
    unfolding startCall_go_def Let_def
    by (auto intro!: calm_intros calm_upd intro: calm_refl calm_trans[OF calm_ui(9)[OF calm_refl] calm_track] split: option.split)
  then show "reg_inv (snd (startCall_go a c m got sd s))" using i by (rule reg_calm)
qed

text \<open>What answering a call keeps: the steps of \<open>acceptIncomingCall\<close> one by one.\<close>

lemma accept_rule:
  assumes P: "P s"
    and stream: "\<And>x t. P t \<Longrightarrow> P (setLocalStream c x t)" and pending: "\<And>x t. P t \<Longrightarrow> P (t\<lparr>ca_pending := x\<rparr>)"
    and overlay: "\<And>m t. P t \<Longrightarrow> \<not> ms_ctrl m \<Longrightarrow> P (patch (\<lambda>p. p\<lparr>media := Some m\<rparr>) t)"
    and get: "\<And>peer t a u. get_session c peer mode t = (a, u) \<Longrightarrow> P t \<Longrightarrow> P u"
    and track: "\<And>a x t u. addTrackFrom a x t = Some u \<Longrightarrow> P t \<Longrightarrow> P u"
    and arm: "\<And>peer t. P t \<Longrightarrow> map_option fst (ca_offer t) \<noteq> Some c \<Longrightarrow> P (t\<lparr>ca_armed := mset_key c peer (ca_armed t)\<rparr>)"
    and answer: "\<And>a sd t. P t \<Longrightarrow> P (onSignal a (SOffer sd) (t\<lparr>ca_offer := None\<rparr>))"
    and accepted: "\<And>peer t. P t \<Longrightarrow> P (send ''media'' ''call_accept'' (Some (call_json c peer)) t)"
  shows "P (snd (acceptIncomingCall c mode dev got s))"
proof -
  define stream where "stream = (if captures mode then got else None)"
  define s1 where "s1 = (case stream of None \<Rightarrow> s | Some x \<Rightarrow> setLocalStream c (Some x) s)"
  define pc where "pc = mget (ca_pending s1) c"
  define s2 where "s2 = (case (stream, pc) of
      (Some x, Some p) \<Rightarrow> s1\<lparr>ca_pending := mset_key c (p\<lparr>pd_stream := Some x\<rparr>) (ca_pending s1)\<rparr> | _ \<Rightarrow> s1)"
  define peerId where "peerId = (case pc of None \<Rightarrow> dev | Some p \<Rightarrow> pd_from p)"
  define m where "m = plain_session c \<lparr>mp_deviceId = peerId,
    mp_name = (case truthy (map_option pd_from pc) of None \<Rightarrow> peerId | Some f \<Rightarrow> peer_label f s2), mp_mode = mode\<rparr> Outgoing Connecting"
  have P2: "P s2" using P by (auto simp: s2_def s1_def intro: stream pending split: option.split)
  obtain a s4 where g: "get_session c peerId mode (patch (\<lambda>p. p\<lparr>media := Some m\<rparr>) s2) = (a, s4)" by fastforce
  have P4: "P s4" by (rule get[OF g]) (rule overlay[OF P2], simp add: m_def plain_session_def)
  have op: "acceptIncomingCall c mode dev got s = (if captures mode \<and> got = None then (False, s)
      else case (case stream of None \<Rightarrow> Some s4 | Some x \<Rightarrow> addTrackFrom a x s4) of
           None \<Rightarrow> (False, s4)
         | Some s5 \<Rightarrow>
             (let arm = s5\<lparr>ca_armed := mset_key c peerId (ca_armed s5)\<rparr>;
                  s6 = (case ca_offer s5 of
                          None \<Rightarrow> arm
                        | Some (c', sd) \<Rightarrow> if c' = c then onSignal a (SOffer sd) (s5\<lparr>ca_offer := None\<rparr>) else arm)
              in (True, send ''media'' ''call_accept'' (Some (call_json c peerId)) s6)))"
    unfolding acceptIncomingCall_def stream_def[symmetric] Let_def s1_def[symmetric] pc_def[symmetric]
      s2_def[symmetric] peerId_def[symmetric] m_def[symmetric] g by simp
  have P5: "P s5" if "(case stream of None \<Rightarrow> Some s4 | Some x \<Rightarrow> addTrackFrom a x s4) = Some s5" for s5
    using that P4 by (auto intro: track split: option.splits)
  show ?thesis
    unfolding op using P P4 P5 by (auto simp: Let_def intro!: accepted arm intro: answer split: option.split)
qed

lemma reg_accept: "reg_inv s \<Longrightarrow> reg_inv (snd (acceptIncomingCall c mode dev got s))"
  by (rule accept_rule)
     (auto intro!: reg_arm reg_calm[OF calm_ui(1)[OF calm_refl]] reg_calm[OF calm_ui(2)[OF calm_refl]] reg_calm[OF calm_ui(9)[OF calm_refl]]
       reg_calm[OF calm_fields(5)[OF calm_refl]] reg_calm[OF calm_obj(4)[OF calm_dels(4)[OF calm_refl]]]
      elim: reg_get reg_calm[OF calm_track])

lemma calm_answer: "calm s (answer_with a st sd s)"
  by (auto simp: answer_with_def intro!: calm_obj(4) calm_refl dest: calm_track split: option.split)

lemma reg_offer: "reg_inv s \<Longrightarrow> reg_inv (on_offer c from sd fs s)"
proof -
  assume i: "reg_inv s"
  obtain a t where g: "get_session c from (case mget (ca_pending s) c of None \<Rightarrow> Voice | Some p \<Rightarrow> pd_mode p) s = (a, t)"
    by fastforce
  note i1 = reg_get[OF g i]
  have ans: "reg_inv ((answer_with a st sd u)\<lparr>ca_offer := None\<rparr>)" if "reg_inv u" for st u
    by (rule reg_calm[OF _ that]) (intro calm_dels calm_answer)
  have "reg_inv (t\<lparr>ca_armed := mdel c (ca_armed t)\<rparr>)"
    by (rule reg_calm[OF _ i1]) (intro calm_dels calm_refl)
  then show ?thesis
    unfolding on_offer_def Let_def g using ans i1 by (auto intro: reg_store)
qed

lemma reg_route: "reg_inv s \<Longrightarrow> reg_inv (routeSignal c sig from s)"
proof -
  assume i: "reg_inv s"
  obtain a t where g: "get_session c from (case mget (ca_pending s) c of None \<Rightarrow> Voice | Some p \<Rightarrow> pd_mode p) s = (a, t)"
    by fastforce
  show ?thesis
    unfolding routeSignal_def Let_def g
    by (auto intro!: reg_calm[OF _ reg_get[OF g i]] calm_intros calm_refl)
qed

lemma calm_forget: "calm s t \<Longrightarrow> calm s (forget_call c t)"
  unfolding forget_call_def by (intro calm_intros)

lemma calm_hangups: "calm s (on_call_hangup c s)" "calm s (hangupDebug s)"
proof -
  have "calm t (hangup_one e t)" for e t
    by (cases e) (auto simp: hangup_one_def Let_def intro!: calm_forget calm_intros calm_refl)
  then have "calm s (fold hangup_one xs s)" for xs by (rule calm_fold)
  then show "calm s (hangupDebug s)" unfolding hangupDebug_def by (intro calm_intros)
  show "calm s (on_call_hangup c s)"
    unfolding on_call_hangup_def Let_def
    by (auto intro!: calm_forget calm_intros calm_refl split: option.split)
qed

lemma reg_control: "reg_inv s \<Longrightarrow> reg_inv (on_control_grant ok exn sd s)" "reg_inv s \<Longrightarrow> reg_inv (on_control_revoke s)"
proof -
  assume i: "reg_inv s"
  have dis: "calm s (disableShareControl c s)" for c
    by (auto simp: disableShareControl_def Let_def intro!: calm_intros calm_refl split: option.split)
  show "reg_inv (on_control_revoke s)"
    unfolding on_control_revoke_def using i by (auto intro!: reg_calm[OF _ i] calm_intros dis split: option.split)
  have att: "reg_inv (snd (attachRemoteDatachannel c h s))" for c h
  proof -
    obtain a t where g: "get_session c h Remote s = (a, t)" by fastforce
    show ?thesis unfolding attachRemoteDatachannel_def Let_def g
      by (auto intro!: reg_calm[OF _ reg_get[OF g i]] calm_upd calm_refl)
  qed
  have get: "reg_inv (snd (get_session c h Remote s))" for c h
    using reg_get[OF _ i] by (cases "get_session c h Remote s") auto
  have en: "reg_inv (snd (enableShareControl c h exn sd s))" for c h
  proof -
    obtain a t where g: "get_session c h Remote s = (a, t)" by fastforce
    obtain b cr u where at: "attachRemoteDatachannel c h s = ((b, cr), u)" by (metis surj_pair)
    have "reg_inv t" "reg_inv u" using get[of c h] att[of c h] g at by simp_all
    then show ?thesis unfolding enableShareControl_def Let_def g at
      by (auto intro!: calm_intros calm_refl intro: reg_calm split: option.split)
  qed
  show "reg_inv (on_control_grant ok exn sd s)"
    unfolding on_control_grant_def using i
    by (auto intro!: en intro: reg_calm[OF calm_ui(3)[OF calm_refl]] split: option.split)
qed

text \<open>Everything that can happen to the calls of a client, as host, caller, callee or viewer.\<close>

datatype call_event =
    CStart string string media_mode
  | CCaptured nat string media_mode "nat option" session_description
  | CInvite string string media_mode
  | CAccept string media_mode string "nat option"
  | COffer string string session_description bool
  | CAnswer string string session_description
  | CIce string string ice_candidate
  | CAccepted string
  | CHangup string
  | CHangupAll
  | CGrant bool "string option" session_description
  | CRevoked
  | CHost host_event

fun call_step :: "call_event \<Rightarrow> calls \<Rightarrow> calls" where
  "call_step (CStart c p m) s = snd (startCall_open c p m s)"
| "call_step (CCaptured a c m got sd) s = snd (startCall_go a c m got sd s)"
| "call_step (CInvite c from m) s = on_call_invite c from m s"
| "call_step (CAccept c m dev got) s = snd (acceptIncomingCall c m dev got s)"
| "call_step (COffer c from sd fs) s = on_offer c from sd fs s"
| "call_step (CAnswer c from sd) s = on_answer c from sd s"
| "call_step (CIce c from cand) s = on_ice c from cand s"
| "call_step (CAccepted c) s = on_call_accept c s"
| "call_step (CHangup c) s = on_call_hangup c s"
| "call_step CHangupAll s = hangupDebug s"
| "call_step (CGrant ok exn sd) s = on_control_grant ok exn sd s"
| "call_step CRevoked s = on_control_revoke s"
| "call_step (CHost e) s = host_step e s"

lemma reg_host: "reg_inv s \<Longrightarrow> reg_inv (host_step e s)"
  by (cases e) (simp_all add: reg_invite calm_host[THEN reg_calm] calm_kick[THEN reg_calm] calm_end[OF calm_refl, THEN reg_calm])

lemma reg_step: "reg_inv s \<Longrightarrow> reg_inv (call_step e s)"
proof (cases e)
  case (CInvite c p m)
  assume "reg_inv s"
  then show ?thesis unfolding CInvite
    by (simp add: on_call_invite_def Let_def) (auto intro: reg_calm[OF calm_fields(5)[OF calm_refl]] reg_calm[OF calm_ui(1)[OF calm_fields(5)[OF calm_refl]]])
next
  case (CAccepted c)
  assume "reg_inv s"
  then show ?thesis unfolding CAccepted by (simp add: on_call_accept_def reg_calm[OF calm_ui(6)[OF calm_refl]])
qed (simp_all add: reg_start reg_accept reg_offer reg_route on_answer_def on_ice_def reg_control reg_host
      reg_calm[OF calm_hangups(1)] reg_calm[OF calm_hangups(2)])

interpretation calls_sys: transition_system call_step "\<lambda>s. s = calls_init" reg_inv
  by unfold_locales (simp_all add: reg_step, simp add: reg_inv_def)

text \<open>C13: whatever calls, answers, offers, candidates, hang-ups, shares and grants a client goes through, a
  session is registered under its own call id and exists, and no call waits on both sides of the
  rendez-vous: when the offer of a call is stored, no answer is armed for it.\<close>

theorem calls_registry:
  "let s = run_events call_step es calls_init in
     (\<forall>c a. mget (ca_sessions s) c = Some a \<longrightarrow> a < length (ca_heap s) \<and> so_callId (obj a s) = c)
   \<and> (\<forall>c c' a. mget (ca_sessions s) c = Some a \<and> mget (ca_sessions s) c' = Some a \<longrightarrow> c = c')
   \<and> (\<forall>c sd. ca_offer s = Some (c, sd) \<longrightarrow> \<not> mhas (ca_armed s) c)"
proof -
  have "reg_inv (run_events call_step es calls_init)" by (rule calls_sys.inv_reachable) simp
  then show ?thesis unfolding Let_def reg_inv_def by blast
qed

theorem calls_registry_witness:
  "\<not> mhas (ca_armed (run_events call_step [CInvite ''c'' ''bob'' Voice, COffer ''c'' ''bob'' some_sdp False] calls_init)) ''c''
   \<and> ca_offer (run_events call_step [CInvite ''c'' ''bob'' Voice, COffer ''c'' ''bob'' some_sdp False] calls_init) = Some (''c'', some_sdp)"
proof -
  have "ca_offer (run_events call_step [CInvite ''c'' ''bob'' Voice, COffer ''c'' ''bob'' some_sdp False] calls_init) = Some (''c'', some_sdp)"
    by (simp add: on_offer_def invite_fields get_session_def newSession_def Let_def)
  then show ?thesis
    using calls_registry[of "[CInvite ''c'' ''bob'' Voice, COffer ''c'' ''bob'' some_sdp False]"] unfolding Let_def by blast
qed

end
