(* ===== verification/Hooks.thy ===== *)
theory Hooks
  imports Rpc_Client
begin

text \<open>
  The handlers the client registers for the daemon's events at start (\<open>main.ts\<close> calls \<open>initNativeHooks\<close> of
  \<open>client/native_client.ts\<close>, then \<open>initWebrtc\<close> of \<open>client/webrtc.ts\<close>). A handler is named by a constructor of
  \<open>hook\<close>; what it does is the subject of the theories of its component. The registry has one handler per
  key \<open>ns.m\<close>, and a later registration replaces an earlier one.
\<close>

datatype hook =
    HkPeerFound | HkPeerLost | HkChat | HkAck | HkRoomMessage | HkMedia | HkTransferStatus | HkJoined | HkInvited
  | HkSync | HkRoomSync | HkMemberJoined | HkMemberLeft
  | HkCallInvite | HkOffer | HkAnswer | HkIce | HkCallAccept | HkCallHangup | HkStopRequest | HkStopAck
  | HkControlRequest | HkControlGrant | HkControlRelease | HkControlRevoke

definition native_hooks :: "(string \<times> string \<times> hook) list" where
  "native_hooks =
     [(''presence'', ''peer_found'', HkPeerFound), (''presence'', ''peer_lost'', HkPeerLost),
      (''message'', ''chat'', HkChat), (''message'', ''ack'', HkAck), (''room'', ''room_message'', HkRoomMessage),
      (''media'', ''media'', HkMedia), (''file'', ''transfer_status'', HkTransferStatus),
      (''room'', ''joined'', HkJoined), (''room'', ''invited'', HkInvited), (''room'', ''sync'', HkSync),
      (''room'', ''room_sync'', HkRoomSync), (''room'', ''member_joined'', HkMemberJoined),
      (''room'', ''member_left'', HkMemberLeft)]"

definition webrtc_hooks :: "(string \<times> string \<times> hook) list" where
  "webrtc_hooks =
     [(''media'', ''call_invite'', HkCallInvite), (''media'', ''offer'', HkOffer), (''media'', ''answer'', HkAnswer),
      (''media'', ''ice'', HkIce), (''media'', ''call_accept'', HkCallAccept), (''media'', ''call_hangup'', HkCallHangup),
      (''media'', ''room_share_stop_request'', HkStopRequest), (''media'', ''room_share_stop_ack'', HkStopAck),
      (''media'', ''share_control_request'', HkControlRequest), (''media'', ''share_control_grant'', HkControlGrant),
      (''media'', ''share_control_release'', HkControlRelease), (''media'', ''share_control_revoke'', HkControlRevoke)]"

definition register :: "(string \<times> string \<times> hook) list \<Rightarrow> hook rpc \<Rightarrow> hook rpc" where
  "register hs = fold (\<lambda>(ns, m, h). on_handler ns m h) hs"

definition initNativeHooks :: "hook rpc \<Rightarrow> hook rpc" where
  "initNativeHooks = register native_hooks"

definition initWebrtc :: "hook rpc \<Rightarrow> hook rpc" where
  "initWebrtc = register webrtc_hooks"

text \<open>The start of the client: the hooks, then the connection.\<close>

definition boot :: "hook rpc \<Rightarrow> hook rpc" where
  "boot s = connect (initWebrtc (initNativeHooks s))"

definition all_hooks :: "(string \<times> string \<times> hook) list" where
  "all_hooks = native_hooks @ webrtc_hooks"

definition hook_table :: "(string \<times> hook) list" where
  "hook_table = map (\<lambda>(ns, m, h). (ns_key ns m, h)) all_hooks"

lemma handlers_register:
  "rp_handlers (register hs s) = fold (\<lambda>(k, h). mset_key k h) (map (\<lambda>(ns, m, h). (ns_key ns m, h)) hs) (rp_handlers s)"
proof (induction hs arbitrary: s)
  case (Cons e hs)
  then show ?case by (cases e) (simp add: register_def on_handler_def)
qed (simp add: register_def)

text \<open>The 25 keys are pairwise different, so no registration replaces another.\<close>

lemma hook_keys: "distinct (map fst hook_table)"
  by code_simp

lemma boot_handlers:
  assumes "rp_handlers s = []"
  shows "mget (rp_handlers (boot s)) k = map_of hook_table k"
proof -
  have "rp_handlers (boot s) = fold (\<lambda>(k, h). mset_key k h) hook_table []"
    using assms by (simp add: boot_def connect_def initWebrtc_def initNativeHooks_def handlers_register all_hooks_def
        hook_table_def Let_def)
  then show ?thesis by (simp add: mget_fold_set[OF hook_keys] split: option.split)
qed

text \<open>After the start every event reaches the handler written for it and no other: none of the 25 registrations
  replaces another, and an event whose key is not among them, such as the daemons' \<open>discovery.peer_found\<close> or
  \<open>media.call_reject\<close>, is logged and ignored.\<close>

theorem events_reach_hooks:
  assumes "ev_dir env = Ev" "rp_handlers s = []"
  shows "((ev_ns env, ev_m env, h) \<in> set all_hooks \<longrightarrow>
           rp_invoked (on_message (Some env) (boot s)) = rp_invoked s @ [(h, ev_m env, ev_d env, ev_txn env)])
    \<and> (ns_key (ev_ns env) (ev_m env) \<notin> fst ` set hook_table \<longrightarrow>
           rp_invoked (on_message (Some env) (boot s)) = rp_invoked s \<and> ui_store (on_message (Some env) (boot s)) = ui_store s)
    \<and> ns_key ''discovery'' ''peer_found'' \<notin> fst ` set hook_table \<and> ns_key ''media'' ''call_reject'' \<notin> fst ` set hook_table"
proof -
  have "rp_invoked (register hs t) = rp_invoked t \<and> ui_store (register hs t) = ui_store t" for hs t
    by (induction hs arbitrary: t) (auto simp: register_def on_handler_def)
  then have keep: "rp_invoked (boot s) = rp_invoked s" "ui_store (boot s) = ui_store s"
    by (simp_all add: boot_def connect_def initWebrtc_def initNativeHooks_def Let_def)
  have hit: "map_of hook_table (ns_key (ev_ns env) (ev_m env)) = Some h" if "(ev_ns env, ev_m env, h) \<in> set all_hooks"
    using that by (intro map_of_is_SomeI[OF hook_keys]) (force simp: hook_table_def)
  have miss: "map_of hook_table k = None" if "k \<notin> fst ` set hook_table" for k
    using that by (simp add: map_of_eq_None_iff)
  have "ns_key ''discovery'' ''peer_found'' \<notin> fst ` set hook_table" "ns_key ''media'' ''call_reject'' \<notin> fst ` set hook_table"
    by code_simp+
  then show ?thesis
    using assms(1) hit miss keep by (simp add: on_message_def boot_handlers[OF assms(2)] Let_def)
qed

definition found_event :: envelope where
  "found_event = \<lparr>ev_v = 1, ev_txn = None, ev_dir = Ev, ev_ns = ''discovery'', ev_m = ''peer_found'', ev_ok = None,
     ev_err = None, ev_d = None\<rparr>"

theorem events_reach_hooks_witness:
  "rp_invoked (on_message (Some found_event) (boot (rpc_init [] None))) = []"
  using events_reach_hooks[of found_event "rpc_init [] None"]
  by (simp add: found_event_def rpc_init_def ui.defs)

end
