(* ===== verification/Js_Text.thy ===== *)
theory Js_Text
  imports Complex_Main LIM_Prelude
begin

text \<open>
  The string operations of JavaScript the code uses: searching, splitting, trimming, lower case. Strings are
  the bytes of their UTF-8 (or latin1) encoding; the operations only look at ASCII characters and the no-break
  space of latin1. \<open>Math.round\<close> and \<open>toFixed\<close> are on rationals; the quotients they are applied to are
  exact or rounded by less than the arguments can tell.
\<close>

fun find_sub :: "string \<Rightarrow> string \<Rightarrow> nat option" where
  "find_sub pat [] = (if pat = [] then Some 0 else None)"
| "find_sub pat (c # cs) = (if take (length pat) (c # cs) = pat then Some 0 else map_option Suc (find_sub pat cs))"

lemma find_sub_bound: "find_sub pat s = Some i \<Longrightarrow> i + length pat \<le> length s"
proof (induction s arbitrary: i)
  case (Cons c cs)
  show ?case
  proof (cases "take (length pat) (c # cs) = pat")
    case True
    then have "length pat \<le> length (c # cs)" by (metis length_take min.cobounded1)
    then show ?thesis using Cons.prems True by simp
  qed (use Cons in auto)
qed (auto split: if_splits)

function split_on :: "string \<Rightarrow> string \<Rightarrow> string list" where
  "split_on sep s =
     (if sep = [] then [s]
      else case find_sub sep s of None \<Rightarrow> [s] | Some i \<Rightarrow> take i s # split_on sep (drop (i + length sep) s))"
  by pat_completeness auto
termination
proof (relation "measure (\<lambda>(sep, s). length s)")
  fix sep s :: string and i
  assume "sep \<noteq> []" "find_sub sep s = Some i"
  then have "0 < length sep" "i + length sep \<le> length s" by (simp_all add: find_sub_bound)
  then have "length s - (i + length sep) < length s" by linarith
  then show "((sep, drop (i + length sep) s), sep, s) \<in> measure (\<lambda>(sep, s). length s)" by simp
qed simp

declare split_on.simps [simp del]

definition js_space :: "char \<Rightarrow> bool" where
  "js_space c \<longleftrightarrow> of_char c \<in> {9, 10, 11, 12, 13, 32, 160 :: nat}"

definition trim :: "string \<Rightarrow> string" where
  "trim s = rev (dropWhile js_space (rev (dropWhile js_space s)))"

definition lower :: "string \<Rightarrow> string" where
  "lower = map (\<lambda>c. if 65 \<le> (of_char c :: nat) \<and> (of_char c :: nat) \<le> 90 then char_of (of_char c + 32 :: nat) else c)"

text \<open>Splitting a text that contains no separator, and one that does.\<close>

lemma find_sub_single: "find_sub [c] s = (if c \<in> set s then find_index (\<lambda>d. d = c) s else None)"
  by (induction s) auto

lemma split_none: "c \<notin> set s \<Longrightarrow> split_on [c] s = [s]"
  by (simp add: split_on.simps find_sub_single)

lemma find_index_append: "c \<notin> set a \<Longrightarrow> find_index (\<lambda>d. d = c) (a @ c # b) = Some (length a)"
  by (induction a) auto

lemma split_cons: "c \<notin> set a \<Longrightarrow> split_on [c] (a @ c # b) = a # split_on [c] b"
  by (subst split_on.simps) (simp add: find_sub_single find_index_append)

subsection \<open>Rounding\<close>

definition js_round :: "rat \<Rightarrow> int" where
  "js_round r = \<lfloor>r + 1 / 2\<rfloor>"

lemma js_round_mono: "x \<le> y \<Longrightarrow> js_round x \<le> js_round y"
  by (simp add: js_round_def floor_mono)

lemma js_round_int: "js_round (of_int n) = n" "js_round (of_nat k) = int k"
proof -
  have "\<lfloor>(of_int n :: rat) + 1 / 2\<rfloor> = n" by (rule floor_unique) simp_all
  then show "js_round (of_int n) = n" by (simp add: js_round_def)
  have "\<lfloor>(of_nat k :: rat) + 1 / 2\<rfloor> = int k" by (rule floor_unique) simp_all
  then show "js_round (of_nat k) = int k" by (simp add: js_round_def)
qed

text \<open>\<open>(n / m).toFixed(k)\<close> for natural numbers: the nearest multiple of the last digit, a tie upwards.\<close>

definition to_fixed :: "nat \<Rightarrow> nat \<Rightarrow> nat \<Rightarrow> string" where
  "to_fixed k n m =
     (let t = (2 * n * 10 ^ k + m) div (2 * m); frac = show_nat (t mod 10 ^ k)
      in show_nat (t div 10 ^ k) @ ''.'' @ replicate (k - length frac) (CHR ''0'') @ frac)"

end
