(* ===== verification/Media_Overlay.thy ===== *)
theory Media_Overlay
  imports Js_Text Calls
begin

text \<open>
  The overlay of calls and shares (\<open>ui/src/views/media.ts\<close>): what is shown as a function of the state, and what
  its buttons and its input panel do. The DOM itself is not modelled: \<open>renderMedia\<close> returns the parts on
  display. Pixel offsets are rationals, and the rounding is that of \<open>Math.round\<close>.
\<close>

subsection \<open>What is shown\<close>

record viewer_row =
  vr_id :: string
  vr_name :: string
  vr_controls :: bool

record share_bar =
  sb_viewers :: "viewer_row list"
  sb_stop :: "(string \<times> string) option"
  sb_control :: "(string \<times> string) option"

record live_panel =
  lp_voice :: bool
  lp_main :: "nat option"
  lp_pip :: "nat option"
  lp_request :: bool
  lp_leaveControl :: bool
  lp_bar :: "share_bar option"
  lp_remote :: bool

datatype panel = Hidden | Ring media_peer | Talk live_panel

text \<open>The picture in the large and in the small frame.\<close>

definition showMain :: "media_mode \<Rightarrow> nat option \<Rightarrow> nat option \<Rightarrow> nat option" where
  "showMain mode ls rs = (case rs of Some r \<Rightarrow> Some r | None \<Rightarrow> if mode = Share \<or> mode = Remote then ls else None)"

definition showPip :: "nat option \<Rightarrow> nat option \<Rightarrow> nat option" where
  "showPip ls rs = (if rs \<noteq> None then ls else None)"

definition renderRoomShareBar :: "string \<Rightarrow> media_session \<Rightarrow> calls \<Rightarrow> share_bar" where
  "renderRoomShareBar rid m s =
     (let ctl = (case ms_controllers m of None \<Rightarrow> [] | Some l \<Rightarrow> l)
      in \<lparr>sb_viewers = map (\<lambda>v. \<lparr>vr_id = v, vr_name = peer_label v s, vr_controls = (v \<in> set ctl)\<rparr>) (roomShareViewers rid s),
          sb_stop = ms_shareReq m, sb_control = ms_ctrlReq m\<rparr>)"

definition renderMedia :: "calls \<Rightarrow> panel" where
  "renderMedia s =
     (case media (app s) of
        None \<Rightarrow> Hidden
      | Some m \<Rightarrow>
          if ms_direction m = Incoming \<and> ms_state m = Ringing then Ring (ms_peer m)
          else (let callId = ms_callId m; mode = mp_mode (ms_peer m);
                    (ls, rs) = sessionStreams callId s;
                    watching = (\<not> ms_roomShare m \<and> mode = Share);
                    voice = (mode = Voice)
                in Talk \<lparr>lp_voice = voice,
                     lp_main = (if voice then None else showMain mode ls rs),
                     lp_pip = (if voice then None else showPip ls rs),
                     lp_request = (watching \<and> \<not> ms_ctrl m), lp_leaveControl = (watching \<and> ms_ctrl m),
                     lp_bar = (if \<not> voice \<and> ms_roomShare m then Some (renderRoomShareBar callId m s) else None),
                     lp_remote = (\<not> voice \<and> (mode = Remote \<or> ms_ctrl m))\<rparr>))"

subsection \<open>The buttons\<close>

definition only_call :: "string \<Rightarrow> json" where
  "only_call callId = JObj [(''callId'', JStr callId)]"

definition reject_button :: "media_session \<Rightarrow> calls \<Rightarrow> calls" where
  "reject_button m s = close_media (send ''media'' ''call_reject'' (Some (only_call (ms_callId m))) s)"

text \<open>Accepting: the notice, the overlay, and \<open>acceptIncomingCall\<close> with the result of the capture.\<close>

definition accept_button :: "media_session \<Rightarrow> nat option \<Rightarrow> calls \<Rightarrow> calls" where
  "accept_button m got s =
     (let s1 = send ''media'' ''call_accept'' (Some (call_json (ms_callId m) (mp_deviceId (ms_peer m)))) s;
          s2 = patch (\<lambda>p. p\<lparr>media := Some (m\<lparr>ms_direction := Outgoing, ms_state := Connecting\<rparr>)\<rparr>) s1;
          (ok, s3) = acceptIncomingCall (ms_callId m) (mp_mode (ms_peer m)) (mp_deviceId (ms_peer m)) got s2
      in if ok then s3 else toast NAcceptFailed s3)"

definition end_button :: "media_session \<Rightarrow> calls \<Rightarrow> calls" where
  "end_button m s =
     (if ms_roomShare m then endRoomShare (ms_callId m) s
      else close_media (send ''media'' ''call_hangup'' (Some (only_call (ms_callId m))) s))"

text \<open>Whether the native daemon relays a media message, and to whom: by its field \<open>to\<close>, when that peer is known.\<close>

definition relayed :: "string \<Rightarrow> string list \<Rightarrow> string \<times> string \<times> json option \<Rightarrow> string option" where
  "relayed own known e =
     (case e of (ns, m, d) \<Rightarrow>
       if ns = ''media'' \<and> m \<noteq> ''remote_host'' \<and> m \<noteq> ''remote_input''
       then (let to = getStr d ''to'' [] in if to \<noteq> [] \<and> to \<noteq> own \<and> to \<in> set known then Some to else None)
       else None)"

text \<open>The buttons of the overlay that end a one-to-one call or reject one do not end it: the message names no
  recipient, so no daemon relays it and the other side is not told; the overlay goes away, but the session
  stays registered with its connection open and its streams in place, and a rejected call stays pending.\<close>

theorem end_button_ends_nothing:
  assumes "\<not> ms_roomShare m"
  shows "let t = end_button m s; u = reject_button m s in
      media (app t) = None \<and> media (app u) = None
    \<and> (\<exists>e. sent t = sent s @ [e] \<and> (\<forall>own known. relayed own known e = None))
    \<and> (\<exists>e. sent u = sent s @ [e] \<and> (\<forall>own known. relayed own known e = None))
    \<and> ca_sessions t = ca_sessions s \<and> ca_heap t = ca_heap s \<and> ca_local t = ca_local s \<and> ca_remote t = ca_remote s
    \<and> ca_stopped t = ca_stopped s \<and> ca_sessions u = ca_sessions s \<and> ca_pending u = ca_pending s"
  using assms
  by (auto simp: end_button_def reject_button_def relayed_def only_call_def getStr_def Let_def)
     (simp_all add: close_media_def)

definition live_call :: media_session where
  "live_call = plain_session ''c'' \<lparr>mp_deviceId = ''bob'', mp_name = ''bob'', mp_mode = Video\<rparr> Outgoing Connecting"

theorem end_button_ends_nothing_witness:
  "ca_sessions (end_button live_call ringing) = [(''c'', 0)] \<and> \<not> so_closed (obj 0 (end_button live_call ringing))"
proof -
  have "ca_sessions (end_button live_call ringing) = ca_sessions ringing" "ca_heap (end_button live_call ringing) = ca_heap ringing"
    using end_button_ends_nothing[of live_call ringing] by (simp_all add: Let_def live_call_def plain_session_def)
  then show ?thesis by (simp add: ringing_def obj_def)
qed

subsection \<open>The remote panel\<close>

text \<open>\<open>vw\<close>: the width of the video in its own pixels, \<open>cw\<close>: its width on display; zero is false.\<close>

definition scale :: "nat \<Rightarrow> nat \<Rightarrow> rat" where
  "scale vw cw = (if vw \<noteq> 0 \<and> cw \<noteq> 0 then of_nat vw / of_nat cw else 1)"

definition pt :: "nat \<Rightarrow> nat \<Rightarrow> rat \<Rightarrow> rat \<Rightarrow> int \<times> int" where
  "pt vw cw x y = (js_round (x * scale vw cw), js_round (y * scale vw cw))"

datatype dom_event =
    PMove rat rat | PDown rat rat int | PUp rat rat int | PWheel rat rat rat
  | KDown string bool | KUp string

definition pointer_input :: "input_type \<Rightarrow> int \<times> int \<Rightarrow> int option \<Rightarrow> int option \<Rightarrow> remote_input" where
  "pointer_input t p btn d = \<lparr>in_t = t, in_x = Some (fst p), in_y = Some (snd p), in_btn = btn, in_code = None, in_d = d\<rparr>"

definition key_input :: "input_type \<Rightarrow> string \<Rightarrow> remote_input" where
  "key_input t code = \<lparr>in_t = t, in_x = None, in_y = None, in_btn = None, in_code = Some code, in_d = None\<rparr>"

definition wheel_step :: "rat \<Rightarrow> int" where
  "wheel_step dy = (if dy > 0 then 120 else if dy < 0 then - 120 else 0)"

fun panel_input :: "nat \<Rightarrow> nat \<Rightarrow> dom_event \<Rightarrow> remote_input option" where
  "panel_input vw cw (PMove x y) = Some (pointer_input MouseMove (pt vw cw x y) None None)"
| "panel_input vw cw (PDown x y b) = Some (pointer_input MouseDown (pt vw cw x y) (Some b) None)"
| "panel_input vw cw (PUp x y b) = Some (pointer_input MouseUp (pt vw cw x y) (Some b) None)"
| "panel_input vw cw (PWheel x y dy) = Some (pointer_input Wheel (pt vw cw x y) None (Some (wheel_step dy)))"
| "panel_input vw cw (KDown code composing) = (if composing then None else Some (key_input KeyDown code))"
| "panel_input vw cw (KUp code) = Some (key_input KeyUp code)"

definition prevented :: "dom_event \<Rightarrow> bool" where
  "prevented e = (case e of KDown code composing \<Rightarrow> \<not> composing
     \<and> code \<in> set [''Tab'', ''ArrowUp'', ''ArrowDown'', ''ArrowLeft'', ''ArrowRight'', ''Space''] | _ \<Rightarrow> False)"

definition callIdOf :: "calls \<Rightarrow> string" where
  "callIdOf s = (case media (app s) of None \<Rightarrow> [] | Some m \<Rightarrow> ms_callId m)"

definition on_panel :: "nat \<Rightarrow> nat \<Rightarrow> dom_event \<Rightarrow> calls \<Rightarrow> calls" where
  "on_panel vw cw e s = (case panel_input vw cw e of None \<Rightarrow> s | Some i \<Rightarrow> sendRemoteInput (callIdOf s) i s)"

lemma scale_bound:
  assumes "0 \<le> x" "x \<le> of_nat c" "0 < cw" "0 < vw" "vw * c = v * cw"
  shows "0 \<le> js_round (x * scale vw cw)" "js_round (x * scale vw cw) \<le> int v"
proof -
  have pos: "0 \<le> scale vw cw" by (simp add: scale_def)
  have "x * scale vw cw \<le> of_nat c * scale vw cw" using assms(2) pos by (rule mult_right_mono)
  also have "of_nat c * scale vw cw = (of_nat v :: rat)"
  proof -
    have "(of_nat c * of_nat vw :: rat) = of_nat v * of_nat cw" using assms(5) by (metis mult.commute of_nat_mult)
    then show ?thesis using assms(3,4) by (simp add: scale_def field_simps)
  qed
  finally show "js_round (x * scale vw cw) \<le> int v" using js_round_mono js_round_int(2) by metis
  have "0 \<le> x * scale vw cw" using assms(1) pos by simp
  then show "0 \<le> js_round (x * scale vw cw)" using js_round_mono[of 0] js_round_int(1)[of 0] by simp
qed



end
