(* ===== verification/Chat_View.thy ===== *)
theory Chat_View
  imports File_Send Js_Text
begin

text \<open>
  The chat panel (\<open>ui/src/views/chat.ts\<close>, the formatting helpers of \<open>ui/src/views/elements.ts\<close>): what is shown
  as a function of the state. The DOM is left out: a rendered part is a value that says which texts,
  links and buttons it has; the fixed Chinese labels are constructors. None is an exception of the render
  function.
\<close>

subsection \<open>Formatting\<close>

definition fmtSize :: "nat \<Rightarrow> string" where
  "fmtSize n =
     (if n < 1024 then show_nat n @ '' B''
      else if n < 1024 * 1024 then to_fixed 1 n 1024 @ '' KB''
      else if n < 1024 * 1024 * 1024 then to_fixed 1 n (1024 * 1024) @ '' MB''
      else to_fixed 2 n (1024 * 1024 * 1024) @ '' GB'')"

text \<open>\<open>zone\<close>: the offset of the local time in minutes.\<close>

definition fmtTime :: "int \<Rightarrow> int \<Rightarrow> string" where
  "fmtTime zone ts =
     (let minutes = (ts div 60000 + zone) mod 1440
      in pad_start 2 (CHR ''0'') (show_nat (nat (minutes div 60))) @ '':''
         @ pad_start 2 (CHR ''0'') (show_nat (nat (minutes mod 60))))"

subsection \<open>Titles and names\<close>

datatype title = TitleRoom string nat | TitlePeer string string | TitleRaw string

text \<open>\<open>r?.members.length ?? 0\<close> throws for a known room without a member list.\<close>

definition titleOf :: "string \<Rightarrow> msg_kind \<Rightarrow> app_state \<Rightarrow> title option" where
  "titleOf target kind a =
     (if kind = KRoom
      then (case mget (rooms a) target of
              None \<Rightarrow> Some (TitleRoom target 0)
            | Some r \<Rightarrow> (case ri_members r of None \<Rightarrow> None
                | Some ms \<Rightarrow> Some (TitleRoom (case ri_name r of None \<Rightarrow> target | Some n \<Rightarrow> n) (length ms))))
      else Some (case mget (peers a) target of None \<Rightarrow> TitleRaw target | Some p \<Rightarrow> TitlePeer (pi_name p) (pi_host p)))"

datatype who = Myself | Named string

definition peerName :: "string \<Rightarrow> app_state \<Rightarrow> who" where
  "peerName did a =
     (if map_option pr_deviceId (app_profile a) = Some did then Myself
      else Named (case mget (peers a) did of None \<Rightarrow> did | Some p \<Rightarrow> pi_name p))"

datatype delivery_label = LabDelivered | LabFailed | LabSending | LabNone

definition deliveryLabel :: "delivery option \<Rightarrow> delivery_label" where
  "deliveryLabel st =
     (if st = Some DDelivered then LabDelivered
      else if st = Some DFailed then LabFailed
      else if st = Some DSending then LabSending
      else LabNone)"

subsection \<open>File cards\<close>

datatype badge = BadgeOk | BadgeBad | BadgeUnchecked | BadgeNone

datatype card_row =
    Progress bool nat "string option"
  | Finished "string option" badge
  | Broken "string option" "string option"
  | Canceled
  | Link string
  | Plain

record file_card =
  fc_name :: string
  fc_size :: string
  fc_row :: card_row

text \<open>\<open>Math.round((got / total) * 100)\<close>, at most 100.\<close>

definition percent :: "nat \<Rightarrow> nat \<Rightarrow> nat" where
  "percent got tot = (if tot \<noteq> 0 then min 100 (nat (js_round (of_nat got / of_nat tot * 100))) else 0)"

definition is_own :: "chat_item \<Rightarrow> tx \<Rightarrow> bool" where
  "is_own it s \<longleftrightarrow> self_id s = Some (cm_from it)"

definition renderFileCard :: "media_ref \<Rightarrow> chat_item \<Rightarrow> tx \<Rightarrow> file_card" where
  "renderFileCard m it s =
     (let url = truthy (mr_url m); fid = truthy (mr_fileId m)
      in \<lparr>fc_name = mr_name m, fc_size = fmtSize (mr_size m),
          fc_row = (case ci_xfer it of
              None \<Rightarrow> (case url of None \<Rightarrow> Plain | Some u \<Rightarrow> Link u)
            | Some x \<Rightarrow>
               (case xs_phase x of
                  XSending \<Rightarrow> Progress True (percent (xs_got x) (xs_total x)) fid
                | XReceiving \<Rightarrow> Progress False (percent (xs_got x) (xs_total x)) None
                | XDone \<Rightarrow> Finished url (case mr_sha256Ok m of
                      Some ok \<Rightarrow> if ok then BadgeOk else BadgeBad
                    | None \<Rightarrow> if truthy (mr_sha256 m) \<noteq> None then BadgeUnchecked else BadgeNone)
                | XFailed \<Rightarrow> Broken (case fid of None \<Rightarrow> None
                      | Some f \<Rightarrow> if is_own it s \<and> canResumeFile f s then Some f else None) url
                | XCanceled \<Rightarrow> Canceled))\<rparr>)"

subsection \<open>Messages\<close>

datatype bubble = Words string | Image string | Movie string | Sound string | Card file_card | Empty

record message_row =
  mw_mine :: bool
  mw_from :: "who option"
  mw_time :: string
  mw_status :: "delivery_label option"
  mw_bubble :: bubble

definition renderBubble :: "chat_item \<Rightarrow> tx \<Rightarrow> bubble" where
  "renderBubble it s =
     (if cm_type it \<in> {MText, MEmoji, MSystem} then Words (cm_body it)
      else case cm_mediaRef it of
             None \<Rightarrow> Empty
           | Some m \<Rightarrow>
               (case truthy (mr_url m) of
                  None \<Rightarrow> Card (renderFileCard m it s)
                | Some u \<Rightarrow>
                    if cm_type it = MImage then Image (case mr_thumbUrl m of None \<Rightarrow> u | Some t \<Rightarrow> t)
                    else if cm_type it = MVideo then Movie u
                    else if cm_type it = MAudio then Sound u
                    else Card (renderFileCard m it s)))"

definition renderItem :: "int \<Rightarrow> chat_item \<Rightarrow> tx \<Rightarrow> message_row" where
  "renderItem zone it s =
     (let mine = is_own it s
      in \<lparr>mw_mine = mine, mw_from = (if mine then None else Some (peerName (cm_from it) (app s))),
          mw_time = fmtTime zone (cm_ts it), mw_status = (if mine then Some (deliveryLabel (ci_status it)) else None),
          mw_bubble = renderBubble it s\<rparr>)"

definition fillStream :: "int \<Rightarrow> string \<Rightarrow> tx \<Rightarrow> message_row list" where
  "fillStream zone target s = map (\<lambda>it. renderItem zone it s) (conv_of (app s) target)"

datatype main_panel = Welcome bool | Chat title "message_row list"

definition renderChat :: "int \<Rightarrow> tx \<Rightarrow> main_panel option" where
  "renderChat zone s =
     (case app_route (app s) of
        RRoster \<Rightarrow> Some (Welcome (app_profile (app s) \<noteq> None))
      | RChat target kind \<Rightarrow> map_option (\<lambda>t. Chat t (fillStream zone target s)) (titleOf target kind (app s)))"


subsection \<open>What the card of a broken transfer offers\<close>

lemma percent_bound: "percent got tot \<le> 100"
  by (simp add: percent_def)

lemma percent_mono: "got \<le> got' \<Longrightarrow> percent got tot \<le> percent got' tot"
proof -
  assume "got \<le> got'"
  then have "of_nat got / of_nat tot * 100 \<le> of_nat got' / of_nat tot * (100 :: rat)"
    by (intro mult_right_mono divide_right_mono) simp_all
  then have "nat (js_round (of_nat got / of_nat tot * 100)) \<le> nat (js_round (of_nat got' / of_nat tot * 100))"
    by (intro nat_mono js_round_mono)
  then show ?thesis by (auto simp: percent_def min_le_iff_disj simp del: times_divide_eq_left)
qed

lemma percent_whole: "tot \<noteq> 0 \<Longrightarrow> percent tot tot = 100"
  using js_round_int(1)[of 100] by (simp add: percent_def)

text \<open>The card of a broken transfer offers to resume it exactly to the sender while the source of
  the file is kept for a single recipient. Where it is offered, resuming is not refused: a new session
  to that recipient is opened and the card is back in progress, at the share of the bytes that were
  sent before the interruption; the shown share never exceeds 100 per cent and grows with the bytes.\<close>

theorem resume_offered:
  assumes card: "own_card fid it s" and ref: "cm_mediaRef it = Some m" and fid: "mr_fileId m = Some fid" "fid \<noteq> []"
    and broken: "ci_xfer it = Some x" "xs_phase x = XFailed"
  shows "(fc_row (renderFileCard m it s) = Broken (Some fid) (truthy (mr_url m))) = (is_own it s \<and> canResumeFile fid s)
    \<and> (canResumeFile fid s \<longrightarrow>
      (\<exists>st r s' it'. mget (tx_sendState s) fid = Some st \<and> resumeFile fid callId s = (r, s') \<and> r = None
        \<and> tx_sess s' = tx_sess s @ [open_session callId (sn_peerId st) OToast (Some st)] \<and> own_card fid it' s'
        \<and> fc_row (renderFileCard m it' s') = Progress True (percent (sn_lastGot st) (fm_size (sn_meta st))) (Some fid)))
    \<and> percent got tot \<le> 100 \<and> percent got tot \<le> percent (got + rest) tot"
proof -
  have t: "truthy (mr_fileId m) = Some fid" using fid by (simp add: truthy_def)
  have offer: "(fc_row (renderFileCard m it s) = Broken (Some fid) (truthy (mr_url m))) = (is_own it s \<and> canResumeFile fid s)"
    using broken by (simp add: renderFileCard_def Let_def t)
  have resume: "\<exists>st r s' it'. mget (tx_sendState s) fid = Some st \<and> resumeFile fid callId s = (r, s') \<and> r = None
        \<and> tx_sess s' = tx_sess s @ [open_session callId (sn_peerId st) OToast (Some st)] \<and> own_card fid it' s'
        \<and> fc_row (renderFileCard m it' s') = Progress True (percent (sn_lastGot st) (fm_size (sn_meta st))) (Some fid)"
    if "canResumeFile fid s"
  proof -
  from that obtain st where st: "mget (tx_sendState s) fid = Some st" "\<not> sn_isRoom st"
    by (auto simp: canResumeFile_def split: option.splits)
  define s1 where "s1 = s\<lparr>tx_sess := tx_sess s @ [open_session callId (sn_peerId st) OToast (Some st)],
    tx_sending := mset_key fid (length (tx_sess s)) (tx_sending s)\<rparr>"
  define s' where "s' = resumeSendProgress fid (sn_lastGot st) (fm_size (sn_meta st)) s1"
  define it' where "it' = with_xfer \<lparr>xs_phase = XSending, xs_got = sn_lastGot st, xs_total = fm_size (sn_meta st)\<rparr> it"
  have r: "resumeFile fid callId s = (None, s')" using st by (simp add: resumeFile_def s'_def s1_def Let_def)
  have "own_card fid it s1" using card own_card_frame[of s1 s] by (simp add: s1_def)
  then have own: "own_card fid it' s'" by (simp add: s'_def it'_def resumeSendProgress_def own_card_update)
  have "tx_sess s' = tx_sess s1" by (simp add: s'_def resumeSendProgress_def)
  then have sess: "tx_sess s' = tx_sess s @ [open_session callId (sn_peerId st) OToast (Some st)]" by (simp add: s1_def)
  have "fc_row (renderFileCard m it' s') = Progress True (percent (sn_lastGot st) (fm_size (sn_meta st))) (Some fid)"
    by (simp add: renderFileCard_def Let_def t it'_def with_xfer_def)
  then show ?thesis using st(1) r sess own by blast
  qed
  show ?thesis using offer resume percent_bound percent_mono[of got "got + rest" tot] by simp
qed

definition tx_broken :: tx where
  "tx_broken = patch (\<lambda>a. set_conv ''bob'' [with_xfer \<lparr>xs_phase = XFailed, xs_got = 2, xs_total = 3\<rparr> sample_card] a)
     (tx_running\<lparr>tx_sending := []\<rparr>)"

theorem resume_offered_witness:
  "\<exists>r s'. canResumeFile ''f1'' tx_broken \<and> resumeFile ''f1'' ''c9'' tx_broken = (r, s') \<and> r = None"
proof -
  let ?it = "with_xfer \<lparr>xs_phase = XFailed, xs_got = 2, xs_total = 3\<rparr> sample_card"
  have "conversations (app tx_broken) = [(''bob'', [?it])]"
    by (simp add: tx_broken_def tx_running_def tx_sample_def tx_start_def ui_init_def ui.defs new_store_def set_conv_def mset_key_def)
  moreover have "item_fileId ?it = Some ''f1''" by (simp add: sample_card_def item_fileId_def with_xfer_def)
  ultimately have card: "own_card ''f1'' ?it tx_broken" by (simp add: own_card_def findByFileId_def mwf_def)
  have can: "canResumeFile ''f1'' tx_broken"
    by (simp add: tx_broken_def tx_running_def canResumeFile_def mget_def sample_src_def)
  obtain m where m: "cm_mediaRef ?it = Some m" "mr_fileId m = Some ''f1''" by (simp add: sample_card_def with_xfer_def)
  show ?thesis
    using resume_offered[OF card m(1) m(2), of _ "''c9''" 0 0 0] can by (auto simp: with_xfer_def)
qed

end
