(* ===== verification/Composer.thy ===== *)
theory Composer
  imports Chat_View Media_Overlay
begin

text \<open>
  The input bar under a conversation (\<open>ui/src/views/composer.ts\<close>): texts, files, voice messages, calls and
  sharing. An instance of the bar is made by \<open>renderComposer\<close>, and \<open>renderChat\<close> makes a new one whenever
  the panel is redrawn, so the instances are kept in a list and named by their position; a running
  recorder refers to the instance whose button started it. What the platform delivers (the text typed,
  the chosen file, the microphone, random ids and the time) are arguments.
\<close>

record ctx =
  cx_target :: string
  cx_kind :: msg_kind

datatype audio_button = Records | Stops nat

record composer =
  cp_ctx :: ctx
  cp_value :: string
  cp_audio :: audio_button

record recorder =
  rc_ctx :: ctx
  rc_active :: bool
  rc_chunks :: "byte list list"
  rc_mic :: bool

record desk = tx +
  ds_composers :: "composer list"
  ds_shown :: "nat option"
  ds_recorders :: "recorder list"

subsection \<open>Texts\<close>

definition text_json :: "ctx \<Rightarrow> string \<Rightarrow> int \<Rightarrow> string \<Rightarrow> json" where
  "text_json c nonce now body =
     JObj [(''kind'', JStr (kind_name (cx_kind c))), (''type'', JStr ''text''), (''to'', JStr (cx_target c)),
       (''nonce'', JStr nonce), (''ts'', JNum now), (''body'', JStr body)]"

definition upd_composer :: "nat \<Rightarrow> (composer \<Rightarrow> composer) \<Rightarrow> desk \<Rightarrow> desk" where
  "upd_composer i f s = s\<lparr>ds_composers := (ds_composers s)[i := f (ds_composers s ! i)]\<rparr>"

definition sendText :: "nat \<Rightarrow> string \<Rightarrow> int \<Rightarrow> desk \<Rightarrow> desk" where
  "sendText i nonce now s =
     (let c = ds_composers s ! i; text = trim (cp_value c)
      in if text = [] then s
         else upd_composer i (\<lambda>c. c\<lparr>cp_value := []\<rparr>)
                (send ''message'' ''send'' (Some (text_json (cp_ctx c) nonce now text)) s))"

subsection \<open>Files\<close>

definition file_kind :: "string \<Rightarrow> msg_type" where
  "file_kind mime = (if starts_with ''image/'' mime then MImage else if starts_with ''video/'' mime then MVideo else MFile)"

definition room_of :: "ctx \<Rightarrow> string option" where
  "room_of c = (if cx_kind c = KRoom then Some (cx_target c) else None)"

text \<open>\<open>sendFileTo\<close> on the part of the desk it knows.\<close>

definition desk_send ::
    "ctx \<Rightarrow> js_file \<Rightarrow> byte list \<Rightarrow> msg_type \<Rightarrow> string \<Rightarrow> string \<Rightarrow> string option \<Rightarrow> int \<Rightarrow> int \<Rightarrow> desk \<Rightarrow> desk" where
  "desk_send c f blob kind fid callId sh t1 t2 s =
     tx.extend (sendFileTo (cx_target c) f blob kind (room_of c) fid callId sh t1 t2 (tx.truncate s)) (tx.more s)"

definition choose_file ::
    "nat \<Rightarrow> (js_file \<times> byte list) option \<Rightarrow> string \<Rightarrow> string \<Rightarrow> string option \<Rightarrow> int \<Rightarrow> int \<Rightarrow> desk \<Rightarrow> desk" where
  "choose_file i chosen fid callId sh t1 t2 s =
     (case chosen of None \<Rightarrow> s
      | Some (f, blob) \<Rightarrow> desk_send (cp_ctx (ds_composers s ! i)) f blob (file_kind (jf_type f)) fid callId sh t1 t2 s)"

subsection \<open>Voice messages\<close>

definition mic_refused :: "desk \<Rightarrow> desk" where
  "mic_refused s = toast NNoMicrophone s"

text \<open>\<open>recordAndSend\<close> after \<open>getUserMedia\<close>: a running recorder, and the button of instance \<open>i\<close> stops it.\<close>

definition mic_granted :: "nat \<Rightarrow> desk \<Rightarrow> desk" where
  "mic_granted i s =
     (let r = \<lparr>rc_ctx = cp_ctx (ds_composers s ! i), rc_active = True, rc_chunks = [], rc_mic = True\<rparr>
      in upd_composer i (\<lambda>c. c\<lparr>cp_audio := Stops (length (ds_recorders s))\<rparr>)
           (s\<lparr>ds_recorders := ds_recorders s @ [r]\<rparr>))"

definition upd_recorder :: "nat \<Rightarrow> (recorder \<Rightarrow> recorder) \<Rightarrow> desk \<Rightarrow> desk" where
  "upd_recorder k f s = s\<lparr>ds_recorders := (ds_recorders s)[k := f (ds_recorders s ! k)]\<rparr>"

definition ondataavailable :: "nat \<Rightarrow> byte list \<Rightarrow> desk \<Rightarrow> desk" where
  "ondataavailable k b = upd_recorder k (\<lambda>r. r\<lparr>rc_chunks := rc_chunks r @ [b]\<rparr>)"

definition voice_file :: "nat \<Rightarrow> byte list \<Rightarrow> js_file" where
  "voice_file now blob = \<lparr>jf_name = ''voice-'' @ show_nat now @ ''.webm'', jf_size = length blob, jf_type = ''audio/webm''\<rparr>"

text \<open>\<open>rec.stop()\<close> and its \<open>onstop\<close>; a recorder that is not active throws, and nothing follows.\<close>

definition onstop :: "nat \<Rightarrow> nat \<Rightarrow> string \<Rightarrow> string \<Rightarrow> string option \<Rightarrow> int \<Rightarrow> int \<Rightarrow> desk \<Rightarrow> desk" where
  "onstop k now fid callId sh t1 t2 s =
     (let r = ds_recorders s ! k; blob = concat (rc_chunks r)
      in toast NVoiceSent
           (desk_send (rc_ctx r) (voice_file now blob) blob MAudio fid callId sh t1 t2
              (upd_recorder k (\<lambda>r. r\<lparr>rc_active := False, rc_mic := False\<rparr>) s)))"

definition stop_click :: "nat \<Rightarrow> nat \<Rightarrow> string \<Rightarrow> string \<Rightarrow> string option \<Rightarrow> int \<Rightarrow> int \<Rightarrow> desk \<Rightarrow> desk" where
  "stop_click i now fid callId sh t1 t2 s =
     (case cp_audio (ds_composers s ! i) of
        Records \<Rightarrow> s
      | Stops k \<Rightarrow> if rc_active (ds_recorders s ! k) then onstop k now fid callId sh t1 t2 s else s)"

subsection \<open>Calls and sharing\<close>

definition invite_room_json :: "string \<Rightarrow> media_mode \<Rightarrow> json" where
  "invite_room_json roomId m = JObj [(''roomId'', JStr roomId), (''mediaMode'', JStr (mode_name m))]"

definition inviteRoom :: "string \<Rightarrow> media_mode \<Rightarrow> calls \<Rightarrow> calls" where
  "inviteRoom roomId m s = toast NRoomInvited (send ''room'' ''invite'' (Some (invite_room_json roomId m)) s)"

text \<open>\<open>got\<close>: the captured stream. The capture comes after the test that the room is known.\<close>

definition shareToRoom :: "string \<Rightarrow> nat option \<Rightarrow> (string \<times> session_description) list \<Rightarrow> calls \<Rightarrow> calls" where
  "shareToRoom roomId got ids s =
     (case got of None \<Rightarrow> toast NRoomShareFailed s
      | Some x \<Rightarrow> (case startRoomShare roomId x ids s of None \<Rightarrow> toast NRoomShareFailed s | Some (n, t) \<Rightarrow> t))"

definition place_call :: "toast_text \<Rightarrow> ctx \<Rightarrow> media_mode \<Rightarrow> string \<Rightarrow> nat option \<Rightarrow> session_description \<Rightarrow> calls \<Rightarrow> calls" where
  "place_call failed c m callId got sd s =
     (let (ok, t) = startCall callId (cx_target c) m got sd s in if ok then t else toast failed t)"

definition callVoice :: "ctx \<Rightarrow> string \<Rightarrow> nat option \<Rightarrow> session_description \<Rightarrow> calls \<Rightarrow> calls" where
  "callVoice c callId got sd s =
     (if cx_kind c = KChat then place_call NCallFailed c Voice callId got sd s else inviteRoom (cx_target c) Voice s)"

definition callVideo :: "ctx \<Rightarrow> string \<Rightarrow> nat option \<Rightarrow> session_description \<Rightarrow> calls \<Rightarrow> calls" where
  "callVideo c callId got sd s =
     (if cx_kind c = KChat then place_call NCallFailed c Video callId got sd s else toast NRoomVideo s)"

definition shareBtn :: "ctx \<Rightarrow> string \<Rightarrow> nat option \<Rightarrow> session_description \<Rightarrow> (string \<times> session_description) list \<Rightarrow> calls \<Rightarrow> calls" where
  "shareBtn c callId got sd ids s =
     (if cx_kind c = KChat then place_call NShareFailed c Share callId got sd s else shareToRoom (cx_target c) got ids s)"

definition remoteBtn :: "ctx \<Rightarrow> string \<Rightarrow> nat option \<Rightarrow> session_description \<Rightarrow> calls \<Rightarrow> calls" where
  "remoteBtn c callId got sd s =
     (if cx_kind c = KChat then place_call NRemoteFailed c Remote callId got sd s else s)"

subsection \<open>Redrawing\<close>

definition fresh_composer :: "ctx \<Rightarrow> composer" where
  "fresh_composer c = \<lparr>cp_ctx = c, cp_value = [], cp_audio = Records\<rparr>"

definition renderComposer :: "ctx \<Rightarrow> desk \<Rightarrow> desk" where
  "renderComposer c s =
     s\<lparr>ds_composers := ds_composers s @ [fresh_composer c], ds_shown := Some (length (ds_composers s))\<rparr>"

text \<open>The redraw of the chat panel: \<open>replaceChildren\<close>, and a new input bar when a conversation is open.\<close>

definition redraw :: "desk \<Rightarrow> desk" where
  "redraw s =
     (case app_route (app s) of
        RRoster \<Rightarrow> s\<lparr>ds_shown := None\<rparr>
      | RChat target kind \<Rightarrow> renderComposer \<lparr>cx_target = target, cx_kind = kind\<rparr> s)"

definition patched :: "desk \<Rightarrow> desk \<Rightarrow> bool" where
  "patched s t \<longleftrightarrow> st_calls (ui_store t) \<noteq> st_calls (ui_store s)"

text \<open>What the user sees after an action: every change of the store redraws the panel.\<close>

definition after_event :: "(desk \<Rightarrow> desk) \<Rightarrow> desk \<Rightarrow> desk" where
  "after_event f s = (let t = f s in if patched s t then redraw t else t)"

text \<open>The offer of a file session, sent when the platform has made the description.\<close>

definition file_offer_json :: "string \<Rightarrow> string \<Rightarrow> session_description \<Rightarrow> json" where
  "file_offer_json callId dest sd =
     JObj [(''callId'', JStr callId), (''to'', JStr dest), (''sdp'', sdp_json sd), (''fileSignaling'', JBool True)]"

subsection \<open>The operations on the desk\<close>

lemma extend_more:
  fixes u :: tx and s :: desk
  shows "ds_composers (tx.extend u (tx.more s)) = ds_composers s" "ds_shown (tx.extend u (tx.more s)) = ds_shown s"
    "ds_recorders (tx.extend u (tx.more s)) = ds_recorders s"
  by (cases s; simp add: tx.defs)+

lemma extend_ui: "ui_store (tx.extend u m) = ui_store u" "ui_out (tx.extend u m) = ui_out u" for u :: tx
  by (simp_all add: tx.defs)

lemma desk_send_frame [simp]:
  "ds_composers (desk_send c f b k fid callId sh t1 t2 s) = ds_composers s"
  "ds_shown (desk_send c f b k fid callId sh t1 t2 s) = ds_shown s"
  "ds_recorders (desk_send c f b k fid callId sh t1 t2 s) = ds_recorders s"
  by (simp_all only: desk_send_def extend_more)

lemma desk_send_ui:
  "ui_store (desk_send c f b k fid callId sh t1 t2 s)
     = ui_store (sendFileTo (cx_target c) f b k (room_of c) fid callId sh t1 t2 (tx.truncate s))"
  "ui_out (desk_send c f b k fid callId sh t1 t2 s)
     = ui_out (sendFileTo (cx_target c) f b k (room_of c) fid callId sh t1 t2 (tx.truncate s))"
  by (simp_all only: desk_send_def extend_ui)

lemma truncate_ui [simp]:
  "ui_store (tx.truncate s) = ui_store s" "ui_out (tx.truncate s) = ui_out s" "sent (tx.truncate s) = sent s"
  by (simp_all add: tx.defs sent_def)

lemma desk_patch [simp]:
  fixes s :: desk
  shows "ds_composers (patch p s) = ds_composers s" "ds_shown (patch p s) = ds_shown s"
    "ds_recorders (patch p s) = ds_recorders s"
  by (simp_all add: patch_def)

lemma desk_toast [simp]:
  fixes s :: desk
  shows "ds_composers (toast n s) = ds_composers s" "ds_shown (toast n s) = ds_shown s"
    "ds_recorders (toast n s) = ds_recorders s"
  by (simp_all add: toast_def)

lemma desk_ds_send [simp]:
  fixes s :: desk
  shows "ds_composers (send ns m d s) = ds_composers s" "ds_shown (send ns m d s) = ds_shown s"
    "ds_recorders (send ns m d s) = ds_recorders s"
  by (simp_all add: send_def req_def)

lemma desk_upd [simp]:
  "ui_store (upd_composer i f s) = ui_store s" "ui_out (upd_composer i f s) = ui_out s"
  "ds_recorders (upd_composer i f s) = ds_recorders s" "ds_shown (upd_composer i f s) = ds_shown s"
  "ui_store (upd_recorder j g s) = ui_store s" "ui_out (upd_recorder j g s) = ui_out s"
  "ds_composers (upd_recorder j g s) = ds_composers s" "ds_shown (upd_recorder j g s) = ds_shown s"
  "ds_recorders (upd_recorder j g s) = (ds_recorders s)[j := g (ds_recorders s ! j)]"
  "ds_composers (upd_composer i f s) = (ds_composers s)[i := f (ds_composers s ! i)]"
  by (simp_all add: upd_composer_def upd_recorder_def)

lemma sent_upd [simp]: "sent (upd_composer i f s) = sent s" "sent (upd_recorder j g s) = sent s"
  by (simp_all add: sent_def)

text \<open>With the shell subscribed every patch is noticed.\<close>

lemma patched_patch: "st_listeners (ui_store s) \<noteq> [] \<Longrightarrow> patched s (patch p s)"
  by (simp add: patched_def patch_def store_patch_def emit_def)

lemma not_patched: "ui_store t = ui_store s \<Longrightarrow> \<not> patched s t"
  by (simp add: patched_def)

text \<open>A text that is not blank is sent once, trimmed, to the target and kind of the open conversation, and the
  input is emptied; a blank one sends nothing and stays. In both cases nothing is redrawn and the
  conversation is as it was: the message shows up only when the daemon echoes it.\<close>

theorem text_sent_once:
  assumes i: "i < length (ds_composers s)"
  shows "let c = ds_composers s ! i; t = after_event (sendText i nonce now) s in
      sent t = sent s @ (if trim (cp_value c) = [] then []
                         else [(''message'', ''send'', Some (text_json (cp_ctx c) nonce now (trim (cp_value c))))])
    \<and> cp_value (ds_composers t ! i) = (if trim (cp_value c) = [] then cp_value c else [])
    \<and> app t = app s \<and> ds_shown t = ds_shown s \<and> cp_audio (ds_composers t ! i) = cp_audio c"
proof -
  have "ui_store (sendText i nonce now s) = ui_store s" by (simp add: sendText_def Let_def)
  then have "after_event (sendText i nonce now) s = sendText i nonce now s" by (simp add: after_event_def not_patched)
  then show ?thesis using i by (simp add: sendText_def Let_def)
qed

definition at_desk :: "string \<Rightarrow> ctx \<Rightarrow> desk" where
  "at_desk txt c =
     tx.extend (patch (\<lambda>a. a\<lparr>app_route := RChat (cx_target c) (cx_kind c)\<rparr>)
       (ui.extend (ui_init\<lparr>ui_store := store_on 0 (new_store initial)\<rparr>)
          \<lparr>tx_sess = [], tx_sendState = [], tx_sending = [], tx_jobs = [], tx_hung = False\<rparr>))
       \<lparr>ds_composers = [(fresh_composer c)\<lparr>cp_value := txt\<rparr>], ds_shown = Some 0, ds_recorders = []\<rparr>"

lemma at_desk_simps [simp]:
  "ds_composers (at_desk txt c) = [(fresh_composer c)\<lparr>cp_value := txt\<rparr>]" "ds_shown (at_desk txt c) = Some 0"
  "ds_recorders (at_desk txt c) = []" "sent (at_desk txt c) = []"
  "app_route (app (at_desk txt c)) = RChat (cx_target c) (cx_kind c)" "st_listeners (ui_store (at_desk txt c)) = [0]"
  by (simp_all add: at_desk_def tx.defs ui.defs ui_init_def sent_def patch_def store_patch_def emit_def store_on_def new_store_def set_add_def)

definition with_bob :: ctx where "with_bob = \<lparr>cx_target = ''bob'', cx_kind = KChat\<rparr>"

theorem text_sent_once_witness:
  "sent (after_event (sendText 0 ''n'' 5) (at_desk '' hi '' with_bob)) = [(''message'', ''send'', Some (text_json with_bob ''n'' 5 ''hi''))]"
proof -
  have "trim '' hi '' = ''hi''" by code_simp
  then show ?thesis
    using text_sent_once[of 0 "at_desk '' hi '' with_bob" "''n''" 5]
    by (simp add: Let_def fresh_composer_def)
qed

text \<open>A voice message: the pieces the recorder delivers are joined in order into one file that goes to the
  conversation the recording was started in, the microphone is released, and the recorder cannot be
  stopped twice.\<close>

theorem voice_message_whole:
  assumes i: "i < length (ds_composers s)"
  shows "let s1 = mic_granted i s; k = length (ds_recorders s); s2 = fold (ondataavailable k) pieces s1;
             t = stop_click i now fid callId sh t1 t2 s2;
             sf = sendFileTo (cx_target (cp_ctx (ds_composers s ! i))) (voice_file now (concat pieces)) (concat pieces) MAudio
                    (room_of (cp_ctx (ds_composers s ! i))) fid callId sh t1 t2 (tx.truncate s2)
         in sent t = sent sf \<and> app t = (app sf)\<lparr>app_toast := Some NVoiceSent\<rparr>
          \<and> rc_mic (ds_recorders s2 ! k) \<and> \<not> rc_mic (ds_recorders t ! k) \<and> stop_click i now fid callId sh t1 t2 t = t"
proof -
  define k where "k = length (ds_recorders s)"
  define r where "r ps = \<lparr>rc_ctx = cp_ctx (ds_composers s ! i), rc_active = True, rc_chunks = ps, rc_mic = True\<rparr>" for ps
  define cs where "cs = (ds_composers s)[i := (ds_composers s ! i)\<lparr>cp_audio := Stops k\<rparr>]"
  have run: "ds_recorders (fold (ondataavailable k) pieces u) = ds_recorders s @ [r (old @ pieces)]
      \<and> ui_store (fold (ondataavailable k) pieces u) = ui_store u \<and> ds_composers (fold (ondataavailable k) pieces u) = ds_composers u"
    if "ds_recorders u = ds_recorders s @ [r old]" for u old
    using that by (induction pieces arbitrary: u old) (simp_all add: ondataavailable_def k_def r_def)
  define s2 where "s2 = fold (ondataavailable k) pieces (mic_granted i s)"
  have "ds_recorders (mic_granted i s) = ds_recorders s @ [r []]" "ds_composers (mic_granted i s) = cs"
    by (simp_all add: mic_granted_def Let_def r_def cs_def k_def upd_composer_def)
  then have s2: "ds_recorders s2 = ds_recorders s @ [r pieces]" "ds_composers s2 = cs"
    using run[of "mic_granted i s" "[]"] by (simp_all add: s2_def)
  have rk: "ds_recorders s2 ! k = r pieces" "k < length (ds_recorders s2)" using s2 by (simp_all add: k_def)
  define t where "t = stop_click i now fid callId sh t1 t2 s2"
  have ci: "cp_audio (ds_composers s2 ! i) = Stops k" using i s2 by (simp add: cs_def)
  then have t: "t = onstop k now fid callId sh t1 t2 s2" using rk by (simp add: t_def stop_click_def r_def)
  have rt: "ds_recorders t ! k = (r pieces)\<lparr>rc_active := False, rc_mic := False\<rparr>" "ds_composers t = ds_composers s2"
    using rk by (simp_all add: t onstop_def Let_def)
  have again: "stop_click i now fid callId sh t1 t2 t = t" using ci rt by (simp add: stop_click_def)
  have trunc: "tx.truncate (upd_recorder k g u) = tx.truncate u" for g u by (simp add: upd_recorder_def tx.defs)
  show ?thesis
    using rt again rk
    unfolding Let_def k_def[symmetric] s2_def[symmetric] t_def[symmetric]
    by (simp add: t onstop_def Let_def r_def sent_def desk_send_ui trunc)
qed

theorem voice_message_whole_witness:
  "app_toast (app (stop_click 0 7 ''f'' ''c'' None 0 0
     (fold (ondataavailable 0) [[1], [2, 3]] (mic_granted 0 (at_desk [] with_bob))))) = Some NVoiceSent"
  using voice_message_whole[of 0 "at_desk [] with_bob" "[[1], [2, 3]]" 7 "''f''" "''c''" None 0 0] by (simp add: Let_def)

text \<open>Any change of the store while a conversation stays open replaces the input bar: the text typed so far is
  gone, and a running recording goes on with the microphone open although the button on display starts
  another recording instead of stopping it.\<close>

theorem redraw_loses_input:
  assumes shown: "ds_shown s = Some i" "i < length (ds_composers s)" "st_listeners (ui_store s) \<noteq> []"
    and route: "app_route (p (app s)) = RChat target kind"
  shows "let s1 = after_event (mic_granted i) s; k = length (ds_recorders s); t = after_event (patch p) s1
         in ds_shown s1 = Some i \<and> cp_audio (ds_composers s1 ! i) = Stops k
          \<and> (\<exists>j. ds_shown t = Some j \<and> cp_value (ds_composers t ! j) = [] \<and> stop_click j now fid callId sh t1 t2 t = t
               \<and> rc_active (ds_recorders t ! k) \<and> rc_mic (ds_recorders t ! k))"
proof -
  have st: "ui_store (mic_granted i s) = ui_store s" by (simp add: mic_granted_def Let_def upd_composer_def)
  then have s1: "after_event (mic_granted i) s = mic_granted i s" by (simp add: after_event_def not_patched)
  have g: "ds_shown (mic_granted i s) = Some i" "cp_audio (ds_composers (mic_granted i s) ! i) = Stops (length (ds_recorders s))"
    "rc_active (ds_recorders (mic_granted i s) ! length (ds_recorders s))"
    "rc_mic (ds_recorders (mic_granted i s) ! length (ds_recorders s))"
    using shown by (simp_all add: mic_granted_def Let_def upd_composer_def)
  have t: "after_event (patch p) (mic_granted i s)
      = renderComposer \<lparr>cx_target = target, cx_kind = kind\<rparr> (patch p (mic_granted i s))"
    using route shown(3) by (simp add: after_event_def redraw_def Let_def st patched_patch)
  have last: "(xs @ [x]) ! length xs = x" for xs and x :: 'x by simp
  show ?thesis
    unfolding Let_def s1 t
    using g by (simp add: renderComposer_def stop_click_def fresh_composer_def last)
qed

theorem redraw_loses_input_witness:
  "\<exists>j. ds_shown (after_event (patch (\<lambda>a. a)) (after_event (mic_granted 0) (at_desk ''dra'' with_bob))) = Some j
     \<and> cp_value (ds_composers (after_event (patch (\<lambda>a. a)) (after_event (mic_granted 0) (at_desk ''dra'' with_bob))) ! j) = []"
proof -
  let ?s = "at_desk ''dra'' with_bob"
  have "ds_shown ?s = Some 0" "0 < length (ds_composers ?s)" "st_listeners (ui_store ?s) \<noteq> []"
    "app_route (app ?s) = RChat ''bob'' KChat"
    by (simp_all add: with_bob_def)
  from redraw_loses_input[OF this(1-3), of "\<lambda>a. a", OF this(4)] show ?thesis
    unfolding Let_def by blast
qed

text \<open>A file chosen in a room reaches nobody: no card and no message record is made, and the offer of the
  transfer names the room as its recipient, which the native daemon does not relay as long as no
  peer has the id of the room.\<close>

theorem room_file_reaches_nobody:
  assumes room: "cx_kind (cp_ctx (ds_composers s ! i)) = KRoom" "cx_target (cp_ctx (ds_composers s ! i)) = rid"
    and unknown: "rid \<notin> set known"
  shows "let t = choose_file i (Some (f, blob)) fid callId sh t1 t2 s
         in conversations (app t) = conversations (app s)
          \<and> (\<exists>d. sent t = sent s @ [(''file'', ''transfer_begin'', Some d)])
          \<and> relayed own known (''media'', ''offer'', Some (file_offer_json callId rid sd)) = None"
  using room unknown
  by (auto simp: choose_file_def desk_send_ui room_of_def sendFileTo_def Let_def relayed_def sent_def req_def)
     (simp add: file_offer_json_def getStr_def)

theorem room_file_reaches_nobody_witness:
  "conversations (app (choose_file 0 (Some (voice_file 0 [1], [1])) ''f'' ''c'' None 0 0
     (at_desk [] \<lparr>cx_target = ''r'', cx_kind = KRoom\<rparr>))) = conversations (app (at_desk [] \<lparr>cx_target = ''r'', cx_kind = KRoom\<rparr>))"
  using room_file_reaches_nobody[of "at_desk [] \<lparr>cx_target = ''r'', cx_kind = KRoom\<rparr>" 0 "''r''" "[''bob'']"]
  by (simp add: Let_def fresh_composer_def)

end
