(* ===== verification/Sidebar.thy ===== *)
theory Sidebar
  imports "HOL-Library.Sorting_Algorithms" Js_Text Conversations Rpc_Client
begin

text \<open>
  The side bar and the profile (\<open>ui/src/views/roster.ts\<close>, \<open>ui/src/views/login.ts\<close>): the lists of devices and
  rooms, opening a conversation, creating a room, logging in and renaming. \<open>String.localeCompare\<close> depends on
  the locale of the browser and is a comparator of the library, given as an argument. The browser's
  storage holds the last name, the device id and the profile; the last one is \<open>rp_stored\<close> of the
  connection, which reads it when the socket opens. None is an exception of the render function.
\<close>

subsection \<open>What is shown\<close>

datatype profile_bar = LoginForm string | Badge bool string

record device_row =
  dr_id :: string
  dr_relayed :: bool
  dr_name :: string
  dr_host :: string

record room_row =
  rr_id :: string
  rr_name :: "string option"
  rr_count :: nat

record sidebar =
  sd_profile :: profile_bar
  sd_devices :: "device_row list"
  sd_rooms :: "room_row list"

definition renderProfileBar :: "string option \<Rightarrow> app_state \<Rightarrow> profile_bar" where
  "renderProfileBar lastName a =
     (case app_profile a of
        None \<Rightarrow> LoginForm (case lastName of None \<Rightarrow> [] | Some n \<Rightarrow> n)
      | Some p \<Rightarrow> Badge (connected a) (pr_name p))"

definition sorted_peers :: "string comparator \<Rightarrow> app_state \<Rightarrow> peer_info list" where
  "sorted_peers locale a = Sorting_Algorithms.sort (key pi_name locale) (map snd (peers a))"

definition row_of_peer :: "peer_info \<Rightarrow> device_row" where
  "row_of_peer p = \<lparr>dr_id = pi_deviceId p, dr_relayed = (pi_via p = Relay), dr_name = pi_name p, dr_host = pi_host p\<rparr>"

text \<open>\<open>r.members.length\<close> throws when the room has no member list.\<close>

definition row_of_room :: "room_info \<Rightarrow> room_row option" where
  "row_of_room r = map_option (\<lambda>ms. \<lparr>rr_id = ri_roomId r, rr_name = ri_name r, rr_count = length ms\<rparr>) (ri_members r)"

definition renderRoster :: "string comparator \<Rightarrow> string option \<Rightarrow> app_state \<Rightarrow> sidebar option" where
  "renderRoster locale lastName a =
     map_option (\<lambda>rs. \<lparr>sd_profile = renderProfileBar lastName a,
                       sd_devices = map row_of_peer (sorted_peers locale a), sd_rooms = rs\<rparr>)
       (those (map (row_of_room \<circ> snd) (rooms a)))"

subsection \<open>Opening a conversation, creating a room\<close>

definition open_chat :: "string \<Rightarrow> msg_kind \<Rightarrow> 'h rpc \<Rightarrow> 'h rpc" where
  "open_chat target k s = patch (\<lambda>a. a\<lparr>app_route := RChat target k\<rparr>) (loadHistory target k s)"

text \<open>\<open>answer\<close>: what \<open>prompt\<close> returns; a rejected request shows a toast.\<close>

definition createRoom :: "string option \<Rightarrow> 'h rpc \<Rightarrow> 'h rpc" where
  "createRoom answer s =
     (case truthy answer of
        None \<Rightarrow> s
      | Some nm \<Rightarrow> if trim nm = [] then s
                  else request ''room'' ''create'' (Some (JObj [(''name'', JStr (trim nm))])) s)"

definition createRoom_failed :: "'h rpc \<Rightarrow> 'h rpc" where
  "createRoom_failed s = toast NRoomCreateFailed s"

subsection \<open>Logging in and renaming\<close>

record storage =
  lo_lastName :: "string option"
  lo_id :: "string option"

text \<open>The platform named by \<open>login\<close>; \<open>detectPlatform\<close> tests in another order.\<close>

definition login_platform :: "string \<Rightarrow> platform" where
  "login_platform ua = (if contains ''Linux'' ua then Linux else if contains ''Mac'' ua then Mac else Win)"

text \<open>\<open>uuid\<close>: the random id, used when none is stored.\<close>

definition login :: "string \<Rightarrow> string \<Rightarrow> storage \<times> 'h rpc \<Rightarrow> storage \<times> 'h rpc" where
  "login uuid raw = (\<lambda>(st, s).
     (let name = trim raw
      in if name = [] then (st, toast NNeedName s)
         else (let did = (case truthy (lo_id st) of None \<Rightarrow> uuid | Some i \<Rightarrow> i);
                   p = \<lparr>pr_deviceId = did, pr_name = name, pr_avatar = None, pr_joinedRooms = []\<rparr>;
                   s1 = patch (\<lambda>a. a\<lparr>app_profile := Some p\<rparr>) (s\<lparr>rp_stored := Some (did, name)\<rparr>);
                   s2 = send ''identity'' ''hello'' (Some (hello_json did name (login_platform (rp_userAgent s)))) s1;
                   s3 = send ''discovery'' ''scan_start'' (Some scan_json) s2
               in (\<lparr>lo_lastName = Some name, lo_id = Some did\<rparr>, toast NOnline (loadRoster s3)))))"

text \<open>The button of the badge; it is there only when there is a profile.\<close>

definition rename_click :: "string option \<Rightarrow> storage \<times> 'h rpc \<Rightarrow> storage \<times> 'h rpc" where
  "rename_click answer = (\<lambda>(st, s).
     (case (app_profile (app s), truthy answer) of
        (Some p, Some v) \<Rightarrow>
          if trim v = [] then (st, s)
          else (st, send ''identity'' ''set_profile'' (Some (JObj [(''name'', JStr (trim v))]))
                      ((patch (\<lambda>a. a\<lparr>app_profile := Some (p\<lparr>pr_name := trim v\<rparr>)\<rparr>) s)
                         \<lparr>rp_stored := Some (pr_deviceId p, trim v)\<rparr>))
      | _ \<Rightarrow> (st, s)))"

datatype page_event = PgLogin string string | PgRename "string option" | PgReopen

fun page_step :: "page_event \<Rightarrow> storage \<times> 'h rpc \<Rightarrow> storage \<times> 'h rpc" where
  "page_step (PgLogin uuid raw) x = login uuid raw x"
| "page_step (PgRename answer) x = rename_click answer x"
| "page_step PgReopen x = (fst x, ws_onopen (snd x))"

text \<open>Who the client is for the daemon: the storage, the profile on display and every greeting agree.\<close>

definition known_as :: "string \<Rightarrow> string \<Rightarrow> storage \<times> 'h rpc \<Rightarrow> bool" where
  "known_as did nm x \<longleftrightarrow>
     did \<noteq> [] \<and> lo_id (fst x) = Some did \<and> rp_stored (snd x) = Some (did, nm)
     \<and> (\<exists>p. app_profile (app (snd x)) = Some p \<and> pr_deviceId p = did \<and> pr_name p = nm)"

definition greetings :: "'h rpc \<Rightarrow> json option list" where
  "greetings s = map (\<lambda>(ns, m, d). d) (filter (\<lambda>(ns, m, d). ns = ''identity'' \<and> m = ''hello'') (sent s))"

subsection \<open>Frame conditions\<close>

lemma page_frame [simp]:
  fixes s :: "'h rpc"
  shows "rp_stored (patch p s) = rp_stored s" "rp_stored (toast n s) = rp_stored s" "rp_stored (send ns m d s) = rp_stored s"
    "rp_stored (request ns m d s) = rp_stored s" "rp_userAgent (patch p s) = rp_userAgent s"
    "app (request ns m d s) = app s" "sent (request ns m d s) = sent s @ [(ns, m, d)]"
    "sent (s\<lparr>rp_stored := v\<rparr>) = sent s"
  by (simp_all add: patch_def toast_def send_def req_def request_def Let_def sent_def)

subsection \<open>What the side bar shows\<close>

lemma those_map: "those (map f xs) = (if \<forall>x \<in> set xs. f x \<noteq> None then Some (map (the \<circ> f) xs) else None)"
  by (induction xs) (auto split: option.splits)

text \<open>The side bar lists every known device exactly once, in the order of the locale, devices with names that
  compare equal in the order in which they were found; it lists every room with the number of its
  members. One room without a member list and there is no side bar at all.\<close>

theorem side_bar_lists:
  "(renderRoster locale lastName a = None) = (\<exists>r \<in> snd ` set (rooms a). ri_members r = None)
   \<and> (\<forall>sd. renderRoster locale lastName a = Some sd \<longrightarrow>
        mset (sd_devices sd) = mset (map (row_of_peer \<circ> snd) (peers a))
      \<and> Sorting_Algorithms.sorted (key dr_name locale) (sd_devices sd)
      \<and> (\<forall>p. filter (\<lambda>q. compare (key pi_name locale) p q = Equiv) (sorted_peers locale a)
             = filter (\<lambda>q. compare (key pi_name locale) p q = Equiv) (map snd (peers a)))
      \<and> map rr_id (sd_rooms sd) = map (ri_roomId \<circ> snd) (rooms a)
      \<and> map rr_count (sd_rooms sd) = map (\<lambda>(k, r). length (members_of r)) (rooms a))"
proof -
  have srt: "Sorting_Algorithms.sorted (key dr_name locale) (map row_of_peer ps)" if "Sorting_Algorithms.sorted (key pi_name locale) ps" for ps :: "peer_info list"
    using that by (induction ps rule: induct_list012) (simp_all add: row_of_peer_def key.rep_eq)
  have row: "row_of_room r = Some \<lparr>rr_id = ri_roomId r, rr_name = ri_name r, rr_count = length (members_of r)\<rparr>"
    if "ri_members r \<noteq> None" for r :: room_info
    using that by (auto simp: row_of_room_def members_of_def)
  have none: "row_of_room r = None \<longleftrightarrow> ri_members r = None" for r :: room_info by (simp add: row_of_room_def)
  have dev: "mset (map row_of_peer (sorted_peers locale a)) = mset (map (row_of_peer \<circ> snd) (peers a))"
    by (simp add: sorted_peers_def mset_map[symmetric] del: mset_map) (simp add: image_mset.compositionality o_def)
  have stable: "filter (\<lambda>q. compare (key pi_name locale) p q = Equiv) (sorted_peers locale a)
      = filter (\<lambda>q. compare (key pi_name locale) p q = Equiv) (map snd (peers a))" for p
    unfolding sorted_peers_def by (rule stable_sort)
  show ?thesis
    using srt[of "sorted_peers locale a"] stable dev
    by (auto simp: renderRoster_def those_map none row sorted_peers_def o_def split: if_splits)
qed

subsection \<open>The identity over time\<close>

text \<open>Logged in as \<open>did\<close>, and every greeting after \<open>base\<close> was sent under that id.\<close>

definition logged :: "string \<Rightarrow> json option list \<Rightarrow> storage \<times> 'h rpc \<Rightarrow> bool" where
  "logged did base x \<longleftrightarrow> (\<exists>nm. known_as did nm x)
     \<and> (\<exists>gs. greetings (snd x) = base @ gs \<and> (\<forall>g \<in> set gs. \<exists>nm pf. g = Some (hello_json did nm pf)))"

lemma logged_keep: "logged did base x \<Longrightarrow> known_as did nm x' \<Longrightarrow> greetings (snd x') = greetings (snd x) \<Longrightarrow> logged did base x'"
  unfolding logged_def by metis

lemma logged_add:
  "greetings (snd x) = base @ gs \<Longrightarrow> \<forall>g \<in> set gs. \<exists>nm pf. g = Some (hello_json did nm pf) \<Longrightarrow> known_as did nm x'
   \<Longrightarrow> greetings (snd x') = greetings (snd x) @ [Some (hello_json did n pf)] \<Longrightarrow> logged did base x'"
  unfolding logged_def by (intro conjI exI[of _ nm] exI[of _ "gs @ [Some (hello_json did n pf)]"]) auto

lemma login_effect:
  assumes "trim raw \<noteq> []" "(case truthy (lo_id st) of None \<Rightarrow> uuid | Some i \<Rightarrow> i) = did" "did \<noteq> []"
  shows "known_as did (trim raw) (login uuid raw (st, s))"
    and "greetings (snd (login uuid raw (st, s))) = greetings s @ [Some (hello_json did (trim raw) (login_platform (rp_userAgent s)))]"
  using assms by (simp_all add: login_def known_as_def Let_def loadRoster_def greetings_def)

lemma logged_step:
  assumes "logged did base x"
  shows "logged did base (page_step e x)"
proof -
  obtain st s where x: "x = (st, s)" by fastforce
  obtain nm p gs where k: "did \<noteq> []" "lo_id st = Some did" "rp_stored s = Some (did, nm)" "app_profile (app s) = Some p"
      "pr_deviceId p = did" "pr_name p = nm" "known_as did nm x" "greetings (snd x) = base @ gs"
      "\<forall>g \<in> set gs. \<exists>nm pf. g = Some (hello_json did nm pf)"
    using assms by (auto simp: x logged_def known_as_def)
  show ?thesis
  proof (cases e)
    case (PgLogin u r)
    show ?thesis
    proof (cases "trim r = []")
      case True
      then have "login u r x = (st, toast NNeedName s)" by (simp add: x login_def)
      moreover have "known_as did nm (st, toast NNeedName s)" "greetings (toast NNeedName s) = greetings s"
        using k by (simp_all add: x known_as_def greetings_def)
      ultimately show ?thesis using logged_keep[OF assms, of nm "(st, toast NNeedName s)"] by (simp add: PgLogin x)
    next
      case False
      have "(case truthy (lo_id st) of None \<Rightarrow> u | Some i \<Rightarrow> i) = did" using k by (simp add: truthy_def)
      note eff = login_effect[OF False this k(1)]
      have gx: "greetings s = base @ gs" using k(8) by (simp add: x)
      show ?thesis using logged_add[where x = "(st, s)", simplified, OF gx _ eff] k(9) by (simp add: PgLogin x)
    qed
  next
    case (PgRename v)
    show ?thesis
    proof (cases "\<exists>w. truthy v = Some w \<and> trim w \<noteq> []")
      case True
      then obtain w where w: "truthy v = Some w" "trim w \<noteq> []" by blast
      then have "known_as did (trim w) (rename_click v x)" "greetings (snd (rename_click v x)) = greetings (snd x)"
        using k by (simp_all add: x known_as_def greetings_def rename_click_def)
      then show ?thesis using logged_keep[OF assms] by (simp add: PgRename)
    next
      case False
      then have "rename_click v x = x" using k by (auto simp: x rename_click_def split: option.split)
      then show ?thesis using assms by (simp add: PgRename)
    qed
  next
    case PgReopen
    have "greetings (ws_onopen s) = greetings s @ [Some (hello_json did nm (detectPlatform (rp_userAgent s)))]"
      "known_as did nm (st, ws_onopen s)"
      using k by (simp_all add: x ws_onopen_def Let_def greetings_def known_as_def)
    then show ?thesis using logged_add[OF k(8) k(9), of nm "(st, ws_onopen s)"] by (simp add: PgReopen x)
  qed
qed

interpretation page_sys: transition_system page_step "logged did base" "logged did base" for did base
  by unfold_locales (auto intro: logged_step)

text \<open>C39: once logged in, the client keeps the same device id through any further logins, renames and
  reconnections: the storage, the profile on display and every greeting sent to the daemon agree on it.
  A page that was loaded again greets under the stored identity too, but has no profile: it asks for a name
  and does not know its own messages.\<close>

theorem identity_stable:
  assumes name: "trim raw \<noteq> []" and uuid: "uuid \<noteq> []"
    and again: "rp_stored r = Some (did', nm')" "app_profile (app r) = None"
  shows "let x' = run_events page_step es (login uuid raw x); did = (case truthy (lo_id (fst x)) of None \<Rightarrow> uuid | Some i \<Rightarrow> i)
     in (\<exists>nm. known_as did nm x')
      \<and> (\<exists>gs. greetings (snd x') = greetings (snd x) @ gs \<and> (\<forall>g \<in> set gs. \<exists>nm pf. g = Some (hello_json did nm pf)))
      \<and> greetings (ws_onopen r) = greetings r @ [Some (hello_json did' nm' (detectPlatform (rp_userAgent r)))]
      \<and> self_id (ws_onopen r) = None
      \<and> renderProfileBar lastName (app (ws_onopen r)) = LoginForm (case lastName of None \<Rightarrow> [] | Some n \<Rightarrow> n)"
proof -
  obtain st s where x: "x = (st, s)" by fastforce
  define did where "did = (case truthy (lo_id st) of None \<Rightarrow> uuid | Some i \<Rightarrow> i)"
  have did: "did \<noteq> []" using uuid by (auto simp: did_def truthy_def split: option.splits)
  note eff = login_effect[OF name did_def[symmetric] did]
  have "logged did (greetings s) (login uuid raw x)"
    using logged_add[where x = "(st, s)" and gs = "[]" and base = "greetings s", simplified, OF eff] by (simp add: x)
  from page_sys.inv_run[OF this, of es] show ?thesis
    using again by (simp add: logged_def Let_def x did_def ws_onopen_def self_id_def renderProfileBar_def) (simp add: greetings_def)
qed

theorem identity_stable_witness:
  "\<exists>nm. known_as ''d1'' nm (run_events page_step [PgRename (Some ''Bob''), PgReopen, PgLogin ''d2'' ''Al'']
     (login ''d1'' ''Ann'' (\<lparr>lo_lastName = None, lo_id = None\<rparr>, rpc_init [] None :: unit rpc)))"
proof -
  have "trim ''Ann'' \<noteq> []" by code_simp
  from identity_stable[OF this, of "''d1''" "(rpc_init [] None :: unit rpc)\<lparr>rp_stored := Some (''d0'', ''An'')\<rparr>" "''d0''" "''An''" "[PgRename (Some ''Bob''), PgReopen, PgLogin ''d2'' ''Al'']"
      "(\<lparr>lo_lastName = None, lo_id = None\<rparr>, rpc_init [] None :: unit rpc)"]
  show ?thesis by (simp add: Let_def truthy_def rpc_init_def ui_init_def new_store_def ui.defs del: run_events.simps)
qed

end
