(* ===== verification/Shell.thy ===== *)
theory Shell
  imports Composer Sidebar
begin

text \<open>
  The shell of the page (\<open>ui/src/main.ts\<close>): it is built once, subscribes to the store and redraws its three
  panels, side bar, chat and call overlay, one after the other whenever the store is patched. The
  panels read the same store but otherwise the state of different components, so \<open>shell_redraw\<close> takes what
  they render. A panel empties its part of the page before it fills it again; None is a part that is
  empty, and an exception leaves the rest of the loop undone.
\<close>

datatype side_view = SideCut profile_bar | SideFull sidebar

record screen =
  sc_side :: "side_view option"
  sc_main :: "main_panel option"
  sc_media :: "panel option"
  sc_toasts :: "toast_text list"

definition buildShell :: screen where
  "buildShell = \<lparr>sc_side = None, sc_main = None, sc_media = None, sc_toasts = []\<rparr>"

text \<open>\<open>render\<close> runs once, at the start; it is the only place where a toast is put on the page.\<close>

definition render :: "app_state \<Rightarrow> screen" where
  "render a = (case app_toast a of None \<Rightarrow> buildShell | Some t \<Rightarrow> buildShell\<lparr>sc_toasts := [t]\<rparr>)"

definition toastNode_expires :: "screen \<Rightarrow> screen" where
  "toastNode_expires sc = sc\<lparr>sc_toasts := []\<rparr>"

text \<open>The listener: the flag tells whether all panels were drawn.\<close>

definition shell_redraw :: "profile_bar \<Rightarrow> sidebar option \<Rightarrow> main_panel option \<Rightarrow> panel \<Rightarrow> screen \<Rightarrow> bool \<times> screen" where
  "shell_redraw bar side main med sc =
     (case side of
        None \<Rightarrow> (False, sc\<lparr>sc_side := Some (SideCut bar)\<rparr>)
      | Some sd \<Rightarrow>
          (case main of
             None \<Rightarrow> (False, sc\<lparr>sc_side := Some (SideFull sd), sc_main := None\<rparr>)
           | Some m \<Rightarrow> (True, sc\<lparr>sc_side := Some (SideFull sd), sc_main := Some m, sc_media := Some med\<rparr>)))"

text \<open>The three panels of a client whose components share the store.\<close>

definition draw :: "string comparator \<Rightarrow> string option \<Rightarrow> int \<Rightarrow> tx \<Rightarrow> calls \<Rightarrow> screen \<Rightarrow> bool \<times> screen" where
  "draw locale lastName zone t c =
     shell_redraw (renderProfileBar lastName (app t)) (renderRoster locale lastName (app t)) (renderChat zone t) (renderMedia c)"

lemma roster_cut: "r \<in> snd ` set (rooms a) \<Longrightarrow> ri_members r = None \<Longrightarrow> renderRoster locale lastName a = None"
  by (auto simp: renderRoster_def those_map row_of_room_def)

lemma roster_whole: "\<forall>r \<in> snd ` set (rooms a). ri_members r \<noteq> None \<Longrightarrow> renderRoster locale lastName a \<noteq> None"
  by (auto simp: renderRoster_def those_map row_of_room_def)

lemma spread_memberless:
  "ri_members r = None \<Longrightarrow> (\<And>p. prev = Some p \<Longrightarrow> ri_members p = None) \<Longrightarrow> ri_members (spread_room prev r) = None"
  by (cases prev) (simp_all add: spread_room_def over_def)

lemma upsert_memberless:
  assumes "ri_members r = None" "\<And>p. mget (rooms (app s)) (ri_roomId r) = Some p \<Longrightarrow> ri_members p = None"
  shows "\<exists>q \<in> snd ` set (rooms (app (on_room_sync r s))). ri_members q = None"
proof -
  let ?q = "spread_room (mget (rooms (app s)) (ri_roomId r)) r"
  have "mget (rooms (app (on_room_sync r s))) (ri_roomId r) = Some ?q" by (simp add: on_room_sync_def upsertRoom_def)
  from mget_SomeD[OF this] have "?q \<in> snd ` set (rooms (app (on_room_sync r s)))" by force
  moreover have "ri_members ?q = None" using assms by (rule spread_memberless)
  ultimately show ?thesis by blast
qed

text \<open>A room event without a member list, for a room whose members are not known, freezes the page: from then on,
  whatever else changes in the store, the redraw throws in the side bar, and neither the chat nor the call
  overlay is drawn again. A call that comes in rings in the state but not on the screen. A membership
  event for the room repairs it.\<close>

theorem memberless_room_freezes:
  assumes r: "ri_members r = None" and new: "mget (rooms (app s)) (ri_roomId r) = None"
    and rest: "\<And>k q. (k, q) \<in> set (rooms (app s)) \<Longrightarrow> ri_members q \<noteq> None"
  shows "let t = on_room_sync r s; u = on_member_joined (ri_roomId r) member t in
      (\<forall>p c sc. rooms (p (app t)) = rooms (app t) \<longrightarrow>
         (let d = draw locale lastName zone (patch p t) c sc
          in \<not> fst d \<and> sc_main (snd d) = sc_main sc \<and> sc_media (snd d) = sc_media sc))
    \<and> renderRoster locale lastName (app u) \<noteq> None"
proof -
  define t where "t = on_room_sync r s"
  obtain q where q: "q \<in> snd ` set (rooms (app t))" "ri_members q = None"
    using upsert_memberless[of r s] r new by (auto simp: t_def)
  have cut: "renderRoster locale lastName a = None" if "rooms a = rooms (app t)" for a
    using roster_cut[of q a] q that by simp
  have rt: "rooms (app t) = rooms (app s) @ [(ri_roomId r, r)]"
    using new by (simp add: t_def on_room_sync_def upsertRoom_def spread_room_def mset_key_new mhas_get)
  define u where "u = on_member_joined (ri_roomId r) member t"
  have "rooms (app u) = rooms (app s) @ [(ri_roomId r, r\<lparr>ri_members := Some [member]\<rparr>)]"
  proof -
    have no: "ri_roomId r \<notin> fst ` set (rooms (app s))"
      using new by (auto simp: mget_def map_of_eq_None_iff)
    have got: "mget (rooms (app t)) (ri_roomId r) = Some r" using new by (simp add: rt mget_def map_add_def)
    have "k \<notin> fst ` set xs \<Longrightarrow> mset_key k v (xs @ [(k, w)]) = xs @ [(k, v)]" for k :: string and v w :: room_info and xs
      by (induction xs) (auto simp: mset_key_def)
    from this[OF no] have set: "mset_key (ri_roomId r) v (rooms (app s) @ [(ri_roomId r, r)]) = rooms (app s) @ [(ri_roomId r, v)]" for v .
    show ?thesis
      using r got set by (simp add: u_def on_member_joined_def setMembers_def Let_def rt members_of_def set_of_list_def set_add_def)
  qed
  then have "renderRoster locale lastName (app u) \<noteq> None"
    using rest by (intro roster_whole) fastforce
  then show ?thesis
    unfolding Let_def t_def[symmetric] u_def[symmetric]
    by (simp add: draw_def shell_redraw_def cut)
qed

theorem memberless_room_freezes_witness:
  "\<not> fst (draw flat None 0 (patch (\<lambda>a. a) (on_room_sync (sample_room\<lparr>ri_members := None\<rparr>) tx_running)) calls_init buildShell)"
proof -
  have none: "rooms (app tx_running) = []"
    by (simp add: tx_running_def tx_sample_def tx_start_def ui_init_def ui.defs new_store_def)
  show ?thesis
    using memberless_room_freezes[of "sample_room\<lparr>ri_members := None\<rparr>" tx_running "''m''" flat None 0]
    by (simp add: Let_def none)
qed

end
