(* ===== verification/Ws_Frames.thy ===== *)
theory Ws_Frames
  imports File_Cards
begin

unbundle bit_operations_syntax

text \<open>
  The WebSocket framing of the development daemon (\<open>dev/daemon/daemon.mjs\<close>): the encoder \<open>encodeText\<close> and the
  loop that takes frames off the receive buffer. The buffer is a latin1 string in the code, here its
  bytes. The first part is independent of the format: an encoder and a decoder of single frames that fit
  together give a stream that is decoded the same however the transport cuts it (locale \<open>framing\<close>).
\<close>

subsection \<open>Streams of frames\<close>

text \<open>The receive loop: take frames until the decoder needs more bytes or a closing frame comes. The result: the
  frames, the bytes left, whether the loop stopped at a closing frame. The fuel bounds the frames taken.\<close>

fun unframe :: "('b list \<Rightarrow> ('m \<times> 'b list) option) \<Rightarrow> ('m \<Rightarrow> bool) \<Rightarrow> nat \<Rightarrow> 'b list \<Rightarrow> 'm list \<times> 'b list \<times> bool" where
  "unframe dec closing 0 buf = ([], buf, False)"
| "unframe dec closing (Suc n) buf =
     (case dec buf of
        None \<Rightarrow> ([], buf, False)
      | Some (m, rest) \<Rightarrow>
          if closing m then ([], rest, True)
          else (let (ms, left, stop) = unframe dec closing n rest in (m # ms, left, stop)))"

text \<open>One \<open>data\<close> event: the chunk is appended and the loop runs. A closing frame ends the socket on the sending
  side only: the flag is set, and data that still come are handled all the same.\<close>

definition feed :: "('b list \<Rightarrow> ('m \<times> 'b list) option) \<Rightarrow> ('m \<Rightarrow> bool) \<Rightarrow> 'b list \<Rightarrow> 'm list \<times> 'b list \<times> bool \<Rightarrow> 'm list \<times> 'b list \<times> bool" where
  "feed dec closing chunk st =
     (case st of (ms, left, stop) \<Rightarrow>
        let buf = left @ chunk; (ns, left', stop') = unframe dec closing (length buf) buf
        in (ms @ ns, left', stop \<or> stop'))"

locale framing =
  fixes enc :: "'w \<Rightarrow> 'b list"
    and seen :: "'w \<Rightarrow> 'm"
    and dec :: "'b list \<Rightarrow> ('m \<times> 'b list) option"
    and ok :: "'w \<Rightarrow> bool"
    and closing :: "'m \<Rightarrow> bool"
  assumes dec_enc: "ok w \<Longrightarrow> dec (enc w @ r) = Some (seen w, r)"
    and dec_more: "dec b = Some (m, r) \<Longrightarrow> dec (b @ x) = Some (m, r @ x)"
    and dec_shorter: "dec b = Some (m, r) \<Longrightarrow> length r < length b"
begin

lemma dec_empty: "dec [] = None"
  using dec_shorter[of "[]"] by (cases "dec []") auto

text \<open>Fuel for the bytes of the buffer is enough, and more changes nothing.\<close>

lemma unframe_fuel: "length b \<le> n \<Longrightarrow> unframe dec closing n b = unframe dec closing (length b) b"
proof (induction n arbitrary: b rule: less_induct)
  case (less n)
  show ?case
  proof (cases "dec b")
    case None
    then show ?thesis by (cases n; cases "length b") auto
  next
    case (Some p)
    obtain m r where p: "p = (m, r)" by fastforce
    then have r: "length r < length b" using dec_shorter Some by simp
    with less.prems obtain k j where k: "n = Suc k" and j: "length b = Suc j" by (cases n; cases "length b") auto
    have "unframe dec closing k r = unframe dec closing j r"
    proof -
      have "unframe dec closing k r = unframe dec closing (length r) r" using less.IH[of k r] less.prems r k by simp
      moreover have "unframe dec closing j r = unframe dec closing (length r) r" using less.IH[of j r] less.prems r k j by simp
      ultimately show ?thesis by simp
    qed
    then show ?thesis by (simp add: k j Some p)
  qed
qed

text \<open>The loop on \<open>a @ b\<close> is the loop on \<open>a\<close> continued with what is left of it and \<open>b\<close>.\<close>

lemma unframe_append:
  assumes "unframe dec closing (length a) a = (ms, left, stop)"
  shows "unframe dec closing (length (a @ b)) (a @ b) =
    (if stop then (ms, left @ b, True)
     else (let (ns, left', stop') = unframe dec closing (length (left @ b)) (left @ b) in (ms @ ns, left', stop')))"
  using assms
proof (induction "length a" arbitrary: a ms rule: less_induct)
  case less
  show ?case
  proof (cases "dec a")
    case None
    with less.prems have "ms = []" "left = a" "\<not> stop" by (cases "length a"; simp)+
    then show ?thesis by simp
  next
    case (Some p)
    obtain m r where p: "p = (m, r)" by fastforce
    with Some have d: "dec a = Some (m, r)" and r: "length r < length a" using dec_shorter by simp_all
    then obtain j where j: "length a = Suc j" by (cases "length a") auto
    have d': "dec (a @ b) = Some (m, r @ b)" using dec_more d by blast
    show ?thesis
    proof (cases "closing m")
      case True
      with less.prems d j show ?thesis by (auto simp: d')
    next
      case False
      obtain ms' where ms: "ms = m # ms'" and u: "unframe dec closing (length r) r = (ms', left, stop)"
        using less.prems d j False unframe_fuel[of r j] r by (auto split: prod.splits)
      have "unframe dec closing (length (a @ b)) (a @ b) =
          (let (ns, l, st) = unframe dec closing (length (r @ b)) (r @ b) in (m # ns, l, st))"
        using unframe_fuel[of "r @ b" "j + length b"] r j d' False by simp
      also have "\<dots> = (if stop then (ms, left @ b, True)
          else (let (ns, left', stop') = unframe dec closing (length (left @ b)) (left @ b) in (ms @ ns, left', stop')))"
        using less.hyps[OF r u] by (simp add: ms split: prod.split)
      finally show ?thesis .
    qed
  qed
qed

text \<open>However a stream without a closing frame is cut into chunks, the frames are those of the whole.\<close>

lemma feed_whole:
  assumes "unframe dec closing (length (concat chunks)) (concat chunks) = (ms, left, False)"
  shows "fold (feed dec closing) chunks ([], [], False) = (ms, left, False)"
  using assms
proof (induction chunks arbitrary: ms left rule: rev_induct)
  case (snoc c cs)
  obtain ms' left' stop' where u: "unframe dec closing (length (concat cs)) (concat cs) = (ms', left', stop')"
    by (metis surj_pair)
  note app = unframe_append[OF u, of c]
  have "\<not> stop'" using app snoc.prems by auto
  with snoc.IH[of ms' left'] u app snoc.prems show ?case
    by (auto simp: feed_def Let_def split: prod.splits)
qed simp

text \<open>Frames that are written one after the other are read back in order.\<close>

lemma unframe_concat:
  assumes "\<forall>w \<in> set ws. ok w \<and> \<not> closing (seen w)"
  shows "unframe dec closing (length (concat (map enc ws))) (concat (map enc ws)) = (map seen ws, [], False)"
  using assms
proof (induction ws)
  case (Cons w ws)
  define b where "b = concat (map enc ws)"
  have d: "dec (enc w @ b) = Some (seen w, b)" using Cons.prems dec_enc by simp
  obtain j where j: "length (enc w @ b) = Suc j"
    using dec_shorter[OF d] by (cases "length (enc w @ b)") auto
  have le: "length b \<le> j" using dec_shorter[OF d] j by linarith
  have "unframe dec closing (length b) b = (map seen ws, [], False)" using Cons unfolding b_def by simp
  then have "unframe dec closing j b = (map seen ws, [], False)" using unframe_fuel[OF le] by simp
  then have "unframe dec closing (Suc j) (enc w @ b) = (seen w # map seen ws, [], False)"
    using d Cons.prems by simp
  then show ?case unfolding j[symmetric] b_def by simp
qed simp

text \<open>Both together: what was written frame by frame is read, whatever chunks the bytes arrive in.\<close>

lemma stream_read:
  assumes "\<forall>w \<in> set ws. ok w \<and> \<not> closing (seen w)" "concat chunks = concat (map enc ws)"
  shows "fold (feed dec closing) chunks ([], [], False) = (map seen ws, [], False)"
  using unframe_concat[OF assms(1)] by (intro feed_whole) (simp add: assms(2))

end

subsection \<open>The frames of the daemon\<close>

text \<open>\<open>writeBigUInt64BE\<close>: the \<open>k\<close> bytes of a number, most significant first; reading them back as the loop does.\<close>

fun be_bytes :: "nat \<Rightarrow> nat \<Rightarrow> byte list" where
  "be_bytes 0 n = []"
| "be_bytes (Suc k) n = be_bytes k (n div 256) @ [of_nat n]"

definition be_value :: "byte list \<Rightarrow> nat" where
  "be_value = foldl (\<lambda>n b. n * 256 + unat b) 0"

lemma length_be [simp]: "length (be_bytes k n) = k"
  by (induction k arbitrary: n) auto

lemma be_value_snoc [simp]: "be_value (bs @ [b]) = be_value bs * 256 + unat b"
  by (simp add: be_value_def)

lemma be_value_bytes: "n < 256 ^ k \<Longrightarrow> be_value (be_bytes k n) = n"
proof (induction k arbitrary: n)
  case (Suc k)
  have "n div 256 < 256 ^ k" using Suc.prems by (simp add: less_mult_imp_div_less mult.commute)
  with Suc.IH show ?case by (simp add: unat_of_nat take_bit_eq_mod)
qed (simp add: be_value_def)

text \<open>\<open>encodeText\<close>: a final text frame without a mask.\<close>

definition encodeText :: "byte list \<Rightarrow> byte list" where
  "encodeText payload =
     (let n = length payload;
          len = (if n < 126 then [of_nat n]
                 else if n < 65536 then [126, of_nat (drop_bit 8 n), of_nat (n AND 0xff)]
                 else 127 # be_bytes 8 n)
      in 0x81 # len @ payload)"

text \<open>The payload with the four bytes of the mask, repeated, taken off (or put on).\<close>

definition xor_mask :: "byte list \<Rightarrow> byte list \<Rightarrow> byte list" where
  "xor_mask key payload = map (\<lambda>i. payload ! i XOR key ! (i mod 4)) [0..<length payload]"

text \<open>One turn of the loop: the length of the frame, its mask, its payload; None when bytes are missing.
  A frame is its opcode and its payload.\<close>

definition frame_body :: "byte list \<Rightarrow> nat \<Rightarrow> nat \<Rightarrow> ((nat \<times> byte list) \<times> byte list) option" where
  "frame_body buf len off =
     (let masked = ((buf ! 1) AND 0x80 \<noteq> 0);
          key = take 4 (drop off buf);
          off' = (if masked then off + 4 else off);
          payload = take len (drop off' buf)
      in if length buf < off' + len then None
         else Some ((unat ((buf ! 0) AND 0x0f), if masked then xor_mask key payload else payload),
                    drop (off' + len) buf))"

definition next_frame :: "byte list \<Rightarrow> ((nat \<times> byte list) \<times> byte list) option" where
  "next_frame buf =
     (if length buf < 2 then None
      else let len = unat ((buf ! 1) AND 0x7f)
           in if len = 126
              then (if length buf < 4 then None
                    else frame_body buf (push_bit 8 (unat (buf ! 2)) OR unat (buf ! 3)) 4)
              else if len = 127
              then (if length buf < 10 then None else frame_body buf (be_value (take 8 (drop 2 buf))) 10)
              else frame_body buf len 2)"

definition is_close :: "nat \<times> byte list \<Rightarrow> bool" where
  "is_close f \<longleftrightarrow> fst f = 8"

definition drain :: "byte list \<Rightarrow> (nat \<times> byte list) list \<times> byte list \<times> bool" where
  "drain buf = unframe next_frame is_close (length buf) buf"

text \<open>What a browser sends (RFC 6455): the same header with the mask bit, the mask, the masked payload.\<close>

definition client_frame :: "byte list \<Rightarrow> nat \<times> byte list \<Rightarrow> byte list" where
  "client_frame key f =
     (case f of (op, payload) \<Rightarrow>
       (let n = length payload;
            len = (if n < 126 then [0x80 OR of_nat n]
                   else if n < 65536 then [0x80 OR 126, of_nat (drop_bit 8 n), of_nat (n AND 0xff)]
                   else 0xff # be_bytes 8 n)
        in (0x80 OR of_nat op) # len @ key @ xor_mask key payload))"

lemma xor_mask_twice: "length key = 4 \<Longrightarrow> xor_mask key (xor_mask key p) = p"
  by (rule nth_equalityI) (simp_all add: xor_mask_def xor.assoc)

lemma length_xor_mask [simp]: "length (xor_mask key p) = length p"
  by (simp add: xor_mask_def)

lemma body_more: "frame_body buf len off = Some (m, r) \<Longrightarrow> 2 \<le> length buf \<Longrightarrow> frame_body (buf @ x) len off = Some (m, r @ x)"
  by (auto simp: frame_body_def Let_def nth_append split: if_splits)

lemma body_shorter: "frame_body buf len off = Some (m, r) \<Longrightarrow> 0 < off \<Longrightarrow> 2 \<le> length buf \<Longrightarrow> length r < length buf"
  by (auto simp: frame_body_def Let_def split: if_splits)

lemma next_more: "next_frame b = Some (m, r) \<Longrightarrow> next_frame (b @ x) = Some (m, r @ x)"
  using body_more[of b _ _ m r x]
  by (auto simp: next_frame_def Let_def nth_append split: if_splits)

lemma next_shorter: "next_frame b = Some (m, r) \<Longrightarrow> length r < length b"
  using body_shorter[of b _ _ m r] by (auto simp: next_frame_def Let_def split: if_splits)

subsection \<open>Reading back\<close>

lemma len7_all:
  "\<forall>n \<in> set [0..<126]. (of_nat n :: byte) AND 0x80 = 0 \<and> unat ((of_nat n :: byte) AND 0x7f) = n
     \<and> (0x80 OR of_nat n :: byte) AND 0x80 \<noteq> 0 \<and> unat ((0x80 OR of_nat n :: byte) AND 0x7f) = n"
  by code_simp

lemma len7:
  assumes "n < 126"
  shows "(of_nat n :: byte) AND 0x80 = 0" "unat ((of_nat n :: byte) AND 0x7f) = n"
    "(0x80 OR of_nat n :: byte) AND 0x80 \<noteq> 0" "unat ((0x80 OR of_nat n :: byte) AND 0x7f) = n"
  using len7_all assms by simp_all

lemma opcode_all: "\<forall>n \<in> set [0..<16]. unat ((0x80 OR of_nat n :: byte) AND 0x0f) = n"
  by code_simp

lemma len16:
  assumes "n < 65536"
  shows "push_bit 8 (unat (of_nat (drop_bit 8 n) :: byte)) OR unat (of_nat (n AND 0xff) :: byte) = n"
proof -
  have "n AND 0xff = take_bit 8 n" by (simp add: take_bit_eq_mask mask_eq_exp_minus_1)
  then have low: "unat (of_nat (n AND 0xff) :: byte) = take_bit 8 n" by (simp add: unat_of_nat take_bit_eq_mod)
  have "drop_bit 8 n < 256" using assms by (simp add: drop_bit_eq_div)
  then have high: "unat (of_nat (drop_bit 8 n) :: byte) = drop_bit 8 n" by (simp add: unat_of_nat take_bit_eq_mod)
  show ?thesis unfolding low high by (rule bit_eqI) (auto simp: bit_simps)
qed

text \<open>The header of a frame and the frame after it, for both encoders.\<close>

lemma body_plain:
  assumes "buf = h # l # xs @ p @ r" "off = 2 + length xs" "len = length p" "l AND 0x80 = 0"
  shows "frame_body buf len off = Some ((unat (h AND 0x0f), p), r)"
  using assms by (simp add: frame_body_def Let_def)

lemma body_masked:
  assumes "buf = h # l # xs @ key @ xor_mask key p @ r" "off = 2 + length xs" "len = length p" "l AND 0x80 \<noteq> 0" "length key = 4"
  shows "frame_body buf len off = Some ((unat (h AND 0x0f), p), r)"
proof -
  define ys where "ys = h # l # xs @ key"
  have b: "buf = ys @ xor_mask key p @ r" and len_ys: "off + 4 = length ys" and l: "buf ! 1 = l" "buf ! 0 = h"
    and k: "take 4 (drop off buf) = key"
    using assms by (simp_all add: ys_def)
  have "take len (drop (off + 4) buf) = xor_mask key p" "drop (off + 4 + len) buf = r" "\<not> length buf < off + 4 + len"
    using assms(3) unfolding b len_ys by simp_all
  then show ?thesis
    using assms(4,5) l k by (simp add: frame_body_def Let_def xor_mask_twice)
qed

lemma next_encodeText:
  assumes n: "length p < 2 ^ 64"
  shows "next_frame (encodeText p @ r) = Some ((1, p), r)"
proof -
  consider "length p < 126" | "126 \<le> length p" "length p < 65536" | "65536 \<le> length p" by linarith
  then show ?thesis
  proof cases
    case 1
    then show ?thesis
      using body_plain[of "encodeText p @ r" "0x81" "of_nat (length p)" "[]" p r 2 "length p"]
      by (simp add: next_frame_def Let_def encodeText_def len7)
  next
    case 2
    then show ?thesis
      using body_plain[of "encodeText p @ r" "0x81" 126 "[of_nat (drop_bit 8 (length p)), of_nat (length p AND 0xff)]" p r 4 "length p"]
        len16[of "length p"]
      by (simp add: next_frame_def Let_def encodeText_def)
  next
    case 3
    have v: "be_value (be_bytes 8 (length p)) = length p" using n by (intro be_value_bytes) simp
    from 3 show ?thesis
      using body_plain[of "encodeText p @ r" "0x81" 127 "be_bytes 8 (length p)" p r 10 "length p"] v
      by (simp add: next_frame_def Let_def encodeText_def)
  qed
qed

lemma next_client:
  assumes n: "length p < 2 ^ 64" and opc: "opc < 16" and key: "length key = 4"
  shows "next_frame (client_frame key (opc, p) @ r) = Some ((opc, p), r)"
proof -
  have h: "unat ((0x80 OR of_nat opc :: byte) AND 0x0f) = opc" using opcode_all opc by simp
  consider "length p < 126" | "126 \<le> length p" "length p < 65536" | "65536 \<le> length p" by linarith
  then show ?thesis
  proof cases
    case 1
    then show ?thesis
      using body_masked[of "client_frame key (opc, p) @ r" "0x80 OR of_nat opc" "0x80 OR of_nat (length p)" "[]" key p r 2 "length p"] key h
      by (simp add: next_frame_def Let_def client_frame_def len7)
  next
    case 2
    then show ?thesis
      using body_masked[of "client_frame key (opc, p) @ r" "0x80 OR of_nat opc" "0x80 OR 126"
          "[of_nat (drop_bit 8 (length p)), of_nat (length p AND 0xff)]" key p r 4 "length p"]
        len16[of "length p"] key h
      by (simp add: next_frame_def Let_def client_frame_def)
  next
    case 3
    have v: "be_value (be_bytes 8 (length p)) = length p" using n by (intro be_value_bytes) simp
    from 3 show ?thesis
      using body_masked[of "client_frame key (opc, p) @ r" "0x80 OR of_nat opc" "0xff" "be_bytes 8 (length p)" key p r 10 "length p"] v key h
      by (simp add: next_frame_def Let_def client_frame_def)
  qed
qed

text \<open>The frames of browsers, each with a mask of its own, and those of the daemon, read by the same loop.\<close>

definition client_write :: "byte list \<times> nat \<times> byte list \<Rightarrow> byte list" where
  "client_write w = client_frame (fst w) (snd w)"

definition client_ok :: "byte list \<times> nat \<times> byte list \<Rightarrow> bool" where
  "client_ok w \<longleftrightarrow> length (fst w) = 4 \<and> fst (snd w) < 16 \<and> length (snd (snd w)) < 2 ^ 64"

interpretation client: framing client_write snd next_frame client_ok is_close
  by unfold_locales (auto simp: client_write_def client_ok_def next_client next_more next_shorter)

interpretation own: framing encodeText "Pair 1" next_frame "\<lambda>p. length p < 2 ^ 64" is_close
  by unfold_locales (auto simp: next_encodeText next_more next_shorter)

lemma drain_eq:
  "drain (concat chunks) = (ms, left, False) \<Longrightarrow> fold (feed next_frame is_close) chunks ([], [], False) = (ms, left, False)"
  using client.feed_whole by (simp add: drain_def)


definition hi :: "byte list" where
  "hi = [104, 105]"


end
