(* ===== verification/Dev_Daemon.thy ===== *)
theory Dev_Daemon
  imports Ws_Frames Rpc_Client Js_Text
begin

text \<open>
  The development daemon (\<open>dev/daemon/daemon.mjs\<close>): a stub of the native daemon that answers the client's
  requests from memory. \<open>handleReq\<close> works on parsed JSON with the conversions of JavaScript written out;
  None is the exception that ends the process. \<open>on_data\<close> is the socket handler: the handshake, the
  receive loop of \<open>Ws_Frames\<close> and the replies.

  \<open>JSON.parse\<close> and \<open>JSON.stringify\<close> are parameters, the clock is an argument. Numbers are integers.
\<close>

subsection \<open>JavaScript values\<close>

definition js_truthy :: "json option \<Rightarrow> bool" where
  "js_truthy v = (case v of None \<Rightarrow> False | Some JNull \<Rightarrow> False | Some (JBool b) \<Rightarrow> b | Some (JNum n) \<Rightarrow> n \<noteq> 0
     | Some (JStr s) \<Rightarrow> s \<noteq> [] | Some (JList _) \<Rightarrow> True | Some (JObj _) \<Rightarrow> True)"

text \<open>\<open>v || w\<close>.\<close>

definition js_or :: "json option \<Rightarrow> json \<Rightarrow> json" where
  "js_or v w = (case v of Some x \<Rightarrow> if js_truthy v then x else w | None \<Rightarrow> w)"

definition show_int :: "int \<Rightarrow> string" where
  "show_int n = (if n < 0 then ''-'' @ show_nat (nat (- n)) else show_nat (nat n))"

text \<open>The conversion to a string of a value that is concatenated or used as a property key.\<close>

fun js_str :: "json \<Rightarrow> string" where
  "js_str JNull = ''null''"
| "js_str (JBool b) = (if b then ''true'' else ''false'')"
| "js_str (JNum n) = show_int n"
| "js_str (JStr s) = s"
| "js_str (JList []) = []"
| "js_str (JList (x # xs)) = (if x = JNull then [] else js_str x) @ (if xs = [] then [] else '','' @ js_str (JList xs))"
| "js_str (JObj _) = ''[object Object]''"

text \<open>The conversion throws for an object with a property \<open>toString\<close> of its own, which in JSON is no function.\<close>

fun js_throws :: "json \<Rightarrow> bool" where
  "js_throws (JObj fs) = (''toString'' \<in> set (map fst fs))"
| "js_throws (JList []) = False"
| "js_throws (JList (x # xs)) = (js_throws x \<or> js_throws (JList xs))"
| "js_throws _ = False"

definition throws_opt :: "json option \<Rightarrow> bool" where
  "throws_opt v = (case v of None \<Rightarrow> False | Some x \<Rightarrow> js_throws x)"

definition js_str_opt :: "json option \<Rightarrow> string" where
  "js_str_opt v = (case v of None \<Rightarrow> ''undefined'' | Some x \<Rightarrow> js_str x)"

text \<open>The properties every object inherits: reading one is not \<open>undefined\<close>.\<close>

definition inherited :: "string list" where
  "inherited = [''constructor'', ''__proto__'', ''hasOwnProperty'', ''isPrototypeOf'', ''propertyIsEnumerable'',
     ''toString'', ''toLocaleString'', ''valueOf'', ''__defineGetter__'', ''__defineSetter__'',
     ''__lookupGetter__'', ''__lookupSetter__'']"

subsection \<open>State\<close>

record dev_peer =
  dp_deviceId :: string
  dp_name :: string
  dp_host :: string
  dp_netmask :: "string option"
  dp_via :: "string option"
  dp_lastSeen :: "int option"

record dev_room =
  dr_roomId :: string
  dr_name :: json
  dr_owner :: string
  dr_members :: "string list"

datatype dev_timer = TScan | TEcho json

record dev =
  dv_seq :: nat
  dv_peers :: "(string, dev_peer) jsmap"
  dv_rooms :: "(string, dev_room) jsmap"
  dv_timers :: "dev_timer list"

definition dev_init :: dev where
  "dev_init = \<lparr>dv_seq = 0, dv_peers = [], dv_rooms = [], dv_timers = []\<rparr>"

subsection \<open>Requests\<close>

definition dev_txn :: "nat \<Rightarrow> string" where
  "dev_txn n = ''dev-'' @ show_nat n"

definition replyObj :: "json option \<Rightarrow> json option \<Rightarrow> json option \<Rightarrow> dev \<Rightarrow> json \<times> dev" where
  "replyObj ns m d s =
     (let n = Suc (dv_seq s)
      in (JObj [(''v'', JNum 1), (''txn'', JStr (dev_txn n)), (''dir'', JStr ''res''), (''ns'', js_or ns (JStr [])),
                (''m'', js_or m (JStr [])), (''ok'', JBool True), (''d'', js_or d (JObj []))],
          s\<lparr>dv_seq := n\<rparr>))"

definition peer_json :: "int \<Rightarrow> dev_peer \<Rightarrow> json" where
  "peer_json now p = JObj
     [(''deviceId'', JStr (dp_deviceId p)), (''name'', JStr (dp_name p)), (''host'', JStr (dp_host p)),
      (''netmask'', JStr (case truthy (dp_netmask p) of None \<Rightarrow> [] | Some x \<Rightarrow> x)),
      (''via'', JStr (case truthy (dp_via p) of None \<Rightarrow> ''lan'' | Some x \<Rightarrow> x)),
      (''lastSeen'', JNum (case dp_lastSeen p of None \<Rightarrow> now | Some n \<Rightarrow> if n = 0 then now else n)),
      (''caps'', JList (map JStr [''chat'', ''media'', ''file'', ''remote'', ''share'']))]"

definition peerList :: "int \<Rightarrow> dev \<Rightarrow> json list" where
  "peerList now s = map (peer_json now) (mvals (dv_peers s))"

text \<open>The default name of a room, in the bytes of its UTF-8 encoding.\<close>

definition room_default :: string where
  "room_default = [CHR 0xE7, CHR 0xBE, CHR 0xA4, CHR 0xE8, CHR 0x81, CHR 0x8A]"

definition echo_json :: "int \<Rightarrow> nat \<Rightarrow> json \<Rightarrow> json" where
  "echo_json now seq d = JObj
     ([(''kind'', js_or (jfield ''kind'' d) (JStr ''chat'')), (''type'', js_or (jfield ''type'' d) (JStr ''text'')),
       (''from'', JStr ''dev-node-1''), (''to'', js_or (jfield ''to'' d) (JStr [])),
       (''nonce'', js_or (jfield ''nonce'' d) (JStr [])), (''ts'', JNum now)]
      @ opt_field ''body'' (\<lambda>x. x) (jfield ''body'' d) @ [(''seq'', JNum (int seq))])"

text \<open>\<open>rooms[key]\<close>: a room of the daemon, an inherited property, or \<open>undefined\<close>.\<close>

datatype room_slot = ROwn dev_room | RInherited | RNone

definition room_at :: "string \<Rightarrow> dev \<Rightarrow> room_slot" where
  "room_at k s = (case mget (dv_rooms s) k of Some r \<Rightarrow> ROwn r
     | None \<Rightarrow> if k \<in> set inherited then RInherited else RNone)"

text \<open>\<open>hexnow\<close> is \<open>Date.now().toString(16)\<close>.\<close>

definition handleReq :: "int \<Rightarrow> string \<Rightarrow> json \<Rightarrow> dev \<Rightarrow> (json \<times> dev) option" where
  "handleReq now hexnow p s =
     (if p = JNull \<or> throws_opt (jfield ''ns'' p) \<or> throws_opt (jfield ''m'' p) then None
      else let ns = jfield ''ns'' p; m = jfield ''m'' p; d = js_or (jfield ''d'' p) (JObj []);
               key = js_str_opt ns @ ''.'' @ js_str_opt m;
               reply = (\<lambda>x t. Some (replyObj ns m (Some (JObj x)) t))
           in if key = ''identity.hello''
              then reply [(''deviceId'', JStr ''dev-node-1''), (''name'', JStr ''dev-machine''),
                          (''platform'', JStr ''win''), (''version'', JStr ''0.1.0'')] s
              else if key = ''identity.set_profile'' then reply [] s
              else if key = ''roster.list'' then reply [(''peers'', JList (peerList now s))] s
              else if key = ''discovery.scan_start'' then reply [] (s\<lparr>dv_timers := dv_timers s @ [TScan]\<rparr>)
              else if key = ''discovery.scan_stop'' then reply [] s
              else if key = ''message.send''
              then reply [(''seq'', JNum (int (dv_seq s))), (''accepted'', JBool True)]
                     (s\<lparr>dv_timers := dv_timers s @ [TEcho (echo_json now (dv_seq s) d)]\<rparr>)
              else if key = ''message.history'' then reply [(''items'', JList []), (''cursor'', JStr [])] s
              else if key = ''room.create''
              then (let rid = ''room-'' @ hexnow; nm = js_or (jfield ''name'' d) (JStr room_default)
                    in reply [(''roomId'', JStr rid), (''name'', nm)]
                         (s\<lparr>dv_rooms := mset_key rid \<lparr>dr_roomId = rid, dr_name = nm, dr_owner = ''dev-node-1'',
                              dr_members = [''dev-node-1'']\<rparr> (dv_rooms s)\<rparr>))
              else if key = ''room.join''
              then (let rid = js_or (jfield ''roomId'' d) (JStr []); k = js_str rid
                    in if js_throws rid then None else case room_at k s of
                         ROwn r \<Rightarrow> reply [(''roomId'', rid)]
                           (s\<lparr>dv_rooms := mset_key k (r\<lparr>dr_members := dr_members r @ [''dev-node-1'']\<rparr>) (dv_rooms s)\<rparr>)
                       | RInherited \<Rightarrow> None
                       | RNone \<Rightarrow> reply [(''roomId'', rid)] s)
              else if key = ''room.members''
              then (if throws_opt (jfield ''roomId'' d) then None
                    else case room_at (js_str_opt (jfield ''roomId'' d)) s of
                      ROwn r \<Rightarrow> reply [(''members'', JList (map JStr (dr_members r))), (''owner'', JStr (dr_owner r))] s
                    | RInherited \<Rightarrow> reply [] s
                    | RNone \<Rightarrow> reply [(''members'', JList []), (''owner'', JStr [])] s)
              else if key = ''profile.get''
              then reply [(''deviceId'', JStr ''dev-node-1''), (''name'', JStr ''dev-machine''), (''avatar'', JStr []),
                          (''joinedRooms'', JList (map JStr (mkeys (dv_rooms s))))] s
              else if key = ''file.transfer_begin''
              then reply [(''fileId'', js_or (jfield ''fileId'' d) (JStr (''f-'' @ show_int now)))] s
              else reply [(''note'', JStr (''dev stub: '' @ js_str_opt ns @ ''.'' @ js_str_opt m))] s)"

text \<open>A timer fires: the event it sends.\<close>

definition ev_json :: "string \<Rightarrow> string \<Rightarrow> json \<Rightarrow> json" where
  "ev_json ns m d = JObj [(''v'', JNum 1), (''dir'', JStr ''ev''), (''ns'', JStr ns), (''m'', JStr m), (''d'', d)]"

definition node2 :: dev_peer where
  "node2 = \<lparr>dp_deviceId = ''node-2'', dp_name = ''tax-2'', dp_host = ''192.168.1.22'', dp_netmask = None,
     dp_via = Some ''lan'', dp_lastSeen = None\<rparr>"

fun fire :: "int \<Rightarrow> dev_timer \<Rightarrow> dev \<Rightarrow> json \<times> dev" where
  "fire now TScan s = (let t = s\<lparr>dv_peers := mset_key ''node-2'' node2 (dv_peers s)\<rparr>
     in (ev_json ''discovery'' ''peer_found'' (hd (peerList now t)), t))"
| "fire now (TEcho msg) s = (ev_json ''message'' ''chat'' msg, s)"

subsection \<open>The socket\<close>

definition latin1 :: "byte list \<Rightarrow> string" where
  "latin1 = map (\<lambda>b. char_of (unat b))"

definition bytes_of :: "string \<Rightarrow> byte list" where
  "bytes_of = map of_char"

definition crlf :: string where
  "crlf = [CHR 0x0D, CHR 0x0A]"

text \<open>The key of the handshake: of the last header of that name, the text after its first colon.\<close>

definition ws_key :: "string \<Rightarrow> string" where
  "ws_key head = foldl (\<lambda>key h. if starts_with ''sec-websocket-key:'' (lower h) then trim (split_on '':'' h ! 1) else key)
     [] (split_on crlf head)"

text \<open>\<open>acceptKey\<close>; \<open>digest\<close> is the base64 of the SHA-1 of its argument.\<close>

definition acceptKey :: "(string \<Rightarrow> string) \<Rightarrow> string \<Rightarrow> string" where
  "acceptKey digest k = digest (k @ ''258EAFA5-E914-47DA-95CA-C5AB0DC85B11'')"

definition upgrade :: "(string \<Rightarrow> string) \<Rightarrow> string \<Rightarrow> string" where
  "upgrade digest key = ''HTTP/1.1 101 Switching Protocols'' @ crlf @ ''Upgrade: websocket'' @ crlf @ ''Connection: Upgrade''
     @ crlf @ ''Sec-WebSocket-Accept: '' @ acceptKey digest key @ crlf @ crlf"

record conn =
  cn_open :: bool
  cn_buf :: "byte list"
  cn_out :: "byte list list"
  cn_ended :: bool

record codec =
  cd_parse :: "byte list \<Rightarrow> json option"
  cd_render :: "json \<Rightarrow> byte list"
  cd_digest :: "string \<Rightarrow> string"
  cd_now :: int
  cd_hexnow :: string

text \<open>One frame: a text that is JSON is answered, everything else is skipped.\<close>

definition handle_frame :: "codec \<Rightarrow> nat \<times> byte list \<Rightarrow> (conn \<times> dev) option \<Rightarrow> (conn \<times> dev) option" where
  "handle_frame cd f st =
     (case st of None \<Rightarrow> None
      | Some (c, s) \<Rightarrow>
          if fst f \<noteq> 1 then st
          else (case cd_parse cd (snd f) of None \<Rightarrow> st
                | Some j \<Rightarrow>
                    (case handleReq (cd_now cd) (cd_hexnow cd) j s of None \<Rightarrow> None
                     | Some (r, t) \<Rightarrow> Some (c\<lparr>cn_out := cn_out c @ [encodeText (cd_render cd r)]\<rparr>, t))))"

definition open_conn :: "codec \<Rightarrow> conn \<Rightarrow> conn" where
  "open_conn cd c =
     (if cn_open c then c
      else case find_sub (crlf @ crlf) (latin1 (cn_buf c)) of
             None \<Rightarrow> c
           | Some i \<Rightarrow> c\<lparr>cn_open := True, cn_buf := drop (i + 4) (cn_buf c),
                 cn_out := cn_out c @ [bytes_of (upgrade (cd_digest cd) (ws_key (take i (latin1 (cn_buf c)))))]\<rparr>)"

definition on_data :: "codec \<Rightarrow> byte list \<Rightarrow> (conn \<times> dev) option \<Rightarrow> (conn \<times> dev) option" where
  "on_data cd chunk st =
     (case st of None \<Rightarrow> None
      | Some (c, s) \<Rightarrow>
          (let c1 = open_conn cd (c\<lparr>cn_buf := cn_buf c @ chunk\<rparr>)
           in if \<not> cn_open c1 then Some (c1, s)
              else (let (fs, left, stop) = drain (cn_buf c1)
                    in fold (handle_frame cd) fs (Some (c1\<lparr>cn_buf := left, cn_ended := cn_ended c1 \<or> stop\<rparr>, s)))))"

subsection \<open>The byte stream refines the requests\<close>

text \<open>The requests answered one after the other; None when one of them ends the process.\<close>

fun answers :: "codec \<Rightarrow> json list \<Rightarrow> dev \<Rightarrow> (json list \<times> dev) option" where
  "answers cd [] s = Some ([], s)"
| "answers cd (j # js) s =
     (case handleReq (cd_now cd) (cd_hexnow cd) j s of None \<Rightarrow> None
      | Some (r, t) \<Rightarrow> map_option (\<lambda>(rs, u). (r # rs, u)) (answers cd js t))"

definition requests :: "codec \<Rightarrow> (nat \<times> byte list) list \<Rightarrow> json list" where
  "requests cd fs = List.map_filter (\<lambda>f. if fst f = 1 then cd_parse cd (snd f) else None) fs"

definition write_replies :: "codec \<Rightarrow> conn \<Rightarrow> json list \<Rightarrow> conn" where
  "write_replies cd c rs = c\<lparr>cn_out := cn_out c @ map (\<lambda>r. encodeText (cd_render cd r)) rs\<rparr>"

lemma handle_simps [simp]:
  "handle_frame cd f None = None"
  "fst f \<noteq> 1 \<Longrightarrow> handle_frame cd f st = st"
  "cd_parse cd (snd f) = None \<Longrightarrow> handle_frame cd f st = st"
  "fst f = 1 \<Longrightarrow> cd_parse cd (snd f) = Some j \<Longrightarrow> handle_frame cd f (Some (c, s)) =
     map_option (\<lambda>(r, t). (c\<lparr>cn_out := cn_out c @ [encodeText (cd_render cd r)]\<rparr>, t)) (handleReq (cd_now cd) (cd_hexnow cd) j s)"
  by (auto simp: handle_frame_def split: option.split)

lemma handle_None: "fold (handle_frame cd) fs None = None"
  by (induction fs) simp_all

lemma data_None [simp]: "on_data cd x None = None"
  by (simp add: on_data_def)

lemma handle_frames:
  "fold (handle_frame cd) fs (Some (c, s)) = map_option (\<lambda>(rs, t). (write_replies cd c rs, t)) (answers cd (requests cd fs) s)"
proof (induction fs arbitrary: c s)
  case (Cons f fs)
  show ?case
  proof (cases "if fst f = 1 then cd_parse cd (snd f) else None")
    case None
    then show ?thesis using Cons by (auto simp: requests_def map_filter_simps split: if_splits)
  next
    case (Some j)
    then have f: "fst f = 1" "cd_parse cd (snd f) = Some j" by (auto split: if_splits)
    show ?thesis
    proof (cases "handleReq (cd_now cd) (cd_hexnow cd) j s")
      case None
      with f show ?thesis by (simp add: requests_def map_filter_simps handle_None)
    next
      case (Some p)
      obtain r t where p: "p = (r, t)" by fastforce
      have req: "requests cd (f # fs) = j # requests cd fs" using f by (simp add: requests_def map_filter_simps)
      have "fold (handle_frame cd) (f # fs) (Some (c, s))
          = fold (handle_frame cd) fs (Some (c\<lparr>cn_out := cn_out c @ [encodeText (cd_render cd r)]\<rparr>, t))"
        using f Some p by simp
      then show ?thesis
        using Cons Some p by (auto simp: req write_replies_def option.map_comp o_def split_def)
    qed
  qed
qed (simp add: requests_def map_filter_simps write_replies_def)

lemma answers_append:
  "answers cd (xs @ ys) s = (case answers cd xs s of None \<Rightarrow> None
     | Some (rs, t) \<Rightarrow> map_option (\<lambda>(qs, u). (rs @ qs, u)) (answers cd ys t))"
  by (induction xs arbitrary: s) (auto simp: option.map_comp o_def split_def option.map_ident split: option.split)

lemma requests_append: "requests cd (xs @ ys) = requests cd xs @ requests cd ys"
  by (simp add: requests_def List.map_filter_def)

lemma data_frames:
  assumes u: "unframe next_frame is_close (length (concat chunks)) (concat chunks) = (fs, left, False)" and c: "cn_open c" "cn_buf c = []"
  shows "fold (on_data cd) chunks (Some (c, s))
    = map_option (\<lambda>(rs, t). (write_replies cd (c\<lparr>cn_buf := left\<rparr>) rs, t)) (answers cd (requests cd fs) s)"
  using u
proof (induction chunks arbitrary: fs left rule: rev_induct)
  case Nil
  then show ?case using c by (simp add: requests_def map_filter_simps write_replies_def)
next
  case (snoc x cs)
  obtain fs' left' stop' where u: "unframe next_frame is_close (length (concat cs)) (concat cs) = (fs', left', stop')"
    by (metis surj_pair)
  note app = client.unframe_append[OF u, of x]
  have ns: "\<not> stop'" using app snoc.prems by auto
  obtain gs where g: "unframe next_frame is_close (length (left' @ x)) (left' @ x) = (gs, left, False)" "fs = fs' @ gs"
    using app snoc.prems ns by (auto split: prod.splits)
  have IH: "fold (on_data cd) cs (Some (c, s))
    = map_option (\<lambda>(rs, t). (write_replies cd (c\<lparr>cn_buf := left'\<rparr>) rs, t)) (answers cd (requests cd fs') s)"
    using snoc.IH u ns by simp
  show ?case
  proof (cases "answers cd (requests cd fs') s")
    case None
    then show ?thesis using IH g by (simp add: requests_append answers_append)
  next
    case (Some p)
    obtain rs t where p: "p = (rs, t)" by fastforce
    have swap: "c\<lparr>cn_out := w, cn_buf := l\<rparr> = c\<lparr>cn_buf := l, cn_out := w\<rparr>" for w l by simp
    have "fold (on_data cd) (cs @ [x]) (Some (c, s))
        = fold (handle_frame cd) gs (Some (write_replies cd (c\<lparr>cn_buf := left\<rparr>) rs, t))"
      using IH Some p c g by (simp add: on_data_def open_conn_def write_replies_def drain_def Let_def swap)
    then show ?thesis
      using Some p g by (auto simp: handle_frames requests_append answers_append write_replies_def option.map_comp o_def split_def)
  qed
qed


definition hello :: json where
  "hello = JObj [(''ns'', JStr ''identity''), (''m'', JStr ''hello'')]"

definition echo_codec :: codec where
  "echo_codec = \<lparr>cd_parse = (\<lambda>b. if b = hi then Some hello else None), cd_render = (\<lambda>_. hi), cd_digest = (\<lambda>k. k),
     cd_now = 0, cd_hexnow = []\<rparr>"

definition fresh_conn :: conn where
  "fresh_conn = \<lparr>cn_open = True, cn_buf = [], cn_out = [], cn_ended = False\<rparr>"


subsection \<open>Requests that end the process\<close>

definition dev_inv :: "dev \<Rightarrow> bool" where
  "dev_inv s \<longleftrightarrow> (\<forall>k. mhas (dv_rooms s) k \<longrightarrow> take 5 k = ''room-'')"

lemma replyObj_rooms: "replyObj ns m d u = (r, t) \<Longrightarrow> dv_rooms t = dv_rooms u"
  by (auto simp: replyObj_def Let_def)

lemma room_atD: "room_at k s = ROwn r \<Longrightarrow> mhas (dv_rooms s) k"
  by (auto simp: room_at_def mhas_get split: option.splits if_splits)

lemma dev_inv_req:
  assumes i: "dev_inv s" and h: "handleReq now hexnow p s = Some (r, t)"
  shows "dev_inv t"
proof -
  have old: "take 5 k = ''room-''" if "mhas (dv_rooms s) k" for k using i that by (simp add: dev_inv_def)
  show ?thesis
    using h unfolding handleReq_def Let_def
    by (auto simp: dev_inv_def split: if_splits room_slot.splits dest!: replyObj_rooms intro: old old[OF room_atD])
qed

definition join_req :: "string \<Rightarrow> json" where
  "join_req rid = JObj [(''ns'', JStr ''room''), (''m'', JStr ''join''), (''d'', JObj [(''roomId'', JStr rid)])]"

lemma inherited_no_room: "k \<in> set inherited \<Longrightarrow> take 5 k \<noteq> ''room-''"
  by (auto simp: inherited_def)

lemma join_dies: "dev_inv s \<Longrightarrow> k \<in> set inherited \<Longrightarrow> handleReq now hexnow (join_req k) s = None"
proof -
  assume i: "dev_inv s" and k: "k \<in> set inherited"
  have ne: "k \<noteq> []" using k by (auto simp: inherited_def)
  have "room_at k s = RInherited"
    using i k inherited_no_room by (auto simp: room_at_def dev_inv_def mhas_get split: option.split)
  then show ?thesis
    using ne by (simp add: handleReq_def join_req_def throws_opt_def js_str_opt_def js_or_def js_truthy_def Let_def)
qed

lemma null_dies: "handleReq now hexnow JNull s = None"
  by (simp add: handleReq_def)

text \<open>The development daemon does not survive every JSON text: the request \<open>null\<close>, and joining a room whose
  name is an inherited property of objects such as \<open>constructor\<close>, throw inside the socket handler and end
  the process, whatever the client asked for before.\<close>

theorem request_ends_daemon:
  assumes "dev_inv s" and "j = JNull \<or> (\<exists>k \<in> set inherited. j = join_req k)" and "j \<in> set (requests cd fs)"
    and "drain (concat chunks) = (fs, left, False)" "cn_open c" "cn_buf c = []"
  shows "fold (on_data cd) chunks (Some (c, s)) = None"
proof -
  have "answers cd js s = None" if "j \<in> set js" for js
    using that assms(1)
  proof (induction js arbitrary: s)
    case (Cons x js)
    show ?case
    proof (cases "handleReq (cd_now cd) (cd_hexnow cd) x s")
      case (Some p)
      obtain r t where p: "p = (r, t)" by fastforce
      have "x \<noteq> j" using Some assms(2) Cons.prems(2) by (auto simp: join_dies null_dies)
      then show ?thesis using Cons dev_inv_req[OF Cons.prems(2)] Some p by auto
    qed simp
  qed simp
  then show ?thesis
    using data_frames[of chunks fs left c cd s] assms(3-6) by (simp add: drain_def)
qed

theorem request_ends_daemon_witness:
  "fold (on_data (echo_codec\<lparr>cd_parse := (\<lambda>_. Some (join_req ''constructor''))\<rparr>)) [[0x81, 1, 33]] (Some (fresh_conn, dev_init)) = None"
proof -
  have "drain [0x81, 1, 33] = ([(1, [33])], [], False)" by code_simp
  then show ?thesis
    using request_ends_daemon[of dev_init "join_req ''constructor''" "echo_codec\<lparr>cd_parse := (\<lambda>_. Some (join_req ''constructor''))\<rparr>"
        "[(1, [33])]" "[[0x81, 1, 33]]" "[]" fresh_conn]
    by (simp add: dev_inv_def dev_init_def inherited_def requests_def map_filter_simps fresh_conn_def)
qed

subsection \<open>Replies the client cannot use\<close>

lemma reply_txn: "handleReq now hexnow p s = Some (r, t) \<Longrightarrow> jfield ''txn'' r = Some (JStr (dev_txn (Suc (dv_seq s))))"
  by (auto simp: handleReq_def replyObj_def Let_def split: if_splits room_slot.splits)

text \<open>No reply of the development daemon reaches the request it answers: it carries a transaction of its own
  numbering, which is never pending in the client, so the client drops the reply and the request ends by
  its time-out.\<close>

theorem dev_replies_dropped:
  assumes "handleReq now hexnow p d = Some (r, d')" "ev_dir env = Res" "map_option JStr (ev_txn env) = jfield ''txn'' r"
  shows "let s = run_events rpc_step es (rpc_init ua stored) in on_message (Some env) s = s"
proof -
  define s where "s = run_events rpc_step es (rpc_init ua stored)"
  have inv: "rpc_inv s" unfolding s_def by (rule rpc_sys.inv_reachable) (rule rpc_start_init)
  have txn: "ev_txn env = Some (dev_txn (Suc (dv_seq d)))"
    using assms(3) by (cases "ev_txn env") (simp_all add: reply_txn[OF assms(1)])
  have "mget (rp_pending s) (dev_txn (Suc (dv_seq d))) = None"
  proof (rule ccontr)
    assume "mget (rp_pending s) (dev_txn (Suc (dv_seq d))) \<noteq> None"
    then obtain q where "dev_txn (Suc (dv_seq d)) = txn_of q" using inv unfolding rpc_inv_def by auto
    then show False by (simp add: dev_txn_def txn_of_def)
  qed
  then show ?thesis unfolding Let_def s_def[symmetric] using assms(2) txn by (simp add: on_message_def)
qed

definition dev_reply :: envelope where
  "dev_reply = \<lparr>ev_v = 1, ev_txn = Some (dev_txn 1), ev_dir = Res, ev_ns = ''identity'', ev_m = ''hello'', ev_ok = Some True,
     ev_err = None, ev_d = None\<rparr>"

theorem dev_replies_dropped_witness:
  "on_message (Some dev_reply) (run_events rpc_step [ERequest ''roster'' ''list'' None] (rpc_init [] None))
     = run_events rpc_step [ERequest ''roster'' ''list'' None] (rpc_init [] None)"
proof -
  obtain r d' where r: "handleReq 0 [] hello dev_init = Some (r, d')"
    by (simp add: hello_def handleReq_def throws_opt_def js_str_opt_def Let_def) (metis surj_pair)
  have "jfield ''txn'' r = Some (JStr (dev_txn 1))"
    using reply_txn[OF r] by (simp add: dev_init_def)
  then show ?thesis
    using dev_replies_dropped[OF r, of dev_reply "[ERequest ''roster'' ''list'' None]" "[]" None] by (simp add: dev_reply_def Let_def)
qed

end
