(* ===== verification/Static_Server.thy ===== *)
theory Static_Server
  imports Js_Text File_Cards
begin

text \<open>
  The static file server (\<open>scripts/serve_webui.mjs\<close>, and the same handler at the end of
  \<open>dev/daemon/daemon.mjs\<close>): decoding of the path, \<open>join\<close> and \<open>normalize\<close> of \<open>node:path\<close> for absolute POSIX
  paths, the prefix test that is meant to keep requests inside the build directory, the answers. The
  file system is a parameter.
\<close>

subsection \<open>Percent decoding\<close>

definition hex_value :: "char \<Rightarrow> nat option" where
  "hex_value c =
     (let n = (of_char c :: nat)
      in if 48 \<le> n \<and> n \<le> 57 then Some (n - 48)
         else if 65 \<le> n \<and> n \<le> 70 then Some (n - 55)
         else if 97 \<le> n \<and> n \<le> 102 then Some (n - 87) else None)"

fun unescape :: "string \<Rightarrow> string option" where
  "unescape [] = Some []"
| "unescape (c # cs) =
     (if c = CHR ''%''
      then (case cs of
              h # l # rest \<Rightarrow>
                (case (hex_value h, hex_value l) of
                   (Some x, Some y) \<Rightarrow> map_option (\<lambda>t. char_of (16 * x + y) # t) (unescape rest)
                 | _ \<Rightarrow> None)
            | _ \<Rightarrow> None)
      else map_option (\<lambda>t. c # t) (unescape cs))"

definition cont :: "char \<Rightarrow> bool" where
  "cont c \<longleftrightarrow> (of_char c :: nat) div 64 = 2"

text \<open>Well-formed UTF-8, without overlong forms and surrogates.\<close>

fun utf8_ok :: "string \<Rightarrow> bool" where
  "utf8_ok [] = True"
| "utf8_ok (a # t) =
     (let n = (of_char a :: nat)
      in if n < 128 then utf8_ok t
         else if 194 \<le> n \<and> n \<le> 223 then (case t of b # t \<Rightarrow> cont b \<and> utf8_ok t | _ \<Rightarrow> False)
         else if 224 \<le> n \<and> n \<le> 239
         then (case t of b # c # t \<Rightarrow> cont b \<and> cont c \<and> (n = 224 \<longrightarrow> 160 \<le> (of_char b :: nat))
                 \<and> (n = 237 \<longrightarrow> (of_char b :: nat) < 160) \<and> utf8_ok t | _ \<Rightarrow> False)
         else if 240 \<le> n \<and> n \<le> 244
         then (case t of b # c # d # t \<Rightarrow> cont b \<and> cont c \<and> cont d \<and> (n = 240 \<longrightarrow> 144 \<le> (of_char b :: nat))
                 \<and> (n = 244 \<longrightarrow> (of_char b :: nat) < 144) \<and> utf8_ok t | _ \<Rightarrow> False)
         else False)"

definition decodeURIComponent :: "string \<Rightarrow> string option" where
  "decodeURIComponent s = (case unescape s of None \<Rightarrow> None | Some t \<Rightarrow> if utf8_ok t then Some t else None)"

subsection \<open>Paths\<close>

definition path_of :: "string list \<Rightarrow> string" where
  "path_of segs = concat (map (\<lambda>s. CHR ''/'' # s) segs)"

text \<open>The segments of an absolute path, the last one first.\<close>

fun resolve :: "string list \<Rightarrow> string list \<Rightarrow> string list" where
  "resolve up [] = rev up"
| "resolve up (s # ss) =
     (if s = [] \<or> s = ''.'' then resolve up ss
      else if s = ''..'' then resolve (tl up) ss
      else resolve (s # up) ss)"

definition normalize :: "string \<Rightarrow> string" where
  "normalize p =
     (let segs = resolve [] (split_on ''/'' p)
      in if segs = [] then ''/''
         else path_of segs @ (if last p = CHR ''/'' then ''/'' else []))"

definition join :: "string \<Rightarrow> string \<Rightarrow> string" where
  "join a b = normalize (if b = [] then a else a @ ''/'' @ b)"

text \<open>\<open>extname\<close>: from the last dot of the last segment, unless the segment starts with it.\<close>

definition extname :: "string \<Rightarrow> string" where
  "extname p =
     (let b = last ([] # filter (\<lambda>s. s \<noteq> []) (split_on ''/'' p)); parts = split_on ''.'' b
      in if length parts < 2 \<or> (length parts = 2 \<and> hd parts = []) then [] else CHR ''.'' # last parts)"

definition MIME :: "(string \<times> string) list" where
  "MIME = [(''.html'', ''text/html; charset=utf-8''), (''.js'', ''text/javascript; charset=utf-8''),
     (''.css'', ''text/css; charset=utf-8''), (''.svg'', ''image/svg+xml''), (''.png'', ''image/png''),
     (''.json'', ''application/json'')]"

subsection \<open>The handler\<close>

datatype fs_node = FDir | FUnreadable | FFile "byte list"

datatype response = Status nat | Content string "byte list" | Unhandled

text \<open>\<open>Unhandled\<close>: reading fails after the header was written; the second \<open>writeHead\<close> throws inside the handler's
  own \<open>catch\<close>, and the rejected promise ends the process.\<close>

definition serve :: "string \<Rightarrow> (string \<Rightarrow> fs_node option) \<Rightarrow> string \<Rightarrow> response" where
  "serve uiDist fs url =
     (case decodeURIComponent (hd (split_on ''?'' (if url = [] then ''/'' else url))) of
        None \<Rightarrow> Status 404
      | Some p0 \<Rightarrow>
          (let p = (if p0 = ''/'' then ''/index.html'' else p0);
               file = normalize (join uiDist p)
           in if \<not> starts_with (normalize uiDist) file then Status 403
              else case fs file of
                     None \<Rightarrow> Status 404
                   | Some FDir \<Rightarrow> Unhandled
                   | Some FUnreadable \<Rightarrow> Unhandled
                   | Some (FFile b) \<Rightarrow>
                       Content (case map_of MIME (extname file) of None \<Rightarrow> ''application/octet-stream'' | Some t \<Rightarrow> t) b))"

text \<open>The development daemon serves its build directory with the same handler (\<open>uiSrv\<close> of \<open>dev/daemon/daemon.mjs\<close>).\<close>

definition uiSrv :: "string \<Rightarrow> (string \<Rightarrow> fs_node option) \<Rightarrow> string \<Rightarrow> response" where
  "uiSrv uiDist fs url = serve uiDist fs url"

subsection \<open>Canonical paths\<close>

definition seg_ok :: "string \<Rightarrow> bool" where
  "seg_ok s \<longleftrightarrow> s \<noteq> [] \<and> s \<noteq> ''.'' \<and> s \<noteq> ''..'' \<and> CHR ''/'' \<notin> set s"

lemma path_of_simps [simp]: "path_of [] = []" "path_of (s # ss) = CHR ''/'' # s @ path_of ss" "path_of (xs @ ys) = path_of xs @ path_of ys"
  by (simp_all add: path_of_def)

lemma split_segs:
  assumes "CHR ''/'' \<notin> set s" "\<forall>t \<in> set ss. CHR ''/'' \<notin> set t"
  shows "split_on ''/'' (s @ path_of ss) = s # ss"
    and "split_on ''/'' (s @ path_of ss @ CHR ''/'' # p) = s # ss @ split_on ''/'' p"
  using assms by (induction ss arbitrary: s) (simp_all add: split_none split_cons)

lemma split_path:
  assumes "\<forall>t \<in> set ss. seg_ok t"
  shows "split_on ''/'' (path_of ss) = [] # ss" and "split_on ''/'' (path_of ss @ CHR ''/'' # p) = [] # ss @ split_on ''/'' p"
  using split_segs[of "[]" ss] assms by (simp_all add: seg_ok_def)

lemma resolve_segs: "\<forall>t \<in> set ss. seg_ok t \<Longrightarrow> resolve up (ss @ qs) = resolve (rev ss @ up) qs"
  by (induction ss arbitrary: up) (simp_all add: seg_ok_def)

lemma split_pieces: "t \<in> set (split_on [c] s) \<Longrightarrow> c \<notin> set t"
proof (induction "length s" arbitrary: s rule: less_induct)
  case less
  show ?case
  proof (cases "c \<in> set s")
    case True
    then obtain a b where s: "s = a @ c # b" "c \<notin> set a" by (metis split_list_first)
    show ?thesis using less.hyps[of b] less.prems s by (auto simp: split_cons)
  qed (use less in \<open>auto simp: split_none\<close>)
qed

lemma resolve_ok:
  "\<forall>t \<in> set up. seg_ok t \<Longrightarrow> \<forall>t \<in> set ss. CHR ''/'' \<notin> set t \<Longrightarrow> t \<in> set (resolve up ss) \<Longrightarrow> seg_ok t"
proof (induction ss arbitrary: up)
  case (Cons s ss)
  have tl: "\<forall>t \<in> set (tl up). seg_ok t" using Cons.prems(1) by (cases up) auto
  have rest: "\<forall>t \<in> set ss. CHR ''/'' \<notin> set t" using Cons.prems(2) by simp
  consider "s = [] \<or> s = ''.''" | "s = ''..''" | "seg_ok s" using Cons.prems(2) by (auto simp: seg_ok_def)
  then show ?case
  proof cases
    case 1
    then show ?thesis using Cons.IH[OF Cons.prems(1) rest] Cons.prems(3) by auto
  next
    case 2
    then show ?thesis using Cons.IH[OF tl rest] Cons.prems(3) by simp
  next
    case 3
    then have "\<forall>t \<in> set (s # up). seg_ok t" using Cons.prems(1) by simp
    moreover have "t \<in> set (resolve (s # up) ss)" using 3 Cons.prems(3) by (simp add: seg_ok_def)
    ultimately show ?thesis using Cons.IH rest by blast
  qed
qed simp

lemma last_path: "ss \<noteq> [] \<Longrightarrow> \<forall>t \<in> set ss. seg_ok t \<Longrightarrow> last (path_of ss) \<noteq> CHR ''/'' \<and> path_of ss \<noteq> []"
proof (induction ss rule: rev_induct)
  case (snoc x xs)
  then have x: "x \<noteq> []" "CHR ''/'' \<notin> set x" by (simp_all add: seg_ok_def)
  then have "last x \<noteq> CHR ''/''" using last_in_set by fastforce
  with x show ?case by simp
qed simp

lemma normalize_path:
  assumes "ss \<noteq> []" "\<forall>t \<in> set ss. seg_ok t"
  shows "normalize (path_of ss) = path_of ss" "normalize (path_of ss @ ''/'') = path_of ss @ ''/''"
proof -
  have "split_on ''/'' (path_of ss @ ''/'') = [] # ss @ [[]]"
    using split_path(2)[OF assms(2), of "[]"] by (simp add: split_none)
  then show "normalize (path_of ss @ ''/'') = path_of ss @ ''/''"
    using assms resolve_segs[OF assms(2), of "[]" "[[]]"] by (simp add: normalize_def Let_def)
  show "normalize (path_of ss) = path_of ss"
    using assms last_path[OF assms] resolve_segs[OF assms(2), of "[]" "[]"] by (simp add: normalize_def Let_def split_path)
qed

text \<open>The file a request names: the segments of the path, taken from the root directory.\<close>

lemma request_file:
  assumes home: "home \<noteq> []" "\<forall>t \<in> set home. seg_ok t"
  defines "segs p \<equiv> resolve (rev home) (if p = [] then [] else split_on ''/'' p)"
  shows "\<exists>slash. set slash \<subseteq> {CHR ''/''} \<and> normalize (join (path_of home) p) = path_of (segs p) @ slash"
    and "t \<in> set (segs p) \<Longrightarrow> seg_ok t"
proof -
  have ok: "seg_ok t" if "t \<in> set (segs p)" for t
    using that resolve_ok[of "rev home" _ t] home(2) split_pieces[of _ "CHR ''/''" p]
    by (auto simp: segs_def split: if_splits)
  then show "t \<in> set (segs p) \<Longrightarrow> seg_ok t" .
  have one: "\<exists>slash. set slash \<subseteq> {CHR ''/''} \<and> normalize (normalize q) = path_of ss @ slash"
    if "resolve [] (split_on ''/'' q) = ss" "\<forall>t \<in> set ss. seg_ok t" for q ss
  proof (cases "ss = []")
    case True
    then have "normalize q = ''/''" using that by (simp add: normalize_def)
    moreover have "normalize ''/'' = ''/''" by (simp add: normalize_def split_cons[of _ "[]" "[]", simplified] split_none)
    ultimately show ?thesis using True by (intro exI[of _ "''/''"]) simp
  next
    case False
    then have "normalize q = path_of ss \<or> normalize q = path_of ss @ ''/''"
      using that by (auto simp: normalize_def)
    then show ?thesis using normalize_path[OF False that(2)]
      by (metis append_Nil2 empty_subsetI list.set(1) list.simps(15) order_refl)
  qed
  show "\<exists>slash. set slash \<subseteq> {CHR ''/''} \<and> normalize (join (path_of home) p) = path_of (segs p) @ slash"
  proof (cases "p = []")
    case True
    have "resolve [] (split_on ''/'' (path_of home)) = segs p"
      using True resolve_segs[OF home(2), of "[]" "[]"] by (simp add: segs_def split_path home(2))
    then show ?thesis using one[of "path_of home" "segs p"] ok True by (simp add: join_def)
  next
    case False
    have "resolve [] (split_on ''/'' (path_of home @ ''/'' @ p)) = segs p"
      using False resolve_segs[OF home(2), of "[]" "split_on ''/'' p"] by (simp add: segs_def split_path home(2))
    then show ?thesis using one[of "path_of home @ ''/'' @ p" "segs p"] ok False by (simp add: join_def)
  qed
qed

subsection \<open>What the prefix test lets through\<close>

lemma starts_with_eq: "starts_with p s \<longleftrightarrow> (\<exists>r. s = p @ r)"
  by (induction p s rule: starts_with.induct) auto

lemma first_seg: "CHR ''/'' \<notin> set b \<Longrightarrow> x = [] \<or> hd x = CHR ''/'' \<Longrightarrow> takeWhile (\<lambda>c. c \<noteq> CHR ''/'') (b @ x) = b"
  by (induction b) (auto simp: takeWhile_eq_Nil_iff)

lemma path_prefix:
  assumes "starts_with (path_of (up @ [l])) (path_of segs @ slash)" "set slash \<subseteq> {CHR ''/''}"
    and "\<forall>t \<in> set (up @ [l]). seg_ok t" "\<forall>t \<in> set segs. seg_ok t"
  shows "\<exists>ext rest. segs = up @ (l @ ext) # rest"
  using assms
proof (induction up arbitrary: segs)
  case Nil
  obtain r where r: "path_of segs @ slash = CHR ''/'' # l @ r" using Nil.prems(1) by (auto simp: starts_with_eq)
  have l: "l \<noteq> []" "CHR ''/'' \<notin> set l" using Nil.prems(3) by (simp_all add: seg_ok_def)
  show ?case
  proof (cases segs)
    case Nil
    with r have "set l \<subseteq> set slash" by (metis append_Nil path_of_simps(1) set_append set_subset_Cons subset_trans sup_ge1 Un_upper1)
    with Nil.prems(2) l show ?thesis by (cases l) auto
  next
    case (Cons b bs)
    have b: "CHR ''/'' \<notin> set b" using Nil.prems(4) Cons by (simp add: seg_ok_def)
    have x: "path_of bs @ slash = [] \<or> hd (path_of bs @ slash) = CHR ''/''"
      using Nil.prems(2) by (cases bs; cases slash) auto
    have "b = takeWhile (\<lambda>c. c \<noteq> CHR ''/'') (b @ path_of bs @ slash)" using first_seg[OF b x] by simp
    also have "b @ path_of bs @ slash = l @ r" using r Cons by simp
    also have "takeWhile (\<lambda>c. c \<noteq> CHR ''/'') (l @ r) = l @ takeWhile (\<lambda>c. c \<noteq> CHR ''/'') r"
      using l by (intro takeWhile_append2) auto
    finally show ?thesis using Cons by auto
  qed
next
  case (Cons a up)
  obtain r where r: "path_of segs @ slash = CHR ''/'' # a @ path_of (up @ [l]) @ r"
    using Cons.prems(1) by (auto simp: starts_with_eq)
  have a: "a \<noteq> []" "CHR ''/'' \<notin> set a" using Cons.prems(3) by (simp_all add: seg_ok_def)
  show ?case
  proof (cases segs)
    case Nil
    then show ?thesis using r a Cons.prems(2) by (cases a; cases slash) (auto simp: subset_iff)
  next
    case (Cons b bs)
    have b: "CHR ''/'' \<notin> set b" using Cons.prems(4) Cons by (simp add: seg_ok_def)
    have x: "path_of bs @ slash = [] \<or> hd (path_of bs @ slash) = CHR ''/''"
      using Cons.prems(2) by (cases bs; cases slash) auto
    have eq: "b @ path_of bs @ slash = a @ path_of (up @ [l]) @ r" using r Cons by simp
    have y: "path_of (up @ [l]) @ r = [] \<or> hd (path_of (up @ [l]) @ r) = CHR ''/''" by (cases up) simp_all
    have "b = a" using first_seg[OF b x] first_seg[OF a(2) y] eq by simp
    with eq have "starts_with (path_of (up @ [l])) (path_of bs @ slash)" by (auto simp: starts_with_eq)
    with Cons.IH[of bs] Cons.prems(2-4) Cons \<open>b = a\<close> show ?thesis by auto
  qed
qed


definition plain :: "string \<Rightarrow> bool" where
  "plain s \<longleftrightarrow> seg_ok s \<and> (\<forall>c \<in> set s. c \<noteq> CHR ''%'' \<and> c \<noteq> CHR ''?'' \<and> (of_char c :: nat) < 128)"

lemma utf8_ascii: "\<forall>c \<in> set s. (of_char c :: nat) < 128 \<Longrightarrow> utf8_ok s"
  by (induction s) simp_all

lemma decode_plain:
  assumes "\<forall>c \<in> set s. c \<noteq> CHR ''%'' \<and> (of_char c :: nat) < 128"
  shows "decodeURIComponent s = Some s"
proof -
  have "unescape s = Some s" using assms by (induction s) auto
  then show ?thesis using assms by (simp add: decodeURIComponent_def utf8_ascii)
qed

lemma serve_plain:
  assumes home: "home \<noteq> []" "\<forall>t \<in> set home. seg_ok t"
    and url: "\<forall>c \<in> set url. c \<noteq> CHR ''%'' \<and> c \<noteq> CHR ''?'' \<and> (of_char c :: nat) < 128" "url \<noteq> []" "url \<noteq> ''/''"
    and segs: "resolve (rev home) (split_on ''/'' url) = segs" "segs \<noteq> []" "\<forall>t \<in> set segs. seg_ok t" "last url \<noteq> CHR ''/''"
  shows "serve (path_of home) fs url =
    (if \<not> starts_with (path_of home) (path_of segs) then Status 403
     else case fs (path_of segs) of None \<Rightarrow> Status 404 | Some FDir \<Rightarrow> Unhandled | Some FUnreadable \<Rightarrow> Unhandled
       | Some (FFile b) \<Rightarrow> Content (case map_of MIME (extname (path_of segs)) of None \<Rightarrow> ''application/octet-stream'' | Some t \<Rightarrow> t) b)"
proof -
  have "resolve [] (split_on ''/'' (path_of home @ ''/'' @ url)) = segs"
    using resolve_segs[OF home(2), of "[]" "split_on ''/'' url"] segs(1) by (simp add: split_path home(2))
  then have "join (path_of home) url = path_of segs"
    using url(2) segs by (simp add: join_def normalize_def)
  then have "normalize (join (path_of home) url) = path_of segs" using normalize_path(1)[OF segs(2,3)] by simp
  moreover have "split_on ''?'' url = [url]" using url(1) by (intro split_none) auto
  ultimately show ?thesis
    using url by (simp add: serve_def decode_plain normalize_path(1)[OF home] Let_def split: option.split fs_node.split)
qed

text \<open>The prefix test does not keep requests inside the build directory: a file in a sibling directory whose
  name extends it is served for a path that leaves through \<open>..\<close>; and a request for any directory inside,
  such as that of the assets, throws a second time in the handler and ends the server.\<close>

theorem static_server_leaks:
  assumes home: "home \<noteq> []" "\<forall>t \<in> set home. seg_ok t" and plain: "plain (last home @ ext)" "plain f" "plain d"
    and disk: "fs (path_of (butlast home @ [last home @ ext, f])) = Some (FFile b)" "fs (path_of (home @ [d])) = Some FDir"
  shows "(\<exists>t. serve (path_of home) fs (''/../'' @ (last home @ ext) @ ''/'' @ f) = Content t b)
    \<and> serve (path_of home) fs (''/'' @ d) = Unhandled"
proof
  let ?s = "last home @ ext" let ?url = "''/../'' @ (last home @ ext) @ ''/'' @ f"
  have sl: "CHR ''/'' \<notin> set ?s" "CHR ''/'' \<notin> set f" "CHR ''/'' \<notin> set d" "seg_ok ?s" "seg_ok f" "seg_ok d"
    using plain by (simp_all add: plain_def seg_ok_def)
  have "split_on ''/'' ?url = [[], ''..'', ?s, f]"
    using split_cons[of "CHR ''/''" "[]" "''../'' @ ?s @ ''/'' @ f"] split_cons[of "CHR ''/''" "''..''" "?s @ ''/'' @ f"]
      split_cons[of "CHR ''/''" ?s f] sl by (simp add: split_none)
  moreover have "tl (rev home) = rev (butlast home)" by (cases home rule: rev_cases) simp_all
  ultimately have r: "resolve (rev home) (split_on ''/'' ?url) = butlast home @ [?s, f]"
    using sl(4,5) by (simp add: seg_ok_def)
  have "path_of home = path_of (butlast home @ [last home])" using home(1) by simp
  then have pre: "starts_with (path_of home) (path_of (butlast home @ [?s, f]))" by (simp add: starts_with_eq)
  have ok: "\<forall>t \<in> set (butlast home @ [?s, f]). seg_ok t" using home(2) sl by (auto dest: in_set_butlastD)
  have last: "last ?url \<noteq> CHR ''/''" using sl(2,5) by (auto simp: seg_ok_def dest: last_in_set)
  have u: "\<forall>c \<in> set ?url. c \<noteq> CHR ''%'' \<and> c \<noteq> CHR ''?'' \<and> (of_char c :: nat) < 128" "?url \<noteq> []" "?url \<noteq> ''/''"
    using plain(1,2) unfolding plain_def by auto
  have ne: "butlast home @ [?s, f] \<noteq> []" by simp
  show "\<exists>t. serve (path_of home) fs ?url = Content t b"
    unfolding serve_plain[OF home u r ne ok last] using pre disk(1) by simp
  have "split_on ''/'' (''/'' @ d) = [[], d]"
    using split_cons[of "CHR ''/''" "[]" d] sl by (simp add: split_none)
  then have r2: "resolve (rev home) (split_on ''/'' (''/'' @ d)) = home @ [d]" using sl(6) by (simp add: seg_ok_def)
  have ok2: "\<forall>t \<in> set (home @ [d]). seg_ok t" using home(2) sl by simp
  have last2: "last (''/'' @ d) \<noteq> CHR ''/''" using sl(3,6) by (auto simp: seg_ok_def dest: last_in_set)
  have u2: "\<forall>c \<in> set (''/'' @ d). c \<noteq> CHR ''%'' \<and> c \<noteq> CHR ''?'' \<and> (of_char c :: nat) < 128" "''/'' @ d \<noteq> []" "''/'' @ d \<noteq> ''/''"
    using plain(3) unfolding plain_def seg_ok_def by auto
  have "home @ [d] \<noteq> []" "starts_with (path_of home) (path_of (home @ [d]))" by (simp_all add: starts_with_eq)
  then show "serve (path_of home) fs (''/'' @ d) = Unhandled"
    unfolding serve_plain[OF home u2 r2 \<open>home @ [d] \<noteq> []\<close> ok2 last2] using disk(2) by simp
qed

definition disk :: "string \<Rightarrow> fs_node option" where
  "disk p = (if p = ''/ui/webui-old/x.js'' then Some (FFile [1]) else if p = ''/ui/webui/assets'' then Some FDir else None)"


theorem static_server_leaks_witness:
  "serve ''/ui/webui'' disk ''/assets'' = Unhandled"
  using static_server_leaks[of "[''ui'', ''webui'']" "''-old''" "''x.js''" "''assets''" disk "[1]"]
  by (simp add: plain_def seg_ok_def disk_def)

end
