(* ===== verification/Probe_Client.thy ===== *)
theory Probe_Client
  imports Dev_Daemon
begin

text \<open>
  The hand-written WebSocket client of the probe script (\<open>scripts/btest.mjs\<close>): the upgrade it asks for, the
  masked frames it writes and its own parser. It is a second implementation of the framing of the
  development daemon, and the two are shown to agree on every buffer.
\<close>

subsection \<open>Frames\<close>

definition probe_mask :: "byte list" where
  "probe_mask = [1, 2, 3, 4]"

definition encode :: "byte list \<Rightarrow> byte list" where
  "encode p =
     (let n = length p;
          head = (if n < 126 then [0x81, 0x80 OR of_nat n]
                  else if n < 65536 then [0x81, 0x80 OR 126] @ be_bytes 2 n
                  else [0x81, 0x80 OR 127] @ be_bytes 8 n);
          body = map (\<lambda>i. p ! i XOR probe_mask ! (i AND 3)) [0..<length p]
      in head @ probe_mask @ body)"

record parsed =
  pf_opcode :: nat
  pf_payload :: "byte list"
  pf_used :: nat

text \<open>The length and the offset behind it; None when the bytes of an extended length are missing.\<close>

definition frame_length :: "byte list \<Rightarrow> (nat \<times> nat) option" where
  "frame_length buf =
     (let len = unat (buf ! 1 AND 0x7f)
      in if len = 126 then (if length buf < 2 + 2 then None else Some (be_value (take 2 (drop 2 buf)), 4))
         else if len = 127 then (if length buf < 2 + 8 then None else Some (be_value (take 8 (drop 2 buf)), 10))
         else Some (len, 2))"

definition frame_rest :: "byte list \<Rightarrow> nat \<Rightarrow> nat \<Rightarrow> parsed option" where
  "frame_rest buf len off =
     (let masked = (buf ! 1 AND 0x80 \<noteq> 0);
          key = take 4 (drop off buf);
          off' = (if masked then off + 4 else off);
          pl = take len (drop off' buf)
      in if length buf < off' + len then None
         else Some \<lparr>pf_opcode = unat (buf ! 0 AND 0x0f),
                    pf_payload = (if masked then map (\<lambda>i. pl ! i XOR key ! (i AND 3)) [0..<length pl] else pl),
                    pf_used = off' + len\<rparr>)"

definition parseFrame :: "byte list \<Rightarrow> parsed option" where
  "parseFrame buf =
     (if length buf < 2 then None
      else case frame_length buf of None \<Rightarrow> None | Some (len, off) \<Rightarrow> frame_rest buf len off)"

lemma and_3: "(i :: nat) AND 3 = i mod 4"
  using take_bit_eq_mask[of 2 i] take_bit_eq_mod[of 2 i] by (simp add: mask_eq_exp_minus_1)

lemma be_value_2: "be_value [a, b] = push_bit 8 (unat a) OR unat b"
proof -
  have "\<not> bit (push_bit 8 (unat a)) n \<or> \<not> bit (unat b) n" for n
    using bit_imp_le_length[of b n] by (auto simp: bit_push_bit_iff bit_unsigned_iff)
  then have "push_bit 8 (unat a) + unat b = push_bit 8 (unat a) OR unat b" by (intro disjunctive_add) blast
  then show ?thesis by (simp add: be_value_def push_bit_eq_mult)
qed

lemma take_2: "2 + 2 \<le> length buf \<Longrightarrow> take 2 (drop 2 buf) = [buf ! 2, buf ! 3]"
  by (rule nth_equalityI) (auto simp: less_Suc_eq numeral_eq_Suc)

definition as_frame :: "byte list \<Rightarrow> parsed \<Rightarrow> (nat \<times> byte list) \<times> byte list" where
  "as_frame buf f = ((pf_opcode f, pf_payload f), drop (pf_used f) buf)"

lemma rest_body: "map_option (as_frame buf) (frame_rest buf len off) = frame_body buf len off"
  by (auto simp: as_frame_def frame_rest_def frame_body_def Let_def xor_mask_def and_3)

lemma probe_parser: "map_option (as_frame buf) (parseFrame buf) = next_frame buf"
proof (cases "length buf < 2")
  case True
  then show ?thesis by (simp add: parseFrame_def next_frame_def)
next
  case False
  consider "unat (buf ! 1 AND 0x7f) = 126" | "unat (buf ! 1 AND 0x7f) = 127"
    | "unat (buf ! 1 AND 0x7f) \<noteq> 126" "unat (buf ! 1 AND 0x7f) \<noteq> 127" by blast
  then show ?thesis
    by cases (use False take_2[of buf] in
      \<open>simp_all add: parseFrame_def next_frame_def frame_length_def Let_def rest_body be_value_2\<close>)
qed

lemma encode_client: "encode p = client_frame probe_mask (1, p)"
proof -
  have two: "be_bytes 2 n = [of_nat (n div 256), of_nat n]" for n
    unfolding numeral_2_eq_2 by simp
  have "length p AND 255 = take_bit 8 (length p)" by (simp add: take_bit_eq_mask mask_eq_exp_minus_1)
  then have "(of_nat (length p AND 0xff) :: byte) = of_nat (length p)" by (simp add: word_of_nat_eq_iff)
  then have "be_bytes 2 (length p) = [of_nat (drop_bit 8 (length p)), of_nat (length p AND 0xff)]"
    unfolding two by (simp add: drop_bit_eq_div)
  then show ?thesis by (simp add: encode_def client_frame_def Let_def xor_mask_def and_3)
qed

text \<open>C35: the probe's parser and the daemon's receive loop take the same frame off every buffer, or both none, and
  the probe writes what a browser writes with the mask 1, 2, 3, 4.\<close>

theorem parsers_agree:
  "map_option (as_frame buf) (parseFrame buf) = next_frame buf \<and> encode p = client_frame probe_mask (1, p)"
  using probe_parser encode_client by blast

subsection \<open>The connection\<close>

text \<open>The texts handed to the handler are recorded; before the script sets a handler they are dropped.\<close>

datatype promise = Open | Done | Failed

record probe =
  pb_acc :: "byte list"
  pb_opened :: bool
  pb_promise :: promise
  pb_listening :: bool
  pb_got :: "byte list list"
  pb_ended :: bool

definition handshake_text :: "nat \<Rightarrow> string" where
  "handshake_text port = ''GET / HTTP/1.1'' @ crlf @ ''Host: 127.0.0.1:'' @ show_nat port @ crlf @ ''Upgrade: websocket'' @ crlf
     @ ''Connection: Upgrade'' @ crlf @ ''Sec-WebSocket-Key: dGhlIHNhbXBsZSBub25jZQ=='' @ crlf
     @ ''Sec-WebSocket-Version: 13'' @ crlf @ crlf"

definition probe_init :: probe where
  "probe_init = \<lparr>pb_acc = [], pb_opened = False, pb_promise = Open, pb_listening = False, pb_got = [], pb_ended = False\<rparr>"

definition ascii :: "byte list \<Rightarrow> string" where
  "ascii = map (\<lambda>b. char_of (unat b mod 128))"

definition on_frames :: "(nat \<times> byte list) list \<Rightarrow> probe \<Rightarrow> probe" where
  "on_frames fs p = (if pb_listening p then p\<lparr>pb_got := pb_got p @ map snd (filter (\<lambda>f. fst f = 1) fs)\<rparr> else p)"

definition probe_drain :: "probe \<Rightarrow> probe" where
  "probe_drain p =
     (let (fs, left, stop) = unframe (\<lambda>b. map_option (as_frame b) (parseFrame b)) is_close (length (pb_acc p)) (pb_acc p)
      in on_frames fs (p\<lparr>pb_acc := left, pb_ended := pb_ended p \<or> stop\<rparr>))"

definition probe_data :: "byte list \<Rightarrow> probe \<Rightarrow> probe" where
  "probe_data d p0 =
     (let p = p0\<lparr>pb_acc := pb_acc p0 @ d\<rparr>
      in if pb_opened p then probe_drain p
         else case find_sub (crlf @ crlf) (latin1 (pb_acc p)) of
                None \<Rightarrow> p
              | Some i \<Rightarrow>
                  (let q = p\<lparr>pb_acc := drop (i + 4) (pb_acc p), pb_opened := True\<rparr>
                   in if contains ''101'' (ascii (take i (pb_acc p))) then probe_drain (q\<lparr>pb_promise := Done\<rparr>)
                      else q\<lparr>pb_promise := Failed\<rparr>))"

definition onMessage :: "probe \<Rightarrow> probe" where
  "onMessage p = p\<lparr>pb_listening := True\<rparr>"

subsection \<open>Header lines\<close>

lemma find_sub_more: "find_sub pat a = Some i \<Longrightarrow> find_sub pat (a @ b) = Some i"
proof (induction a arbitrary: i)
  case Nil
  then show ?case by (cases b) (auto split: if_splits)
next
  case (Cons c a)
  have "length pat \<le> length (c # a)" using find_sub_bound[OF Cons.prems] by simp
  then have "take (length pat) (c # a @ b) = take (length pat) (c # a)"
    using take_append[of "length pat" "c # a" b] by simp
  then show ?case using Cons by (auto split: if_splits)
qed

lemma find_crlf_skip:
  "CHR 0x0D \<notin> set a \<Longrightarrow> find_sub (CHR 0x0D # q) (a @ t) = map_option (\<lambda>i. length a + i) (find_sub (CHR 0x0D # q) t)"
  by (cases "find_sub (CHR 0x0D # q) t"; induction a) auto

text \<open>A line holds no carriage return and is not empty.\<close>

definition line :: "string \<Rightarrow> bool" where
  "line a \<longleftrightarrow> a \<noteq> [] \<and> CHR 0x0D \<notin> set a"

definition lines :: "string list \<Rightarrow> string" where
  "lines ls = concat (map (\<lambda>a. a @ crlf) ls)"

lemma lines_Cons: "lines (a # ls) = a @ crlf @ lines ls"
  by (simp add: lines_def)

lemma find_end: "\<forall>a \<in> set ls. line a \<Longrightarrow> ls \<noteq> [] \<Longrightarrow> find_sub (crlf @ crlf) (lines ls @ crlf @ r) = Some (length (lines ls) - 2)"
proof (induction ls)
  case (Cons a ls)
  have a: "CHR 0x0D \<notin> set a" using Cons.prems by (simp add: line_def)
  show ?case
  proof (cases ls)
    case Nil
    then show ?thesis using find_crlf_skip[OF a] by (simp add: lines_def crlf_def)
  next
    case (Cons b bs)
    then obtain x xs where b: "b = x # xs" "x \<noteq> CHR 0x0D" using Cons.prems by (cases b) (auto simp: line_def)
    define t where "t = lines ls @ crlf @ r"
    obtain u where t: "t = x # u" using b Cons by (simp add: t_def lines_def)
    have "find_sub (crlf @ crlf) (crlf @ t) = map_option ((+) 2) (find_sub (crlf @ crlf) t)"
      using b(2) by (simp add: t crlf_def option.map_comp o_def)
    moreover have "find_sub (crlf @ crlf) t = Some (length (lines ls) - 2)" using Cons.IH Cons.prems Cons by (simp add: t_def)
    moreover have "2 \<le> length (lines ls)" using Cons by (simp add: lines_def crlf_def)
    ultimately show ?thesis
      using find_crlf_skip[OF a, of "[CHR 0x0A, CHR 0x0D, CHR 0x0A]" "crlf @ t"] by (simp add: t_def lines_def crlf_def)
  qed
qed simp

lemma split_line: "CHR 0x0D \<notin> set a \<Longrightarrow> split_on crlf (a @ crlf @ t) = a # split_on crlf t"
  using find_crlf_skip[of a "[CHR 0x0A]" "crlf @ t"] by (subst split_on.simps) (simp add: crlf_def)

lemma split_last: "CHR 0x0D \<notin> set a \<Longrightarrow> split_on crlf a = [a]"
  using find_crlf_skip[of a "[CHR 0x0A]" "[]"] by (subst split_on.simps) (simp add: crlf_def)

lemma split_lines: "\<forall>a \<in> set ls. line a \<Longrightarrow> ls \<noteq> [] \<Longrightarrow> split_on crlf (take (length (lines ls) - 2) (lines ls @ t)) = ls"
proof (induction ls)
  case (Cons a ls)
  have a: "CHR 0x0D \<notin> set a" using Cons.prems by (simp add: line_def)
  show ?case
  proof (cases ls)
    case Nil
    then show ?thesis using split_last[OF a] by (simp add: lines_def crlf_def)
  next
    case (Cons b bs)
    then obtain k where k: "length (lines ls) = Suc (Suc k)" by (cases "length (lines ls)") (auto simp: lines_def crlf_def)
    have "take (length (lines (a # ls)) - 2) (lines (a # ls) @ t) = a @ crlf @ take (length (lines ls) - 2) (lines ls @ t)"
      by (simp add: lines_Cons k crlf_def)
    then show ?thesis using split_line[OF a] Cons.IH Cons.prems Cons by simp
  qed
qed simp

lemma show_nat_line: "line (show_nat n)"
proof (induction n rule: show_nat.induct)
  case (1 n)
  have d: "CHR 0x0D \<noteq> digit_char k" for k
  proof
    assume "CHR 0x0D = digit_char k"
    then have "digit_char k = CHR 0x0D" ..
    then have "(of_char (digit_char k) :: nat) = of_char (CHR 0x0D)" by (rule arg_cong)
    moreover have "k mod 10 < 10" by simp
    then have "(48 + k mod 10) mod 256 = 48 + k mod 10" by simp
    ultimately show False by simp
  qed
  show ?case
  proof (cases "n < 10")
    case True
    then have "show_nat n = [digit_char n]" by (subst show_nat.simps) simp
    then show ?thesis using d[of n] by (simp add: line_def del: digit_char.simps)
  next
    case False
    then have "show_nat n = show_nat (n div 10) @ [digit_char (n mod 10)]" by (subst show_nat.simps) simp
    then show ?thesis using 1[OF False] d[of "n mod 10"] by (simp add: line_def del: digit_char.simps)
  qed
qed

lemma unat_of_char: "unat (of_char c :: byte) = of_char c"
proof -
  have "(of_char c :: byte) = of_nat (of_char c)" by (rule of_nat_of_char[symmetric])
  moreover have "take_bit 8 (of_char c :: nat) = of_char c" by (simp add: take_bit_eq_mod)
  ultimately show ?thesis by (simp add: unsigned_of_nat)
qed

lemma latin1_bytes [simp]: "latin1 (bytes_of s) = s"
  by (simp add: latin1_def bytes_of_def unat_of_char map_idI)

subsection \<open>A whole session\<close>

lemma latin1_append [simp]: "latin1 (a @ b) = latin1 a @ latin1 b"
  by (simp add: latin1_def)

lemma latin1_Nil [simp]: "latin1 [] = []"
  by (simp add: latin1_def)

lemma length_latin1 [simp]: "length (latin1 a) = length a"
  by (simp add: latin1_def)

lemma take_latin1: "take n (latin1 a) = latin1 (take n a)"
  by (simp add: latin1_def take_map)

text \<open>The chunk with which the header is complete.\<close>

lemma header_chunk:
  assumes "find_sub pat (latin1 acc) = None" "find_sub pat (latin1 (acc @ concat chunks)) = Some i"
  shows "\<exists>xs x ys. chunks = xs @ x # ys \<and> find_sub pat (latin1 (acc @ concat xs @ x)) = Some i
    \<and> (\<forall>zs z us. xs = zs @ z # us \<longrightarrow> find_sub pat (latin1 (acc @ concat zs @ z)) = None)"
  using assms
proof (induction chunks arbitrary: acc)
  case (Cons c cs)
  show ?case
  proof (cases "find_sub pat (latin1 (acc @ c))")
    case None
    have "find_sub pat (latin1 ((acc @ c) @ concat cs)) = Some i" using Cons.prems(2) by simp
    from Cons.IH[OF None this] obtain xs x ys where
      x: "cs = xs @ x # ys" "find_sub pat (latin1 ((acc @ c) @ concat xs @ x)) = Some i"
        "\<forall>zs z us. xs = zs @ z # us \<longrightarrow> find_sub pat (latin1 ((acc @ c) @ concat zs @ z)) = None"
      by blast
    have "c # cs = (c # xs) @ x # ys" "find_sub pat (latin1 (acc @ concat (c # xs) @ x)) = Some i" using x by simp_all
    moreover have "\<forall>zs z us. c # xs = zs @ z # us \<longrightarrow> find_sub pat (latin1 (acc @ concat zs @ z)) = None"
      using x(3) None by (auto simp: Cons_eq_append_conv)
    ultimately show ?thesis by blast
  next
    case (Some j)
    then have "find_sub pat (latin1 (acc @ concat (c # cs))) = Some j"
      using find_sub_more[of pat "latin1 (acc @ c)" j "latin1 (concat cs)"] by simp
    then have "j = i" using Cons.prems by simp
    with Some show ?thesis by (intro exI[of _ "[]"] exI[of _ c] exI[of _ cs]) simp
  qed
qed simp

lemma data_wait:
  assumes "\<not> cn_open c" "cn_buf c = []" "\<forall>zs z us. xs = zs @ z # us \<longrightarrow> find_sub (crlf @ crlf) (latin1 (concat zs @ z)) = None"
  shows "fold (on_data cd) xs (Some (c, s)) = Some (c\<lparr>cn_buf := concat xs\<rparr>, s)"
  using assms(3)
proof (induction xs rule: rev_induct)
  case (snoc x xs)
  have "\<forall>zs z us. xs = zs @ z # us \<longrightarrow> find_sub (crlf @ crlf) (latin1 (concat zs @ z)) = None"
    using snoc.prems by auto
  moreover have "find_sub (crlf @ crlf) (latin1 (concat xs @ x)) = None" using snoc.prems by blast
  ultimately show ?case using snoc.IH assms(1) by (simp add: on_data_def open_conn_def)
qed (use assms(2) in \<open>simp add: on_data_def\<close>)

definition opened :: "codec \<Rightarrow> string \<Rightarrow> conn \<Rightarrow> conn" where
  "opened cd head c = c\<lparr>cn_open := True, cn_buf := [], cn_out := cn_out c @ [bytes_of (upgrade (cd_digest cd) (ws_key head))]\<rparr>"

text \<open>A stream that begins with a header is, after the upgrade, the stream of what follows the header.\<close>

lemma data_header:
  assumes c: "\<not> cn_open c" "cn_buf c = []" and h: "find_sub (crlf @ crlf) (latin1 (concat chunks)) = Some i"
  shows "\<exists>rest. fold (on_data cd) chunks (Some (c, s)) = fold (on_data cd) rest (Some (opened cd (take i (latin1 (concat chunks))) c, s))
    \<and> concat rest = drop (i + 4) (concat chunks)"
proof -
  have e: "find_sub (crlf @ crlf) (latin1 []) = None" by (simp add: latin1_def crlf_def)
  obtain xs x ys where x: "chunks = xs @ x # ys" "find_sub (crlf @ crlf) (latin1 (concat xs @ x)) = Some i"
    "\<forall>zs z us. xs = zs @ z # us \<longrightarrow> find_sub (crlf @ crlf) (latin1 (concat zs @ z)) = None"
    using header_chunk[OF e, of chunks i] h by auto
  have le: "i + 4 \<le> length (concat xs @ x)" using find_sub_bound[OF x(2)] by (simp add: crlf_def)
  have head: "take i (latin1 (concat chunks)) = take i (latin1 (concat xs @ x))" using le by (simp add: x(1))
  define b where "b = drop (i + 4) (concat xs @ x)"
  have w: "fold (on_data cd) xs (Some (c, s)) = Some (c\<lparr>cn_buf := concat xs\<rparr>, s)" by (rule data_wait[OF c x(3)])
  have "on_data cd x (Some (c\<lparr>cn_buf := concat xs\<rparr>, s)) = on_data cd b (Some (opened cd (take i (latin1 (concat xs @ x))) c, s))"
    using c x(2) by (simp add: on_data_def open_conn_def opened_def b_def Let_def)
  then have "fold (on_data cd) chunks (Some (c, s))
      = fold (on_data cd) (b # ys) (Some (opened cd (take i (latin1 (concat chunks))) c, s))"
    using w unfolding head by (simp add: x(1))
  moreover have "concat (b # ys) = drop (i + 4) (concat chunks)" using le by (simp add: b_def x(1))
  ultimately show ?thesis by blast
qed

lemma handshake_lines:
  "handshake_text port = lines [''GET / HTTP/1.1'', ''Host: 127.0.0.1:'' @ show_nat port, ''Upgrade: websocket'', ''Connection: Upgrade'',
     ''Sec-WebSocket-Key: dGhlIHNhbXBsZSBub25jZQ=='', ''Sec-WebSocket-Version: 13''] @ crlf"
  by (simp add: handshake_text_def lines_def)

lemma handshake_key: "ws_key (take (length (handshake_text port) - 4) (handshake_text port @ r)) = ''dGhlIHNhbXBsZSBub25jZQ==''"
  and handshake_end: "find_sub (crlf @ crlf) (handshake_text port @ r) = Some (length (handshake_text port) - 4)"
proof -
  define ls where "ls = [''GET / HTTP/1.1'', ''Host: 127.0.0.1:'' @ show_nat port, ''Upgrade: websocket'', ''Connection: Upgrade'',
     ''Sec-WebSocket-Key: dGhlIHNhbXBsZSBub25jZQ=='', ''Sec-WebSocket-Version: 13'']"
  have ok: "\<forall>a \<in> set ls. line a" using show_nat_line[of port] by (simp add: ls_def line_def)
  have ne: "ls \<noteq> []" by (simp add: ls_def)
  have t: "handshake_text port = lines ls @ crlf" by (simp add: handshake_lines ls_def)
  have n: "length (handshake_text port) - 4 = length (lines ls) - 2" by (simp add: t crlf_def)
  show "find_sub (crlf @ crlf) (handshake_text port @ r) = Some (length (handshake_text port) - 4)"
    using find_end[OF ok ne, of r] n by (simp add: t)
  have "split_on crlf (take (length (handshake_text port) - 4) (handshake_text port @ r)) = ls"
    unfolding n using split_lines[OF ok ne, of "crlf @ r"] by (simp add: t)
  moreover have "trim (split_on '':'' ''Sec-WebSocket-Key: dGhlIHNhbXBsZSBub25jZQ=='' ! 1) = ''dGhlIHNhbXBsZSBub25jZQ==''" by code_simp
  moreover have "\<not> starts_with ''sec-websocket-key:'' (lower ''GET / HTTP/1.1'')"
    "\<not> starts_with ''sec-websocket-key:'' (lower ''Upgrade: websocket'')"
    "\<not> starts_with ''sec-websocket-key:'' (lower ''Connection: Upgrade'')"
    "starts_with ''sec-websocket-key:'' (lower ''Sec-WebSocket-Key: dGhlIHNhbXBsZSBub25jZQ=='')"
    "\<not> starts_with ''sec-websocket-key:'' (lower ''Sec-WebSocket-Version: 13'')"
    by code_simp+
  moreover have "\<not> starts_with ''sec-websocket-key:'' (lower (''Host: 127.0.0.1:'' @ show_nat port))"
    by (simp add: lower_def)
  ultimately show "ws_key (take (length (handshake_text port) - 4) (handshake_text port @ r)) = ''dGhlIHNhbXBsZSBub25jZQ==''"
    by (simp add: ws_key_def ls_def)
qed

text \<open>The probe's own stream.\<close>

lemma on_frames_append: "on_frames ns ((on_frames ms p)\<lparr>pb_acc := l, pb_ended := e\<rparr>) = on_frames (ms @ ns) (p\<lparr>pb_acc := l, pb_ended := e\<rparr>)"
  by (simp add: on_frames_def)

lemma on_frames_keeps [simp]:
  "pb_opened (on_frames ms p) = pb_opened p" "pb_acc (on_frames ms p) = pb_acc p" "pb_ended (on_frames ms p) = pb_ended p"
  "pb_promise (on_frames ms p) = pb_promise p" "pb_listening (on_frames ms p) = pb_listening p"
  by (simp_all add: on_frames_def)

lemma probe_feed:
  assumes "pb_opened p"
  shows "fold probe_data pieces p
    = (let (ms, left, stop) = fold (feed next_frame is_close) pieces ([], pb_acc p, pb_ended p)
       in on_frames ms (p\<lparr>pb_acc := left, pb_ended := stop\<rparr>))"
proof (induction pieces rule: rev_induct)
  case Nil
  show ?case by (simp add: on_frames_def)
next
  case (snoc x xs)
  obtain ms left stop where f: "fold (feed next_frame is_close) xs ([], pb_acc p, pb_ended p) = (ms, left, stop)"
    by (metis surj_pair)
  obtain ns left' stop' where u: "unframe next_frame is_close (length (left @ x)) (left @ x) = (ns, left', stop')"
    by (metis surj_pair)
  have dec: "(\<lambda>b. map_option (as_frame b) (parseFrame b)) = next_frame" by (rule ext) (rule probe_parser)
  define q where "q = on_frames ms (p\<lparr>pb_acc := left, pb_ended := stop\<rparr>)"
  have "probe_data x q = on_frames ns ((q\<lparr>pb_acc := left @ x\<rparr>)\<lparr>pb_acc := left', pb_ended := stop \<or> stop'\<rparr>)"
    using assms u by (simp add: probe_data_def probe_drain_def dec q_def)
  also have "\<dots> = on_frames (ms @ ns) (p\<lparr>pb_acc := left', pb_ended := stop \<or> stop'\<rparr>)"
    by (simp add: q_def on_frames_def)
  finally have step: "probe_data x q = on_frames (ms @ ns) (p\<lparr>pb_acc := left', pb_ended := stop \<or> stop'\<rparr>)" .
  have IH: "fold probe_data xs p = q" using snoc.IH by (simp add: f q_def)
  have "feed next_frame is_close x (ms, left, stop) = (ms @ ns, left', stop \<or> stop')"
    using u by (simp add: feed_def Let_def)
  then show ?case by (simp add: f IH step)
qed

lemma probe_wait:
  assumes "\<not> pb_opened p" "pb_acc p = []" "\<forall>zs z us. xs = zs @ z # us \<longrightarrow> find_sub (crlf @ crlf) (latin1 (concat zs @ z)) = None"
  shows "fold probe_data xs p = p\<lparr>pb_acc := concat xs\<rparr>"
  using assms(3)
proof (induction xs rule: rev_induct)
  case (snoc x xs)
  have "\<forall>zs z us. xs = zs @ z # us \<longrightarrow> find_sub (crlf @ crlf) (latin1 (concat zs @ z)) = None"
    using snoc.prems by auto
  moreover have "find_sub (crlf @ crlf) (latin1 (concat xs @ x)) = None" using snoc.prems by blast
  ultimately show ?case using snoc.IH assms(1) by (simp add: probe_data_def)
qed (use assms(2) in simp)

lemma probe_header:
  assumes p: "\<not> pb_opened p" "pb_acc p = []" and h: "find_sub (crlf @ crlf) (latin1 (concat chunks)) = Some i"
    and ok: "contains ''101'' (ascii (take i (concat chunks)))"
  shows "\<exists>rest. fold probe_data chunks p = fold probe_data rest (p\<lparr>pb_opened := True, pb_promise := Done\<rparr>)
    \<and> concat rest = drop (i + 4) (concat chunks)"
proof -
  have e: "find_sub (crlf @ crlf) (latin1 []) = None" by (simp add: crlf_def)
  obtain xs x ys where x: "chunks = xs @ x # ys" "find_sub (crlf @ crlf) (latin1 (concat xs @ x)) = Some i"
    "\<forall>zs z us. xs = zs @ z # us \<longrightarrow> find_sub (crlf @ crlf) (latin1 (concat zs @ z)) = None"
    using header_chunk[OF e, of chunks i] h by auto
  have le: "i + 4 \<le> length (concat xs @ x)" using find_sub_bound[OF x(2)] by (simp add: crlf_def)
  have head: "take i (concat chunks) = take i (concat xs @ x)" using le by (simp add: x(1))
  define b where "b = drop (i + 4) (concat xs @ x)"
  have swap: "p\<lparr>pb_acc := l, pb_opened := True, pb_promise := Done\<rparr> = p\<lparr>pb_opened := True, pb_promise := Done, pb_acc := l\<rparr>" for l
    by (cases p) simp
  have "probe_data x (p\<lparr>pb_acc := concat xs\<rparr>) = probe_data b (p\<lparr>pb_opened := True, pb_promise := Done\<rparr>)"
    using p x(2) ok unfolding head by (simp add: probe_data_def b_def Let_def swap)
  then have "fold probe_data chunks p = fold probe_data (b # ys) (p\<lparr>pb_opened := True, pb_promise := Done\<rparr>)"
    using probe_wait[OF p x(3)] by (simp add: x(1))
  moreover have "concat (b # ys) = drop (i + 4) (concat chunks)" using le by (simp add: b_def x(1))
  ultimately show ?thesis by blast
qed

lemma contains_more: "contains p a \<Longrightarrow> contains p (a @ b)"
proof (induction a)
  case Nil
  then show ?case by (cases b) auto
next
  case (Cons c a)
  show ?case
  proof (cases "take (length p) (c # a) = p")
    case True
    then have "length p \<le> length (c # a)" by (metis length_take min.cobounded1)
    then have "take (length p) ((c # a) @ b) = p" using True by (simp only: take_append) simp
    then show ?thesis by simp
  next
    case False
    then show ?thesis using Cons by auto
  qed
qed

definition probe_key :: string where
  "probe_key = ''dGhlIHNhbXBsZSBub25jZQ==''"

lemma probe_opens:
  assumes digest: "CHR 0x0D \<notin> set (acceptKey digest probe_key)" and down: "concat chunks = bytes_of (upgrade digest probe_key)"
  shows "fold probe_data chunks probe_init = probe_init\<lparr>pb_opened := True, pb_promise := Done\<rparr>"
proof -
  define ls where "ls = [''HTTP/1.1 101 Switching Protocols'', ''Upgrade: websocket'', ''Connection: Upgrade'',
     ''Sec-WebSocket-Accept: '' @ acceptKey digest probe_key]"
  have ok: "\<forall>a \<in> set ls. line a" using digest by (simp add: ls_def line_def)
  have ne: "ls \<noteq> []" by (simp add: ls_def)
  have t: "upgrade digest probe_key = lines ls @ crlf" by (simp add: upgrade_def lines_def ls_def)
  define A where "A = ''HTTP/1.1 101 Switching Protocols''"
  obtain tl where tl: "lines ls = A @ tl" "2 \<le> length tl"
    by (simp add: lines_def ls_def crlf_def A_def)
  define i where "i = length (lines ls) - 2"
  have f: "find_sub (crlf @ crlf) (latin1 (concat chunks)) = Some i"
    using find_end[OF ok ne, of "[]"] by (simp add: down t i_def)
  have "i = length A + (length tl - 2)" using tl(2) by (simp add: i_def tl(1))
  then have "take i (concat chunks) = bytes_of A @ bytes_of (take (length tl - 2) tl)"
    using tl(2) by (simp add: down t tl(1) bytes_of_def take_map)
  moreover have "contains ''101'' (ascii (bytes_of A))" unfolding A_def by code_simp
  ultimately have c: "contains ''101'' (ascii (take i (concat chunks)))"
    by (simp add: contains_more ascii_def)
  have p: "\<not> pb_opened probe_init" "pb_acc probe_init = []" by (simp_all add: probe_init_def)
  obtain rest where r: "fold probe_data chunks probe_init = fold probe_data rest (probe_init\<lparr>pb_opened := True, pb_promise := Done\<rparr>)"
    "concat rest = drop (i + 4) (concat chunks)"
    using probe_header[OF p f c] by blast
  have "length (lines ls) \<le> i + 2" by (simp add: i_def)
  then have "concat rest = concat (map encodeText [])" by (simp add: r(2) down t bytes_of_def crlf_def)
  then have "fold (feed next_frame is_close) rest ([], [], False) = ([], [], False)" using own.stream_read[of "[]" rest] by simp
  then show ?thesis unfolding r(1) by (simp add: probe_feed probe_init_def on_frames_def)
qed

lemma probe_hears:
  assumes "pb_opened p" "pb_acc p = []" "\<not> pb_ended p" "pb_listening p" "\<forall>q \<in> set ps. length q < 2 ^ 64" "concat pieces = concat (map encodeText ps)"
  shows "fold probe_data pieces p = p\<lparr>pb_got := pb_got p @ ps\<rparr>"
proof -
  have "fold (feed next_frame is_close) pieces ([], [], False) = (map (Pair 1) ps, [], False)"
    using own.stream_read[of ps pieces] assms(5,6) by (simp add: is_close_def)
  moreover have "map snd (filter (\<lambda>f. fst f = 1) (map (Pair (1 :: nat)) ps)) = ps" by (induction ps) simp_all
  ultimately show ?thesis using assms(1-4) by (simp add: probe_feed on_frames_def)
qed

definition new_conn :: conn where
  "new_conn = \<lparr>cn_open = False, cn_buf = [], cn_out = [], cn_ended = False\<rparr>"




end
