(* ===== verification/Network.thy ===== *)
theory Network
  imports Media_Overlay Hooks "HOL-Library.Multiset" "HOL-Library.Sublist"
begin

text \<open>
  Clients that talk to each other: a node is a page with the native daemon it is connected to. The daemon takes
  the messages of its page one by one, gives those with a known recipient to the network and hands what arrives
  from other daemons to the page as events (\<open>native/core/daemon.cc\<close>); the page's handlers read the fields of the
  event (\<open>ui/src/client/webrtc.ts\<close>). Each message without an open connection is dialled for itself, so the network
  may lose and reorder packets.
\<close>

subsection \<open>The daemons\<close>

record packet =
  pk_from :: string
  pk_to :: string
  pk_m :: string
  pk_d :: json

definition without :: "string \<Rightarrow> json option \<Rightarrow> json" where
  "without k d = (case d of Some (JObj fs) \<Rightarrow> JObj (filter (\<lambda>e. fst e \<noteq> k) fs) | _ \<Rightarrow> JObj [])"

definition set_field :: "string \<Rightarrow> json \<Rightarrow> json \<Rightarrow> json" where
  "set_field k v d = (case d of JObj fs \<Rightarrow> JObj ((k, v) # filter (\<lambda>e. fst e \<noteq> k) fs) | _ \<Rightarrow> d)"

text \<open>A message of the own page: \<open>SendPeerSignal\<close> with the payload without \<open>to\<close>, or nothing.\<close>

definition daemon_out :: "string \<Rightarrow> string list \<Rightarrow> string \<times> string \<times> json option \<Rightarrow> packet option" where
  "daemon_out own known e =
     (case e of (ns, m, d) \<Rightarrow>
        map_option (\<lambda>to. \<lparr>pk_from = own, pk_to = to, pk_m = m, pk_d = without ''to'' d\<rparr>) (relayed own known e))"

text \<open>A packet from another daemon: the method and payload of the event for the page.\<close>

definition daemon_in :: "string \<Rightarrow> packet \<Rightarrow> (string \<times> json) option" where
  "daemon_in own pk =
     (if pk_from pk = [] \<or> pk_from pk = own then None
      else Some (if pk_m pk = [] then ''media'' else pk_m pk,
                 set_field ''from'' (JStr (pk_from pk)) (set_field ''fromId'' (JStr (pk_from pk)) (pk_d pk))))"

lemma map_of_filter_key: "map_of (filter (\<lambda>e. fst e \<noteq> k') fs) k = (if k = k' then None else map_of fs k)"
  using mget_filter_key[of "\<lambda>x. x \<noteq> k'" fs k] by (simp add: mget_def)

lemma jfield_set: "jfield k (set_field k' v d) = (if k = k' \<and> (\<exists>fs. d = JObj fs) then Some v else jfield k d)"
  by (cases d) (auto simp: set_field_def map_of_filter_key)

lemma jfield_without: "jfield k (without k' (Some d)) = (if k = k' then None else jfield k d)"
  by (cases d) (auto simp: without_def map_of_filter_key)

subsection \<open>What the handlers read\<close>

definition str_at :: "string \<Rightarrow> json \<Rightarrow> string option" where
  "str_at k d = (case jfield k d of Some (JStr v) \<Rightarrow> Some v | _ \<Rightarrow> None)"

definition bool_at :: "string \<Rightarrow> json \<Rightarrow> bool option" where
  "bool_at k d = (case jfield k d of Some (JBool v) \<Rightarrow> Some v | _ \<Rightarrow> None)"

definition nat_at :: "string \<Rightarrow> json \<Rightarrow> nat option" where
  "nat_at k d = (case jfield k d of Some (JNum v) \<Rightarrow> Some (nat v) | _ \<Rightarrow> None)"

definition mode_of :: "string \<Rightarrow> media_mode option" where
  "mode_of s = find (\<lambda>m. mode_name m = s) [Voice, Video, Share, Remote]"

definition sdp_of :: "json \<Rightarrow> session_description option" where
  "sdp_of d = (case (str_at ''type'' d, str_at ''sdp'' d) of
     (Some t, Some x) \<Rightarrow> if t = ''offer'' then Some \<lparr>sd_sdp = x, sd_type = Offer\<rparr>
                         else if t = ''answer'' then Some \<lparr>sd_sdp = x, sd_type = Answer\<rparr> else None
   | _ \<Rightarrow> None)"

definition candidate_of :: "json \<Rightarrow> ice_candidate option" where
  "candidate_of d = map_option (\<lambda>c. \<lparr>ic_candidate = c, ic_sdpMLineIndex = nat_at ''sdpMLineIndex'' d,
     ic_sdpMid = str_at ''sdpMid'' d\<rparr>) (str_at ''candidate'' d)"

lemma mode_of_name [simp]: "mode_of (mode_name m) = Some m"
  by (cases m) (simp_all add: mode_of_def)

lemma sdp_of_json [simp]: "sdp_of (sdp_json sd) = Some sd"
  by (cases sd; cases "sd_type sd") (simp_all add: sdp_of_def sdp_json_def str_at_def)

lemma candidate_of_json [simp]: "candidate_of (candidate_json c) = Some c"
  by (cases c; cases "ic_sdpMLineIndex c"; cases "ic_sdpMid c")
     (simp_all add: candidate_of_def candidate_json_def str_at_def nat_at_def opt_field_def)

text \<open>What can happen at a page: the events of \<open>Calls\<close>, the answer and the candidates of a peer connection,
  the operations of a viewer, the buttons that end or reject a call, input sent and received.\<close>

datatype client_event =
    PCall call_event
  | PStopAck bool
  | PAnswer nat session_description
  | PCandidate nat "ice_candidate option"
  | PAskStop string
  | PAskControl string
  | PLeaveControl "string option"
  | PEnd media_session
  | PReject media_session
  | PInput string remote_input
  | PInputArrives remote_input

text \<open>The end of \<open>onSignal\<close> for an offer: the answer created by the peer connection is sent.\<close>

definition send_answer :: "nat \<Rightarrow> session_description \<Rightarrow> calls \<Rightarrow> calls" where
  "send_answer a sd s = send ''media'' ''answer'' (Some (signal_json (so_callId (obj a s)) (so_peerId (obj a s)) sd)) s"

definition on_input :: "remote_input \<Rightarrow> calls \<Rightarrow> calls" where
  "on_input ev = send ''media'' ''remote_input'' (Some (remote_input_json ev))"

fun client_step :: "client_event \<Rightarrow> calls \<Rightarrow> calls" where
  "client_step (PCall e) s = call_step e s"
| "client_step (PStopAck ok) s = on_stop_ack ok s"
| "client_step (PAnswer a sd) s = send_answer a sd s"
| "client_step (PCandidate a c) s = on_local_candidate a c s"
| "client_step (PAskStop rid) s = snd (requestRoomShareStop rid s)"
| "client_step (PAskControl c) s = snd (requestShareControl c s)"
| "client_step (PLeaveControl c) s = disableShareControl c s"
| "client_step (PEnd m) s = end_button m s"
| "client_step (PReject m) s = reject_button m s"
| "client_step (PInput c ev) s = sendRemoteInput c ev s"
| "client_step (PInputArrives ev) s = on_input ev s"

text \<open>The event as its handler reads it; None when a field it reads is missing or of another type, and for an
  event without a handler. \<open>exn\<close> and \<open>sd\<close> are what the browser makes of a granted control.\<close>

definition read_event :: "string \<Rightarrow> json \<Rightarrow> string option \<Rightarrow> session_description \<Rightarrow> client_event option" where
  "read_event m d exn sd =
     (if m = ''call_invite'' then
        (case (str_at ''callId'' d, str_at ''from'' d, Option.bind (str_at ''mode'' d) mode_of) of
           (Some c, Some f, Some k) \<Rightarrow> Some (PCall (CInvite c f k)) | _ \<Rightarrow> None)
      else if m = ''offer'' then
        (case (str_at ''callId'' d, str_at ''from'' d, Option.bind (jfield ''sdp'' d) sdp_of) of
           (Some c, Some f, Some x) \<Rightarrow> Some (PCall (COffer c f x (bool_at ''fileSignaling'' d = Some True))) | _ \<Rightarrow> None)
      else if m = ''answer'' then
        (case (str_at ''callId'' d, str_at ''from'' d, Option.bind (jfield ''sdp'' d) sdp_of) of
           (Some c, Some f, Some x) \<Rightarrow> Some (PCall (CAnswer c f x)) | _ \<Rightarrow> None)
      else if m = ''ice'' then
        (case (str_at ''callId'' d, str_at ''from'' d, Option.bind (jfield ''candidate'' d) candidate_of) of
           (Some c, Some f, Some x) \<Rightarrow> Some (PCall (CIce c f x)) | _ \<Rightarrow> None)
      else if m = ''call_accept'' then map_option (\<lambda>c. PCall (CAccepted c)) (str_at ''callId'' d)
      else if m = ''call_hangup'' then map_option (\<lambda>c. PCall (CHangup c)) (str_at ''callId'' d)
      else if m = ''room_share_stop_request'' then
        (case (str_at ''roomId'' d, str_at ''from'' d) of (Some r, Some f) \<Rightarrow> Some (PCall (CHost (HStopRequest r f))) | _ \<Rightarrow> None)
      else if m = ''room_share_stop_ack'' then map_option PStopAck (bool_at ''approved'' d)
      else if m = ''share_control_request'' then map_option (\<lambda>f. PCall (CHost (HControlRequest f))) (str_at ''from'' d)
      else if m = ''share_control_grant'' then map_option (\<lambda>ok. PCall (CGrant ok exn sd)) (bool_at ''approved'' d)
      else if m = ''share_control_release'' then map_option (\<lambda>f. PCall (CHost (HRelease f))) (str_at ''from'' d)
      else if m = ''share_control_revoke'' then Some (PCall CRevoked)
      else None)"

subsection \<open>The network\<close>

text \<open>What the user and the browser of a page do, as opposed to what its handlers are called with.\<close>

fun own_host :: "host_event \<Rightarrow> bool" where
  "own_host (HStopRequest _ _) = False"
| "own_host (HControlRequest _) = False"
| "own_host (HRelease _) = False"
| "own_host _ = True"

fun own_call :: "call_event \<Rightarrow> bool" where
  "own_call (CStart _ _ _) = True"
| "own_call (CCaptured _ _ _ _ _) = True"
| "own_call (CAccept _ _ _ _) = True"
| "own_call CHangupAll = True"
| "own_call (CHost h) = own_host h"
| "own_call _ = False"

fun own_event :: "client_event \<Rightarrow> bool" where
  "own_event (PCall e) = own_call e"
| "own_event (PStopAck _) = False"
| "own_event _ = True"

text \<open>A page with its daemon: the peers the daemon knows, how many messages of the page it has taken, what it gave
  to the network and what it received.\<close>

record node =
  nd_page :: calls
  nd_known :: "string list"
  nd_taken :: nat
  nd_out :: "packet list"
  nd_got :: "packet list"

record world =
  wd_nodes :: "(string, node) jsmap"
  wd_net :: "packet list"

definition node_at :: "string \<Rightarrow> world \<Rightarrow> node option" where
  "node_at p w = mget (wd_nodes w) p"

definition put_node :: "string \<Rightarrow> node \<Rightarrow> world \<Rightarrow> world" where
  "put_node p n w = w\<lparr>wd_nodes := mset_key p n (wd_nodes w)\<rparr>"

lemma node_at_put [simp]: "node_at q (put_node p n w) = (if q = p then Some n else node_at q w)" "wd_net (put_node p n w) = wd_net w"
  by (simp_all add: node_at_def put_node_def)

lemma node_at_net [simp]: "node_at q (w\<lparr>wd_net := x\<rparr>) = node_at q w"
  by (simp add: node_at_def)

definition act :: "client_event \<Rightarrow> node \<Rightarrow> node" where
  "act e n = n\<lparr>nd_page := client_step e (nd_page n)\<rparr>"

text \<open>The daemon takes the next message of its page.\<close>

definition take_next :: "string \<Rightarrow> node \<Rightarrow> packet list \<times> node" where
  "take_next p n =
     (let pks = (case daemon_out p (nd_known n) (sent (nd_page n) ! nd_taken n) of None \<Rightarrow> [] | Some pk \<Rightarrow> [pk])
      in (pks, n\<lparr>nd_taken := Suc (nd_taken n), nd_out := nd_out n @ pks\<rparr>))"

text \<open>A packet arrives at a daemon; an event its handler cannot read leaves the page alone.\<close>

definition arrive :: "string \<Rightarrow> packet \<Rightarrow> string option \<Rightarrow> session_description \<Rightarrow> node \<Rightarrow> node" where
  "arrive p pk exn sd n =
     (let n' = n\<lparr>nd_got := nd_got n @ [pk]\<rparr>
      in case Option.bind (daemon_in p pk) (\<lambda>(m, d). read_event m d exn sd) of
           None \<Rightarrow> n' | Some e \<Rightarrow> act e n')"

inductive net_step :: "world \<Rightarrow> world \<Rightarrow> bool" where
  net_act: "node_at p w = Some n \<Longrightarrow> own_event e \<Longrightarrow> net_step w (put_node p (act e n) w)"
| net_take: "node_at p w = Some n \<Longrightarrow> nd_taken n < length (sent (nd_page n)) \<Longrightarrow> take_next p n = (pks, n') \<Longrightarrow>
    net_step w ((put_node p n' w)\<lparr>wd_net := wd_net w @ pks\<rparr>)"
| net_arrive: "wd_net w = xs @ pk # ys \<Longrightarrow> node_at (pk_to pk) w = Some n \<Longrightarrow>
    net_step w ((put_node (pk_to pk) (arrive (pk_to pk) pk exn sd n) w)\<lparr>wd_net := xs @ ys\<rparr>)"
| net_lose: "wd_net w = xs @ pk # ys \<Longrightarrow> net_step w (w\<lparr>wd_net := xs @ ys\<rparr>)"
| net_peers: "node_at p w = Some n \<Longrightarrow> net_step w (put_node p (n\<lparr>nd_known := known\<rparr>) w)"

definition in_control :: "calls \<Rightarrow> bool" where
  "in_control s = (case media (app s) of None \<Rightarrow> False | Some m \<Rightarrow> ms_ctrl m)"

definition fresh_node :: "node \<Rightarrow> bool" where
  "fresh_node n \<longleftrightarrow> sent (nd_page n) = [] \<and> media (app (nd_page n)) = None \<and> nd_taken n = 0 \<and> nd_out n = [] \<and> nd_got n = []"

inductive net_reach :: "world \<Rightarrow> bool" where
  net_start: "wd_net w = [] \<Longrightarrow> \<forall>p n. node_at p w = Some n \<longrightarrow> p \<noteq> [] \<and> fresh_node n \<Longrightarrow> net_reach w"
| net_more: "net_reach w \<Longrightarrow> net_step w w' \<Longrightarrow> net_reach w'"

subsection \<open>Nothing is forged or duplicated\<close>

text \<open>Copies of a packet that left its sender's daemon, that its recipient received.\<close>

definition out_count :: "packet \<Rightarrow> world \<Rightarrow> nat" where
  "out_count pk w = (case node_at (pk_from pk) w of None \<Rightarrow> 0 | Some n \<Rightarrow> count (mset (nd_out n)) pk)"

definition got_count :: "packet \<Rightarrow> world \<Rightarrow> nat" where
  "got_count pk w = (case node_at (pk_to pk) w of None \<Rightarrow> 0 | Some n \<Rightarrow> count (mset (nd_got n)) pk)"

text \<open>A message as a daemon relays it.\<close>

definition body_of :: "string \<times> string \<times> json option \<Rightarrow> string \<times> string \<times> string \<times> json" where
  "body_of e = (case e of (ns, m, d) \<Rightarrow> (ns, getStr d ''to'' [], m, without ''to'' d))"

definition pk_body :: "packet \<Rightarrow> string \<times> string \<times> string \<times> json" where
  "pk_body pk = (''media'', pk_to pk, pk_m pk, pk_d pk)"

definition node_ok :: "string \<Rightarrow> node \<Rightarrow> bool" where
  "node_ok p n \<longleftrightarrow> nd_taken n \<le> length (sent (nd_page n))
     \<and> subseq (map pk_body (nd_out n)) (map body_of (take (nd_taken n) (sent (nd_page n))))
     \<and> (\<forall>pk \<in> set (nd_out n). pk_from pk = p \<and> pk_to pk \<noteq> p)
     \<and> (\<forall>pk \<in> set (nd_got n). pk_to pk = p)"

lemma daemon_out_SomeD:
  assumes "daemon_out p known e = Some pk"
  shows "pk_from pk = p \<and> pk_to pk \<noteq> p \<and> pk_to pk \<noteq> [] \<and> pk_to pk \<in> set known \<and> pk_body pk = body_of e \<and> fst e = ''media''
    \<and> pk_m pk = fst (snd e) \<and> pk_m pk \<noteq> ''remote_host'' \<and> pk_m pk \<noteq> ''remote_input''"
  using assms by (cases e) (auto simp: daemon_out_def relayed_def pk_body_def body_of_def Let_def split: if_splits)

lemma take_next_ok:
  assumes "node_ok p n" "nd_taken n < length (sent (nd_page n))" "take_next p n = (pks, n')"
  shows "node_ok p n' \<and> nd_out n' = nd_out n @ pks \<and> nd_got n' = nd_got n \<and> nd_page n' = nd_page n
    \<and> (\<forall>pk \<in> set pks. pk_from pk = p)"
proof -
  define e where "e = sent (nd_page n) ! nd_taken n"
  have "take (Suc (nd_taken n)) (sent (nd_page n)) = take (nd_taken n) (sent (nd_page n)) @ [e]"
    unfolding e_def by (rule take_Suc_conv_app_nth[OF assms(2)])
  moreover have "pks = (case daemon_out p (nd_known n) e of None \<Rightarrow> [] | Some pk \<Rightarrow> [pk])"
    "n' = n\<lparr>nd_taken := Suc (nd_taken n), nd_out := nd_out n @ pks\<rparr>"
    using assms(3) by (auto simp: take_next_def Let_def e_def)
  moreover have "subseq (map pk_body pks) [body_of e]" "\<forall>pk \<in> set pks. pk_from pk = p \<and> pk_to pk \<noteq> p"
    using calculation(2) daemon_out_SomeD[of p "nd_known n" e] by (auto split: option.splits)
  ultimately show ?thesis using assms(1,2) by (auto simp: node_ok_def intro!: list_emb_append_mono)
qed


subsection \<open>What a page sends can be read\<close>

definition readable :: "packet \<Rightarrow> bool" where
  "readable pk \<longleftrightarrow> (\<forall>own ev exn sd. daemon_in own pk = Some ev \<longrightarrow> read_event (fst ev) (snd ev) exn sd \<noteq> None)"

definition typed :: "string \<times> string \<times> json option \<Rightarrow> bool" where
  "typed e \<longleftrightarrow> (\<forall>own known pk. daemon_out own known e = Some pk \<longrightarrow> readable pk)"

lemma typedI:
  assumes "\<And>f exn sd. read_event m (set_field ''from'' (JStr f) (set_field ''fromId'' (JStr f) (without ''to'' d))) exn sd \<noteq> None"
    and "m \<noteq> []"
  shows "typed (ns, m, d)"
  using assms by (auto simp: typed_def readable_def daemon_in_def daemon_out_def split: if_splits)

lemma typed_own [simp]: "typed (ns, ''remote_host'', d)" "typed (ns, ''remote_input'', d)"
  by (simp_all add: typed_def daemon_out_def relayed_def)

lemma typed_unaddressed [simp]: "typed (ns, m, Some (only_call c))"
  by (simp add: typed_def daemon_out_def relayed_def only_call_def getStr_def)

lemmas read_defs = read_event_def str_at_def bool_at_def set_field_def without_def

lemma typed_calls [simp]:
  "typed (''media'', ''call_invite'', Some (invite_json c to mode rid))"
  "typed (''media'', ''offer'', Some (signal_json c to sd))"
  "typed (''media'', ''answer'', Some (signal_json c to sd))"
  "typed (''media'', ''ice'', Some (JObj [(''callId'', JStr c), (''to'', JStr to), (''candidate'', candidate_json ic)]))"
  "typed (''media'', ''call_accept'', Some (call_json c to))"
  "typed (''media'', ''call_hangup'', Some (call_json c to))"
  by (rule typedI; simp add: read_defs invite_json_def signal_json_def call_json_def opt_field_def)+

lemma typed_shares [simp]:
  "typed (''media'', ''room_share_stop_request'', Some (room_json to rid))"
  "typed (''media'', ''room_share_stop_ack'', Some (verdict_json to rid ok))"
  "typed (''media'', ''share_control_request'', Some (room_json to rid))"
  "typed (''media'', ''share_control_grant'', Some (verdict_json to rid ok))"
  "typed (''media'', ''share_control_release'', Some (room_json to rid))"
  "typed (''media'', ''share_control_revoke'', Some (room_json to rid))"
  by (rule typedI; simp add: read_defs room_json_def verdict_json_def)+

text \<open>From \<open>s\<close> to \<open>t\<close> only readable messages were sent and, unless \<open>b\<close>, the page did not enter the control
  mode.\<close>

definition steady :: "bool \<Rightarrow> calls \<Rightarrow> calls \<Rightarrow> bool" where
  "steady b s t \<longleftrightarrow> (\<exists>es. sent t = sent s @ es \<and> (\<forall>e \<in> set es. typed e)) \<and> (in_control t \<longrightarrow> in_control s \<or> b)"

named_theorems steady_intros \<open>operations that are steady\<close>

lemma steady_refl [steady_intros]: "steady b s s"
  by (simp add: steady_def)

lemma steady_trans: "steady b s t \<Longrightarrow> steady b t u \<Longrightarrow> steady b s u"
  by (auto simp: steady_def)

lemma steady_same: "steady b s t \<Longrightarrow> sent u = sent t \<Longrightarrow> media (app u) = media (app t) \<Longrightarrow> steady b s u"
  by (simp add: steady_def in_control_def)

lemma steady_send [steady_intros]: "steady b s t \<Longrightarrow> typed (ns, m, d) \<Longrightarrow> steady b s (send ns m d t)"
  by (auto simp: steady_def in_control_def)

lemma steady_media [steady_intros]:
  "steady b s t \<Longrightarrow> (\<And>m. ms_ctrl (f m) \<Longrightarrow> ms_ctrl m \<or> b) \<Longrightarrow> steady b s (set_media f t)"
  "steady b s t \<Longrightarrow> steady b s (close_media t)"
  "steady b s t \<Longrightarrow> \<not> ms_ctrl m \<or> (media (app t) = Some m' \<and> ms_ctrl m' = ms_ctrl m) \<Longrightarrow> steady b s (patch (\<lambda>p. p\<lparr>media := Some m\<rparr>) t)"
  by (auto simp: steady_def in_control_def set_media_def close_media_def split: option.split_asm)

lemma steady_ui [steady_intros]:
  "steady b s t \<Longrightarrow> steady b s (toast n t)" "steady b s t \<Longrightarrow> steady b s (emitStreams t)"
  "steady b s t \<Longrightarrow> steady b s (clearSessionStreams c t)" "steady b s t \<Longrightarrow> steady b s (setLocalStream c x t)"
  "steady b s t \<Longrightarrow> steady b s (disarm t)" "steady b s t \<Longrightarrow> steady b s (upd_obj a g t)" "steady b s t \<Longrightarrow> steady b s (log_obj a e t)"
  "steady b s t \<Longrightarrow> steady b s (closeObj a t)" "steady b s t \<Longrightarrow> steady b s (onSignal a sig t)" "steady b s t \<Longrightarrow> steady b s (upd_share y h t)"
  unfolding disarm_def
  by (auto intro!: steady_send) (auto elim!: steady_same simp: obj_ops setLocalStream_def clearSessionStreams_def emitStreams_def upd_share_def upd_obj_def sent_def)

lemma steady_sends [steady_intros]:
  "steady b s t \<Longrightarrow> steady b s (hangup a t)" "steady b s t \<Longrightarrow> steady b s (sendOffer a sd t)"
  unfolding hangup_def sendOffer_def Let_def by (intro steady_intros; simp)+

lemma steady_fields [steady_intros]:
  "steady b s t \<Longrightarrow> steady b s (t\<lparr>ca_sessions := x1\<rparr>)" "steady b s t \<Longrightarrow> steady b s (t\<lparr>ca_pending := x2\<rparr>)"
  "steady b s t \<Longrightarrow> steady b s (t\<lparr>ca_armed := x3\<rparr>)" "steady b s t \<Longrightarrow> steady b s (t\<lparr>ca_offer := x4\<rparr>)"
  "steady b s t \<Longrightarrow> steady b s (t\<lparr>ca_stopped := x5\<rparr>)" "steady b s t \<Longrightarrow> steady b s (t\<lparr>ca_shares := x6\<rparr>)"
  "steady b s t \<Longrightarrow> steady b s (t\<lparr>ca_shareOf := x7\<rparr>)" "steady b s t \<Longrightarrow> steady b s (t\<lparr>ca_stopReq := x8\<rparr>)"
  "steady b s t \<Longrightarrow> steady b s (t\<lparr>ca_ctrl := x9\<rparr>)" "steady b s t \<Longrightarrow> steady b s (t\<lparr>ca_heap := x10\<rparr>)"
  "steady b s t \<Longrightarrow> steady b s (t\<lparr>ca_shareHeap := x11\<rparr>)" "steady b s t \<Longrightarrow> steady b s (t\<lparr>ca_local := x12\<rparr>)"
  by (auto elim!: steady_same simp: sent_def)

lemma steady_fold: "(\<And>x t. steady b t (f x t)) \<Longrightarrow> steady b s t \<Longrightarrow> steady b s (fold f xs t)"
  by (induction xs arbitrary: t) (simp, metis fold_simps(2) steady_trans)

lemma steady_new: "newSession c p m t = (a, u) \<Longrightarrow> steady b s t \<Longrightarrow> steady b s u"
  by (auto simp: newSession_def Let_def intro!: steady_intros)

lemma steady_get: "get_session c p m t = (a, u) \<Longrightarrow> steady b s t \<Longrightarrow> steady b s u"
  by (auto simp: get_session_def split: option.split_asm elim: steady_new)

lemma steady_track: "addTrackFrom a x t = Some u \<Longrightarrow> steady b s t \<Longrightarrow> steady b s u"
  by (auto simp: addTrackFrom_def split: if_splits intro!: steady_intros)

lemma steady_drop_call [steady_intros]: "steady b s t \<Longrightarrow> steady b s (drop_share_call c t)"
  by (auto simp: drop_share_call_def Let_def intro!: steady_intros split: option.split)

lemma steady_end [steady_intros]: "steady b s t \<Longrightarrow> steady b s (endRoomShare rid t)"
  unfolding endRoomShare_def Let_def
  by (auto intro!: steady_intros steady_fold split: option.split)

lemma steady_ctrl [steady_intros]:
  "steady b s t \<Longrightarrow> steady b s (drop_ctrl rid mid t)" "steady b s t \<Longrightarrow> steady b s (syncShareControllers rid y d t)"
  by (auto simp: drop_ctrl_def syncShareControllers_def Let_def intro!: steady_intros split: option.split)

lemma steady_kick [steady_intros]: "steady b s t \<Longrightarrow> steady b s (snd (endRoomShareViewer rid mid t))"
  unfolding endRoomShareViewer_def Let_def
  by (auto intro!: steady_intros steady_fold split: option.split)

lemma steady_invite [steady_intros]: "steady b s t \<Longrightarrow> steady b s (share_invite a rid m c stream sd t)"
  unfolding share_invite_def Let_def
  by (auto intro!: steady_intros elim!: steady_new steady_track split: option.split prod.split)

lemma steady_host: "steady b s (host_step e s)"
  by (cases e)
     (auto simp: share_open_def on_stop_request_def resolveRoomShareStopRequest_def on_control_request_def plain_session_def
        resolveShareControlRequest_def on_control_release_def revokeShareControl_def setLocalStream_def Let_def
        intro!: steady_intros split: option.split)


lemma steady_start [steady_intros]:
  "steady b s t \<Longrightarrow> steady b s (snd (startCall_open c p m t))" "steady b s t \<Longrightarrow> steady b s (snd (startCall_go a c m got sd t))"
  unfolding startCall_open_def startCall_go_def Let_def
  by (auto simp: plain_session_def intro!: steady_intros elim!: steady_new steady_track split: option.split prod.split)

lemma steady_accept: "steady b s (snd (acceptIncomingCall c mode dev got s))"
  by (rule accept_rule) (auto intro!: steady_intros elim: steady_get steady_track)

lemma steady_offer: "steady b s (on_offer c from sd fs s)"
  by (auto simp: on_offer_def answer_with_def Let_def intro!: steady_intros elim!: steady_get steady_track
      split: option.split prod.split)

lemma steady_route: "steady b s (routeSignal c sig from s)"
  by (auto simp: routeSignal_def Let_def intro!: steady_intros elim!: steady_get split: prod.split)

lemma steady_invited: "steady b s (on_call_invite c from mode s)"
  by (auto simp: on_call_invite_def Let_def plain_session_def intro!: steady_intros)

lemma steady_hangups: "steady b s (on_call_hangup c s)" "steady b s (hangupDebug s)"
  unfolding on_call_hangup_def forget_call_def hangupDebug_def hangup_one_def Let_def
  by (auto intro!: steady_intros steady_fold split: option.split prod.split)

lemma steady_leave [steady_intros]: "steady b s t \<Longrightarrow> steady b s (disableShareControl c t)"
  by (auto simp: disableShareControl_def Let_def intro!: steady_intros split: option.split)

lemma steady_enable: "steady True s t \<Longrightarrow> steady True s (snd (enableShareControl c h exn sd t))"
proof -
  assume s: "steady True s t"
  have "steady True s u" if "attachRemoteDatachannel c h t = (x, u)" for x u
    using that s by (auto simp: attachRemoteDatachannel_def Let_def split: prod.split_asm if_splits intro!: steady_intros elim: steady_get)
  moreover have "steady True s u" if "get_session c h Remote t = (x, u)" for x u by (rule steady_get[OF that s])
  ultimately show ?thesis
    unfolding enableShareControl_def Let_def by (auto intro!: steady_intros split: option.split prod.split)
qed

definition is_grant :: "client_event \<Rightarrow> bool" where
  "is_grant e = (case e of PCall (CGrant ok _ _) \<Rightarrow> ok | _ \<Rightarrow> False)"

lemma steady_call: "steady (is_grant (PCall e)) s (call_step e s)"
proof (cases e)
  case (CGrant ok exn sd)
  then show ?thesis
    by (auto simp: is_grant_def on_control_grant_def intro!: steady_intros steady_enable split: option.split)
qed (auto simp: steady_accept steady_offer steady_route steady_invited steady_hangups steady_host on_answer_def on_ice_def
      on_call_accept_def on_control_revoke_def intro!: steady_intros split: option.split)

lemma steady_page: "steady (is_grant e) s (client_step e s)"
  by (cases e)
     (auto simp: steady_call send_answer_def on_local_candidate_def on_stop_ack_def on_input_def reject_button_def end_button_def
       requestRoomShareStop_def requestShareControl_def sendRemoteInput_def sendInput_def intro!: steady_intros split: option.split)


subsection \<open>The invariant of the network\<close>

definition granted :: "node \<Rightarrow> bool" where
  "granted n \<longleftrightarrow> (\<exists>pk \<in> set (nd_got n). pk_m pk = ''share_control_grant'' \<and> bool_at ''approved'' (pk_d pk) = Some True)"

definition peer_ok :: "string \<Rightarrow> node \<Rightarrow> bool" where
  "peer_ok p n \<longleftrightarrow> p \<noteq> [] \<and> node_ok p n \<and> (\<forall>e \<in> set (sent (nd_page n)). typed e) \<and> (\<forall>pk \<in> set (nd_out n). readable pk)
     \<and> (in_control (nd_page n) \<longrightarrow> granted n)"

definition net_ok :: "world \<Rightarrow> bool" where
  "net_ok w \<longleftrightarrow> (\<forall>p n. node_at p w = Some n \<longrightarrow> peer_ok p n)
     \<and> (\<forall>pk. got_count pk w + count (mset (wd_net w)) pk \<le> out_count pk w)"

inductive_cases net_stepE: "net_step w w'"

lemma count_defs:
  "got_count pk (put_node p n w) = (if pk_to pk = p then count (mset (nd_got n)) pk else got_count pk w)"
  "out_count pk (put_node p n w) = (if pk_from pk = p then count (mset (nd_out n)) pk else out_count pk w)"
  "got_count pk (w\<lparr>wd_net := x\<rparr>) = got_count pk w" "out_count pk (w\<lparr>wd_net := x\<rparr>) = out_count pk w"
  by (simp_all add: got_count_def out_count_def)

lemma node_counts:
  "node_at p w = Some n \<Longrightarrow> pk_to pk = p \<Longrightarrow> got_count pk w = count (mset (nd_got n)) pk"
  "node_at p w = Some n \<Longrightarrow> pk_from pk = p \<Longrightarrow> out_count pk w = count (mset (nd_out n)) pk"
  by (simp_all add: got_count_def out_count_def)

lemma act_fields [simp]:
  "nd_known (act e n) = nd_known n" "nd_taken (act e n) = nd_taken n" "nd_out (act e n) = nd_out n" "nd_got (act e n) = nd_got n"
  "nd_page (act e n) = client_step e (nd_page n)"
  by (simp_all add: act_def)

lemma act_ok: "peer_ok p n \<Longrightarrow> \<not> is_grant e \<or> granted n \<Longrightarrow> peer_ok p (act e n)"
  using steady_page[of e "nd_page n"] by (auto simp: peer_ok_def node_ok_def steady_def granted_def)

lemma arrive_fields:
  "nd_out (arrive p pk exn sd n) = nd_out n" "nd_got (arrive p pk exn sd n) = nd_got n @ [pk]"
  by (auto simp: arrive_def Let_def split: option.split)

lemma read_grant:
  assumes "daemon_in p pk = Some (m, d)" "read_event m d exn sd = Some e" "is_grant e"
  shows "pk_m pk = ''share_control_grant'' \<and> bool_at ''approved'' (pk_d pk) = Some True"
proof -
  have "m = ''share_control_grant'' \<and> bool_at ''approved'' d = Some True"
    using assms(2,3) by (auto simp: read_event_def is_grant_def split: if_splits option.split_asm)
  moreover have "m = (if pk_m pk = [] then ''media'' else pk_m pk)" "bool_at ''approved'' d = bool_at ''approved'' (pk_d pk)"
    using assms(1) by (auto simp: daemon_in_def bool_at_def jfield_set split: if_splits)
  ultimately show ?thesis by (auto split: if_splits)
qed

lemma arrive_ok:
  assumes "peer_ok p n" "pk_to pk = p"
  shows "peer_ok p (arrive p pk exn sd n)"
proof -
  define n' where "n' = n\<lparr>nd_got := nd_got n @ [pk]\<rparr>"
  have n': "peer_ok p n'" using assms by (auto simp: n'_def peer_ok_def node_ok_def granted_def)
  have "peer_ok p (act e n')" if "daemon_in p pk = Some (m, d)" "read_event m d exn sd = Some e" for m d e
    by (rule act_ok[OF n']) (use read_grant[OF that] in \<open>auto simp: granted_def n'_def\<close>)
  then show ?thesis using n' by (auto simp: arrive_def n'_def[symmetric] Let_def bind_eq_Some_conv split: option.split)
qed


lemma net_ok_start: "wd_net w = [] \<Longrightarrow> \<forall>p n. node_at p w = Some n \<longrightarrow> p \<noteq> [] \<and> fresh_node n \<Longrightarrow> net_ok w"
  by (auto simp: net_ok_def peer_ok_def node_ok_def fresh_node_def in_control_def got_count_def out_count_def split: option.split)

lemma net_ok_put:
  assumes "net_ok w" "node_at p w = Some n" "peer_ok p n'" "nd_out n' = nd_out n" "nd_got n' = nd_got n"
  shows "net_ok (put_node p n' w)"
proof -
  have "got_count pk (put_node p n' w) = got_count pk w" "out_count pk (put_node p n' w) = out_count pk w" for pk
    using assms(2,4,5) node_counts by (auto simp: count_defs)
  then show ?thesis using assms(1,3) by (auto simp: net_ok_def split: if_splits)
qed

lemma net_ok_lose: "net_ok w \<Longrightarrow> wd_net w = xs @ pk # ys \<Longrightarrow> net_ok (w\<lparr>wd_net := xs @ ys\<rparr>)"
proof -
  assume ok: "net_ok w" and w: "wd_net w = xs @ pk # ys"
  have "count (mset (xs @ ys)) x \<le> count (mset (wd_net w)) x" for x by (simp add: w)
  then have "got_count x w + count (mset (xs @ ys)) x \<le> out_count x w" for x
    using ok add_left_mono[of "count (mset (xs @ ys)) x" "count (mset (wd_net w)) x" "got_count x w"]
    unfolding net_ok_def by (meson le_trans)
  then show ?thesis using ok unfolding net_ok_def by (simp add: count_defs del: mset_append)
qed

lemma net_ok_step: "net_step w w' \<Longrightarrow> net_ok w \<Longrightarrow> net_ok w'"
proof (erule net_stepE)
  fix p n e assume a: "w' = put_node p (act e n) w" "node_at p w = Some n" "own_event e" and ok: "net_ok w"
  have "\<not> is_grant e" using a(3) by (auto simp: is_grant_def split: client_event.splits call_event.splits)
  then have "peer_ok p (act e n)" using ok a(2) by (simp add: net_ok_def act_ok)
  then show "net_ok w'" unfolding a(1) by (intro net_ok_put[OF ok a(2)]) simp_all
next
  fix p n pks n' assume a: "w' = (put_node p n' w)\<lparr>wd_net := wd_net w @ pks\<rparr>" "node_at p w = Some n"
    "nd_taken n < length (sent (nd_page n))" "take_next p n = (pks, n')" and ok: "net_ok w"
  have n: "peer_ok p n" using ok a(2) by (simp add: net_ok_def)
  have t: "node_ok p n' \<and> nd_out n' = nd_out n @ pks \<and> nd_got n' = nd_got n \<and> nd_page n' = nd_page n \<and> (\<forall>pk \<in> set pks. pk_from pk = p)"
    by (rule take_next_ok[OF _ a(3,4)]) (use n in \<open>simp add: peer_ok_def\<close>)
  have "typed (sent (nd_page n) ! nd_taken n)" using n a(3) by (simp add: peer_ok_def)
  then have "\<forall>pk \<in> set pks. readable pk" using a(4) by (auto simp: take_next_def typed_def Let_def split: option.splits)
  then have n': "peer_ok p n'" using n t by (auto simp: peer_ok_def granted_def)
  have "got_count pk (put_node p n' w) = got_count pk w" for pk
    using t a(2) by (auto simp: count_defs node_counts)
  moreover have "out_count pk (put_node p n' w) = out_count pk w + count (mset pks) pk" for pk
    using t a(2) by (auto simp: count_defs node_counts)
  ultimately show "net_ok w'"
    using ok n' unfolding a(1) net_ok_def by (auto simp: count_defs split: if_splits)
next
  fix xs pk ys n exn sd assume a: "w' = (put_node (pk_to pk) (arrive (pk_to pk) pk exn sd n) w)\<lparr>wd_net := xs @ ys\<rparr>"
    "wd_net w = xs @ pk # ys" "node_at (pk_to pk) w = Some n" and ok: "net_ok w"
  have n': "peer_ok (pk_to pk) (arrive (pk_to pk) pk exn sd n)"
    using ok a(3) by (intro arrive_ok) (auto simp: net_ok_def)
  have "got_count x w' + count (mset (wd_net w')) x = got_count x w + count (mset (wd_net w)) x" for x
    using a(2,3) by (auto simp: a(1) count_defs arrive_fields node_counts)
  moreover have "out_count x w' = out_count x w" for x
    using a(3) by (auto simp: a(1) count_defs arrive_fields node_counts)
  ultimately show "net_ok w'" using ok n' unfolding net_ok_def by (simp add: a(1))
next
  fix p n known assume a: "w' = put_node p (n\<lparr>nd_known := known\<rparr>) w" "node_at p w = Some n" and ok: "net_ok w"
  have "peer_ok p (n\<lparr>nd_known := known\<rparr>)" using ok a(2) by (auto simp: net_ok_def peer_ok_def node_ok_def granted_def)
  then show "net_ok w'" unfolding a(1) by (intro net_ok_put[OF ok a(2)]) simp_all
qed (auto intro: net_ok_lose)

lemma net_ok_reach: "net_reach w \<Longrightarrow> net_ok w"
  by (induction rule: net_reach.induct) (auto intro: net_ok_start net_ok_step)


subsection \<open>Runs\<close>

text \<open>The steps as functions; a step that is not possible changes nothing.\<close>

datatype net_event =
    NAct string client_event
  | NTake string
  | NArrive nat "string option" session_description
  | NLose nat

fun net_do :: "net_event \<Rightarrow> world \<Rightarrow> world" where
  "net_do (NAct p e) w = (case node_at p w of None \<Rightarrow> w | Some n \<Rightarrow> if own_event e then put_node p (act e n) w else w)"
| "net_do (NTake p) w =
     (case node_at p w of None \<Rightarrow> w
      | Some n \<Rightarrow> if nd_taken n < length (sent (nd_page n))
          then (let (pks, n') = take_next p n in (put_node p n' w)\<lparr>wd_net := wd_net w @ pks\<rparr>) else w)"
| "net_do (NArrive i exn sd) w =
     (if i < length (wd_net w)
      then (let pk = wd_net w ! i
            in case node_at (pk_to pk) w of None \<Rightarrow> w
               | Some n \<Rightarrow> (put_node (pk_to pk) (arrive (pk_to pk) pk exn sd n) w)
                   \<lparr>wd_net := take i (wd_net w) @ drop (Suc i) (wd_net w)\<rparr>)
      else w)"
| "net_do (NLose i) w = (if i < length (wd_net w) then w\<lparr>wd_net := take i (wd_net w) @ drop (Suc i) (wd_net w)\<rparr> else w)"

lemma net_do_step: "net_do e w = w \<or> net_step w (net_do e w)"
proof (cases e)
  case (NArrive i exn sd)
  then show ?thesis using net_arrive[OF id_take_nth_drop[of i "wd_net w"]] by (auto simp: Let_def split: option.split)
next
  case (NLose i)
  then show ?thesis using net_lose[OF id_take_nth_drop[of i "wd_net w"]] by auto
qed (auto simp: net_act net_take split: option.split prod.split)

lemma net_run_reach: "net_reach w \<Longrightarrow> net_reach (run_events net_do es w)"
proof (induction es arbitrary: w)
  case (Cons e es)
  have "net_reach (net_do e w)" using net_do_step[of e w] Cons.prems by (auto intro: net_more)
  then show ?case using Cons.IH by simp
qed simp

definition start_world :: "string list \<Rightarrow> world" where
  "start_world ids = \<lparr>wd_nodes = map (\<lambda>p. (p, \<lparr>nd_page = calls_init, nd_known = ids, nd_taken = 0, nd_out = [], nd_got = []\<rparr>)) ids, wd_net = []\<rparr>"

lemma start_world_reach: "[] \<notin> set ids \<Longrightarrow> net_reach (run_events net_do es (start_world ids))"
  by (intro net_run_reach net_start)
     (auto simp: start_world_def node_at_def fresh_node_def calls_init_def ui_init_def sent_def new_store_def ui.defs js_defs
        dest!: map_of_SomeD)

subsection \<open>What holds in every network\<close>

lemma read_handler:
  "read_event m d exn sd = Some e \<Longrightarrow> \<not> own_event e \<and> (\<exists>h. (''media'', m, h) \<in> set webrtc_hooks)"
  by (auto simp: read_event_def webrtc_hooks_def split: if_splits option.split_asm)

lemma node_okD: "net_ok w \<Longrightarrow> node_at p w = Some n \<Longrightarrow> peer_ok p n"
  by (simp add: net_ok_def)

lemma out_named: "peer_ok p n \<Longrightarrow> pk \<in> set (nd_out n) \<Longrightarrow> pk_from pk = p \<and> pk_to pk \<noteq> p \<and> p \<noteq> [] \<and> readable pk"
  unfolding peer_ok_def node_ok_def by blast

lemma got_from:
  assumes "net_ok w" "node_at q w = Some n" "pk \<in> set (nd_got n)"
  obtains np where "node_at (pk_from pk) w = Some np" "pk \<in> set (nd_out np)" "peer_ok (pk_from pk) np"
    "count (mset (nd_got n)) pk + count (mset (wd_net w)) pk \<le> count (mset (nd_out np)) pk" "pk_to pk = q"
proof -
  have q: "pk_to pk = q" using assms by (auto simp: net_ok_def peer_ok_def node_ok_def)
  have c: "count (mset (nd_got n)) pk + count (mset (wd_net w)) pk \<le> out_count pk w"
    using assms(1) node_counts(1)[OF assms(2) q] by (simp add: net_ok_def) metis
  moreover have "0 < count (mset (nd_got n)) pk" using assms(3) by simp
  ultimately have "0 < out_count pk w" by linarith
  then obtain np where "node_at (pk_from pk) w = Some np" "0 < count (mset (nd_out np)) pk"
    unfolding out_count_def by (cases "node_at (pk_from pk) w") simp_all
  then have np: "node_at (pk_from pk) w = Some np" "pk \<in> set (nd_out np)" by auto
  then show thesis using that[of np] c q assms(1) by (simp add: out_count_def net_ok_def)
qed

lemma count_map: "count (mset xs) x \<le> count (mset (map f xs)) (f x)"
  by (induction xs) auto

lemma count_subseq: "subseq xs ys \<Longrightarrow> count (mset xs) x \<le> count (mset ys) x"
  by (induction rule: list_emb.induct) auto

lemma out_sent:
  assumes "peer_ok p n"
  shows "count (mset (nd_out n)) pk \<le> count (mset (map body_of (sent (nd_page n)))) (pk_body pk)"
proof -
  have "count (mset (nd_out n)) pk \<le> count (mset (map pk_body (nd_out n))) (pk_body pk)" by (rule count_map)
  also have "\<dots> \<le> count (mset (map body_of (take (nd_taken n) (sent (nd_page n))))) (pk_body pk)"
    using assms by (intro count_subseq) (simp add: peer_ok_def node_ok_def)
  also have "\<dots> \<le> count (mset (map body_of (sent (nd_page n)))) (pk_body pk)"
    by (subst (2) append_take_drop_id[of "nd_taken n", symmetric]) (simp del: append_take_drop_id)
  finally show ?thesis .
qed


text \<open>C20: the protocol between clients is typed: a packet in flight carries all the fields, of the right types, that
  the handler of its method reads at the recipient, and there is such a handler; whatever the pages do, in
  whatever order the network delivers and whatever it loses.\<close>

theorem wire_typed:
  assumes "net_reach w" "pk \<in> set (wd_net w)"
  shows "\<exists>m d h e. daemon_in (pk_to pk) pk = Some (m, d) \<and> (''media'', m, h) \<in> set webrtc_hooks
    \<and> read_event m d exn sd = Some e \<and> \<not> own_event e"
proof -
  have ok: "net_ok w" by (rule net_ok_reach[OF assms(1)])
  have "0 < count (mset (wd_net w)) pk" using assms(2) by simp
  moreover have "got_count pk w + count (mset (wd_net w)) pk \<le> out_count pk w" using ok unfolding net_ok_def by blast
  ultimately have "0 < out_count pk w" by linarith
  then obtain n where n: "node_at (pk_from pk) w = Some n" "pk \<in> set (nd_out n)"
    unfolding out_count_def by (cases "node_at (pk_from pk) w") auto
  then have "readable pk" "pk_from pk \<noteq> []" "pk_to pk \<noteq> pk_from pk"
    using out_named[OF node_okD[OF ok n(1)] n(2)] by simp_all
  moreover from this obtain m d where "daemon_in (pk_to pk) pk = Some (m, d)" by (simp add: daemon_in_def)
  ultimately show ?thesis using read_handler by (fastforce simp: readable_def)
qed


text \<open>C22: a viewer's page is in the control mode only after another page sent it an approved grant.\<close>

theorem control_needs_grant:
  assumes "net_reach w" "node_at q w = Some n" "in_control (nd_page n)"
  shows "\<exists>p np d. p \<noteq> q \<and> node_at p w = Some np \<and> (''media'', ''share_control_grant'', Some d) \<in> set (sent (nd_page np))
    \<and> str_at ''to'' d = Some q \<and> bool_at ''approved'' d = Some True"
proof -
  have ok: "net_ok w" by (rule net_ok_reach[OF assms(1)])
  then obtain pk where pk: "pk \<in> set (nd_got n)" "pk_m pk = ''share_control_grant''" "bool_at ''approved'' (pk_d pk) = Some True"
    using assms(2,3) unfolding net_ok_def peer_ok_def granted_def by blast
  obtain np where p: "node_at (pk_from pk) w = Some np" "pk \<in> set (nd_out np)" "peer_ok (pk_from pk) np" "pk_to pk = q"
    using got_from[OF ok assms(2) pk(1)] .
  have "0 < count (mset (nd_out np)) pk" using p(2) by simp
  then have "0 < count (mset (map body_of (sent (nd_page np)))) (pk_body pk)" using out_sent[OF p(3), of pk] by linarith
  then have "pk_body pk \<in> set (map body_of (sent (nd_page np)))" by (metis count_greater_zero_iff set_mset_mset)
  then obtain d where e: "(''media'', ''share_control_grant'', d) \<in> set (sent (nd_page np))" "getStr d ''to'' [] = q"
    "pk_d pk = without ''to'' d"
    using p(4) pk(2) by (auto simp: body_of_def pk_body_def)
  have q: "q \<noteq> []" "pk_from pk \<noteq> q" using node_okD[OF ok assms(2)] out_named[OF p(3,2)] p(4) by (simp add: peer_ok_def, metis)
  obtain j where j: "d = Some j" using e(2) q by (cases d) (auto simp: getStr_def)
  have "str_at ''to'' j = Some q" using e(2) q by (auto simp: getStr_def str_at_def j split: option.splits json.splits)
  moreover have "bool_at ''approved'' j = Some True" using pk(3) by (simp add: e(3) j bool_at_def jfield_without)
  ultimately show ?thesis using e(1) p(1) q by (auto simp: j)
qed

definition share_run :: "net_event list" where
  "share_run = [NAct ''alice'' (PCall (CHost (HOpen ''r'' (Some ''team'') 1))),
     NAct ''alice'' (PCall (CHost (HInvite 0 ''r'' ''bob'' ''c'' 1 some_sdp))), NTake ''alice'', NTake ''alice'']"

definition grant_run :: "net_event list" where
  "grant_run = [NArrive 0 None some_sdp, NAct ''alice'' (PCall (CHost (HControlResolve ''bob'' True))),
     NTake ''alice'', NTake ''alice'', NArrive 1 None some_sdp]"

definition shared :: world where
  "shared = run_events net_do share_run (start_world [''alice'', ''bob''])"

definition controlled :: world where
  "controlled = run_events net_do grant_run shared"

lemma shared_net: "wd_net shared \<noteq> []"
  by code_simp

lemma controlled_bob:
  obtains n where "node_at ''bob'' controlled = Some n" "in_control (nd_page n)" "nd_got n \<noteq> []"
proof -
  have "(case node_at ''bob'' controlled of None \<Rightarrow> False | Some n \<Rightarrow> in_control (nd_page n) \<and> nd_got n \<noteq> [])"
    by code_simp
  then show thesis using that by (cases "node_at ''bob'' controlled") simp_all
qed

lemma runs_reach: "net_reach shared" "net_reach controlled"
proof -
  show s: "net_reach shared" unfolding shared_def by (rule start_world_reach) simp
  show "net_reach controlled" unfolding controlled_def by (rule net_run_reach[OF s])
qed

theorem wire_typed_witness:
  "\<exists>pk m d e. pk \<in> set (wd_net shared) \<and> daemon_in (pk_to pk) pk = Some (m, d) \<and> read_event m d None some_sdp = Some e"
proof -
  obtain pk where "pk \<in> set (wd_net shared)" using shared_net by (meson hd_in_set)
  then show ?thesis using wire_typed[OF runs_reach(1), of pk None some_sdp] by meson
qed


theorem control_needs_grant_witness:
  "\<exists>p np d. p \<noteq> ''bob'' \<and> node_at p controlled = Some np \<and> (''media'', ''share_control_grant'', Some d) \<in> set (sent (nd_page np))"
proof -
  obtain n where n: "node_at ''bob'' controlled = Some n" "in_control (nd_page n)" by (rule controlled_bob)
  show ?thesis using control_needs_grant[OF runs_reach(2) n] by meson
qed

end
