(* ===== verification/Share_Control.thy ===== *)
theory Share_Control
  imports Network
begin

text \<open>
  The protocol by which a viewer of a share gets and loses the control of the shared screen, over the network of
  \<open>Network\<close>: the viewer asks, the host grants or denies, the viewer leaves or the host revokes. \<open>control_view\<close>
  is what both sides should agree on; each round of the protocol, run until no message is left, does to it
  what the abstract specification says.
\<close>

subsection \<open>Rounds\<close>

text \<open>The daemon of a node takes all messages of its page.\<close>

definition drain_node :: "string \<Rightarrow> world \<Rightarrow> world" where
  "drain_node p w =
     (case node_at p w of None \<Rightarrow> w
      | Some n \<Rightarrow> run_events net_do (replicate (length (sent (nd_page n)) - nd_taken n) (NTake p)) w)"

definition first_arrives :: "session_description \<Rightarrow> world \<Rightarrow> world" where
  "first_arrives sd = net_do (NArrive 0 None sd)"

text \<open>An event at \<open>p\<close>, its message to \<open>q\<close>, the reaction of \<open>q\<close> and the reaction of \<open>p\<close> to that.\<close>

definition exchange :: "session_description \<Rightarrow> string \<Rightarrow> string \<Rightarrow> client_event \<Rightarrow> world \<Rightarrow> world" where
  "exchange sd p q e w =
     drain_node p (first_arrives sd (drain_node q (first_arrives sd (drain_node p (net_do (NAct p e) w)))))"

definition outbox :: "string \<Rightarrow> string list \<Rightarrow> (string \<times> string \<times> json option) list \<Rightarrow> packet list" where
  "outbox p known es = List.map_filter (daemon_out p known) es"

lemma outbox_simps [simp]:
  "outbox p known [] = []"
  "outbox p known (e # es) = (case daemon_out p known e of None \<Rightarrow> outbox p known es | Some pk \<Rightarrow> pk # outbox p known es)"
  by (simp_all add: outbox_def map_filter_simps split: option.split)

definition drained :: "string \<Rightarrow> node \<Rightarrow> node" where
  "drained p n = n\<lparr>nd_taken := length (sent (nd_page n)),
     nd_out := nd_out n @ outbox p (nd_known n) (drop (nd_taken n) (sent (nd_page n)))\<rparr>"

lemma put_put [simp]: "put_node p a (put_node p b w) = put_node p a w"
  by (simp add: put_node_def js_defs)

lemma put_net [simp]: "put_node p a (w\<lparr>wd_net := x\<rparr>) = (put_node p a w)\<lparr>wd_net := x\<rparr>"
  by (simp add: put_node_def)

lemma put_same: "node_at p w = Some n \<Longrightarrow> put_node p n w = w"
  by (cases w) (simp add: put_node_def node_at_def js_defs update_triv)

lemma drain_node_eq:
  assumes "node_at p w = Some n" "nd_taken n \<le> length (sent (nd_page n))"
  shows "drain_node p w = (put_node p (drained p n) w)\<lparr>wd_net := wd_net w @ outbox p (nd_known n) (drop (nd_taken n) (sent (nd_page n)))\<rparr>"
proof -
  have "run_events net_do (replicate k (NTake p)) w
      = (put_node p (drained p n) w)\<lparr>wd_net := wd_net w @ outbox p (nd_known n) (drop (nd_taken n) (sent (nd_page n)))\<rparr>"
    if "node_at p w = Some n" "k + nd_taken n = length (sent (nd_page n))" for k w n
    using that
  proof (induction k arbitrary: w n)
    case 0
    have "drained p n = n" using 0(2) by (cases n) (simp add: drained_def)
    then show ?case using put_same[OF 0(1)] 0(2) by simp
  next
    case (Suc k)
    define e where "e = sent (nd_page n) ! nd_taken n"
    define pks where "pks = (case daemon_out p (nd_known n) e of None \<Rightarrow> [] | Some pk \<Rightarrow> [pk])"
    define n' where "n' = n\<lparr>nd_taken := Suc (nd_taken n), nd_out := nd_out n @ pks\<rparr>"
    have lt: "nd_taken n < length (sent (nd_page n))" using Suc.prems by simp
    have step: "net_do (NTake p) w = (put_node p n' w)\<lparr>wd_net := wd_net w @ pks\<rparr>"
      using lt Suc.prems by (simp add: take_next_def Let_def n'_def pks_def e_def)
    have "drop (nd_taken n) (sent (nd_page n)) = e # drop (Suc (nd_taken n)) (sent (nd_page n))"
      by (simp add: Cons_nth_drop_Suc[OF lt] e_def)
    then have box: "outbox p (nd_known n) (drop (nd_taken n) (sent (nd_page n)))
        = pks @ outbox p (nd_known n) (drop (Suc (nd_taken n)) (sent (nd_page n)))"
      by (simp add: pks_def split: option.split)
    have "drained p n' = drained p n" by (simp add: drained_def n'_def box)
    then show ?case using Suc.IH[of "(put_node p n' w)\<lparr>wd_net := wd_net w @ pks\<rparr>" n'] Suc.prems(2) step
      by (simp add: n'_def box)
  qed
  then show ?thesis using assms by (simp add: drain_node_def)
qed

text \<open>The node \<open>p\<close> of a world has this page, its daemon knows these peers and took that many messages.\<close>

definition holds :: "world \<Rightarrow> string \<Rightarrow> calls \<Rightarrow> string list \<Rightarrow> nat \<Rightarrow> bool" where
  "holds w p s known t \<longleftrightarrow> (\<exists>n. node_at p w = Some n \<and> nd_page n = s \<and> nd_known n = known \<and> nd_taken n = t)"

definition others_same :: "string \<Rightarrow> world \<Rightarrow> world \<Rightarrow> bool" where
  "others_same p w w' \<longleftrightarrow> (\<forall>r. r \<noteq> p \<longrightarrow> node_at r w' = node_at r w)"

lemma holds_other: "others_same p w w' \<Longrightarrow> r \<noteq> p \<Longrightarrow> holds w' r s known t = holds w r s known t"
  by (simp add: others_same_def holds_def)

lemma act_holds:
  assumes "holds w p s known t" "own_event e"
  shows "holds (net_do (NAct p e) w) p (client_step e s) known t \<and> wd_net (net_do (NAct p e) w) = wd_net w
    \<and> others_same p w (net_do (NAct p e) w)"
  using assms by (auto simp: holds_def others_same_def)

lemma drain_holds:
  assumes "holds w p s known t" "t \<le> length (sent s)"
  shows "holds (drain_node p w) p s known (length (sent s)) \<and> wd_net (drain_node p w) = wd_net w @ outbox p known (drop t (sent s))
    \<and> others_same p w (drain_node p w)"
  using assms drain_node_eq[of p w] by (auto simp: holds_def others_same_def drained_def)

text \<open>A page after the first of some packets reached it.\<close>

definition page_after :: "string \<Rightarrow> session_description \<Rightarrow> packet list \<Rightarrow> calls \<Rightarrow> calls" where
  "page_after q sd pks s =
     (case pks of [] \<Rightarrow> s
      | pk # _ \<Rightarrow> (case Option.bind (daemon_in q pk) (\<lambda>(m, d). read_event m d None sd) of None \<Rightarrow> s | Some e \<Rightarrow> client_step e s))"

lemma arrive_holds:
  assumes "holds w q s known t" "wd_net w = pks" "\<forall>pk \<in> set pks. pk_to pk = q" "length pks \<le> 1"
  shows "holds (first_arrives sd w) q (page_after q sd pks s) known t \<and> wd_net (first_arrives sd w) = []
    \<and> others_same q w (first_arrives sd w)"
proof (cases pks)
  case (Cons pk ys)
  then have "ys = []" using assms(4) by simp
  obtain n where n: "node_at q w = Some n" "nd_page n = s" "nd_known n = known" "nd_taken n = t"
    using assms(1) unfolding holds_def by blast
  have f: "first_arrives sd w = (put_node q (arrive q pk None sd n) w)\<lparr>wd_net := []\<rparr>"
    using assms(2,3) n(1) Cons \<open>ys = []\<close> by (simp add: first_arrives_def)
  have "nd_page (arrive q pk None sd n) = page_after q sd pks s" "nd_known (arrive q pk None sd n) = known"
    "nd_taken (arrive q pk None sd n) = t"
    using n by (simp_all add: arrive_def page_after_def Cons Let_def split: option.split)
  then show ?thesis unfolding f by (simp add: holds_def others_same_def)
qed (use assms in \<open>simp_all add: first_arrives_def page_after_def others_same_def\<close>)

text \<open>The three pages of an exchange: what \<open>p\<close> sends, what \<open>q\<close> replies, and that nothing is left.\<close>

lemma exchange_holds:
  assumes w: "wd_net w = []" "p \<noteq> q" "own_event e"
    and P: "holds w p s known (length (sent s))" and Q: "holds w q u known' (length (sent u))"
    and s1: "sent (client_step e s) = sent s @ es" "outbox p known es = pks" "length pks \<le> 1" "\<forall>pk \<in> set pks. pk_to pk = q"
    and u1: "sent (page_after q sd pks u) = sent u @ fs" "outbox q known' fs = qks" "length qks \<le> 1" "\<forall>pk \<in> set qks. pk_to pk = p"
    and s2: "sent (page_after p sd qks (client_step e s)) = sent s @ es @ gs" "outbox p known gs = []"
  shows "holds (exchange sd p q e w) p (page_after p sd qks (client_step e s)) known (length (sent s @ es @ gs))
    \<and> holds (exchange sd p q e w) q (page_after q sd pks u) known' (length (sent u @ fs))
    \<and> wd_net (exchange sd p q e w) = [] \<and> (\<forall>r. r \<noteq> p \<and> r \<noteq> q \<longrightarrow> node_at r (exchange sd p q e w) = node_at r w)"
proof -
  define w1 where "w1 = net_do (NAct p e) w"
  have 1: "holds w1 p (client_step e s) known (length (sent s))" "wd_net w1 = []" "others_same p w w1"
    using act_holds[OF P w(3)] w(1) by (simp_all add: w1_def)
  define w2 where "w2 = drain_node p w1"
  have 2: "holds w2 p (client_step e s) known (length (sent s @ es))" "wd_net w2 = pks" "others_same p w1 w2"
    using drain_holds[OF 1(1)] 1(2) s1(1,2) by (simp_all add: w2_def)
  have Q2: "holds w2 q u known' (length (sent u))"
    using Q w(2) holds_other[OF 1(3), of q] holds_other[OF 2(3), of q] by simp
  define w3 where "w3 = first_arrives sd w2"
  have 3: "holds w3 q (page_after q sd pks u) known' (length (sent u))" "wd_net w3 = []" "others_same q w2 w3"
    using arrive_holds[OF Q2 2(2) s1(4,3)] by (simp_all add: w3_def)
  define w4 where "w4 = drain_node q w3"
  have 4: "holds w4 q (page_after q sd pks u) known' (length (sent u @ fs))" "wd_net w4 = qks" "others_same q w3 w4"
    using drain_holds[OF 3(1)] 3(2) u1(1,2) by (simp_all add: w4_def)
  have P4: "holds w4 p (client_step e s) known (length (sent s @ es))"
    using 2(1) w(2) holds_other[OF 3(3), of p] holds_other[OF 4(3), of p] by simp
  define w5 where "w5 = first_arrives sd w4"
  have 5: "holds w5 p (page_after p sd qks (client_step e s)) known (length (sent s @ es))" "wd_net w5 = []" "others_same p w4 w5"
    using arrive_holds[OF P4 4(2) u1(4,3)] by (simp_all add: w5_def)
  have 6: "holds (drain_node p w5) p (page_after p sd qks (client_step e s)) known (length (sent s @ es @ gs))"
    "wd_net (drain_node p w5) = []" "others_same p w5 (drain_node p w5)"
    using drain_holds[OF 5(1)] 5(2) s2 by simp_all
  have x: "exchange sd p q e w = drain_node p w5"
    by (simp add: exchange_def w5_def w4_def w3_def w2_def w1_def)
  have "holds (drain_node p w5) q (page_after q sd pks u) known' (length (sent u @ fs))"
    using 4(1) w(2) holds_other[OF 5(3), of q] holds_other[OF 6(3), of q] by simp
  moreover have "node_at r (drain_node p w5) = node_at r w" if "r \<noteq> p" "r \<noteq> q" for r
    using that 1(3) 2(3) 3(3) 4(3) 5(3) 6(3) by (simp add: others_same_def)
  ultimately show ?thesis unfolding x using 6 by blast
qed


subsection \<open>The page of the host\<close>

definition asked :: "calls \<Rightarrow> string option" where
  "asked s = (case media (app s) of None \<Rightarrow> None | Some m \<Rightarrow> map_option fst (ms_ctrlReq m))"

text \<open>The share of the room is on display, and these members watch it.\<close>

definition hosting_page :: "string \<Rightarrow> string list \<Rightarrow> calls \<Rightarrow> bool" where
  "hosting_page rid vs s \<longleftrightarrow> rid \<noteq> [] \<and> share_overlay rid s \<and> mhas (ca_shares s) rid
     \<and> list_all (\<lambda>v. roomShareForMember v s = Some rid) vs"

definition same_share :: "string \<Rightarrow> calls \<Rightarrow> calls \<Rightarrow> bool" where
  "same_share rid s t \<longleftrightarrow> ca_shares t = ca_shares s \<and> ca_shareHeap t = ca_shareHeap s \<and> (share_overlay rid s \<longrightarrow> share_overlay rid t)"

lemma same_hosting: "same_share rid s t \<Longrightarrow> hosting_page rid vs s \<Longrightarrow> hosting_page rid vs t"
  by (simp add: same_share_def hosting_page_def roomShareForMember_def)

lemma member_share: "hosting_page rid vs s \<Longrightarrow> v \<in> set vs \<Longrightarrow> truthy (roomShareForMember v s) = Some rid"
  by (simp add: hosting_page_def list_all_iff truthy_def)

lemma overlay_media:
  assumes "hosting_page rid vs s"
  obtains m where "media (app s) = Some m" "ms_roomShare m" "ms_callId m = rid"
  using assms by (auto simp: hosting_page_def share_overlay_def split: option.split_asm)

definition disarm_msg :: "string \<times> string \<times> json option" where
  "disarm_msg = (''media'', ''remote_host'', Some (host_text False))"

definition arm_msg :: "string \<times> string \<times> json option" where
  "arm_msg = (''media'', ''remote_host'', Some (host_text True))"

lemma sync_host:
  assumes "share_overlay rid s"
  shows "same_share rid s (syncShareControllers rid cl di s) \<and> ca_ctrl (syncShareControllers rid cl di s) = ca_ctrl s
    \<and> sent (syncShareControllers rid cl di s) = sent s @ (if di \<and> roomShareControllers rid s = [] then [disarm_msg] else [])
    \<and> asked (syncShareControllers rid cl di s) = (if cl then None else asked s)"
  using assms
  by (auto simp: syncShareControllers_def Let_def same_share_def share_overlay_def asked_def disarm_def disarm_msg_def
      split: option.split_asm)

lemma drop_host:
  "same_share rid s (drop_ctrl rid v s) \<and> media (app (drop_ctrl rid v s)) = media (app s) \<and> sent (drop_ctrl rid v s) = sent s
    \<and> roomShareControllers rid (drop_ctrl rid v s) = set_del v (roomShareControllers rid s)"
  by (auto simp: drop_ctrl_def same_share_def share_overlay_def roomShareControllers_def set_del_def split: option.split)

lemma controllers_ctrl: "ca_ctrl t = ca_ctrl s \<Longrightarrow> roomShareControllers rid t = roomShareControllers rid s"
  by (simp add: roomShareControllers_def)

text \<open>What each operation of the host does to its side of the protocol.\<close>

definition host_does :: "string \<Rightarrow> calls \<Rightarrow> string option \<Rightarrow> string list \<Rightarrow> (string \<times> string \<times> json option) list \<Rightarrow> calls \<Rightarrow> bool" where
  "host_does rid s ask members msgs t \<longleftrightarrow> same_share rid s t \<and> asked t = ask \<and> roomShareControllers rid t = members
     \<and> sent t = sent s @ msgs"

lemma host_ask:
  assumes "hosting_page rid vs s" "v \<in> set vs"
  shows "host_does rid s (Some v) (roomShareControllers rid s) [] (on_control_request v s)"
proof -
  obtain m where m: "media (app s) = Some m" "ms_roomShare m" "ms_callId m = rid" using overlay_media[OF assms(1)] .
  then have "share_overlay rid s" by (simp add: share_overlay_def)
  then have t: "on_control_request v s = set_media (\<lambda>m. m\<lparr>ms_ctrlReq := Some (v, peer_label v s)\<rparr>) s"
    by (simp add: on_control_request_def member_share[OF assms] Let_def)
  show ?thesis using m unfolding t
    by (simp add: host_does_def same_share_def asked_def share_overlay_def roomShareControllers_def) (simp add: set_media_def)
qed

lemma host_decide:
  assumes "hosting_page rid vs s" "v \<in> set vs"
  shows "host_does rid s None (if ok then set_add v (roomShareControllers rid s) else roomShareControllers rid s)
    ((if ok then [arm_msg] else []) @ [(''media'', ''share_control_grant'', Some (verdict_json v rid ok))])
    (snd (resolveShareControlRequest v ok None s))"
proof -
  define u where "u = send ''media'' ''share_control_grant'' (Some (verdict_json v rid ok))
    (if ok then send ''media'' ''remote_host'' (Some (host_text True))
       (s\<lparr>ca_ctrl := mset_key rid (set_add v (roomShareControllers rid s)) (ca_ctrl s)\<rparr>) else s)"
  have o: "share_overlay rid u"
    using assms(1) by (auto simp: u_def hosting_page_def share_overlay_def)
  have "same_share rid s u" "sent u = sent s @ (if ok then [arm_msg] else []) @ [(''media'', ''share_control_grant'', Some (verdict_json v rid ok))]"
    "roomShareControllers rid u = (if ok then set_add v (roomShareControllers rid s) else roomShareControllers rid s)"
    by (simp_all add: u_def same_share_def share_overlay_def arm_msg_def roomShareControllers_def)
  moreover have "snd (resolveShareControlRequest v ok None s) = syncShareControllers rid True False u"
    by (simp add: resolveShareControlRequest_def member_share[OF assms] Let_def u_def)
  ultimately show ?thesis
    using sync_host[OF o, of True False] controllers_ctrl[of "syncShareControllers rid True False u" u]
    by (simp add: host_does_def same_share_def)
qed

text \<open>Taking a member from the controllers disarms the daemon with the last one.\<close>

definition disarms :: "string \<Rightarrow> string list \<Rightarrow> (string \<times> string \<times> json option) list" where
  "disarms v members = (if set_del v members = [] then [disarm_msg] else [])"

lemma host_drop:
  assumes "hosting_page rid vs s"
  shows "host_does rid s (asked s) (set_del v (roomShareControllers rid s)) (disarms v (roomShareControllers rid s))
    (toast n (syncShareControllers rid False True (drop_ctrl rid v s)))"
proof -
  have o: "share_overlay rid (drop_ctrl rid v s)" using assms drop_host[of rid s v] by (simp add: hosting_page_def same_share_def)
  show ?thesis
    using sync_host[OF o, of False True] drop_host[of rid s v] controllers_ctrl[of "syncShareControllers rid False True (drop_ctrl rid v s)" "drop_ctrl rid v s"]
    by (simp add: host_does_def same_share_def disarms_def asked_def share_overlay_def roomShareControllers_def)
qed

lemma host_release:
  assumes "hosting_page rid vs s" "v \<in> set vs"
  shows "host_does rid s (asked s) (set_del v (roomShareControllers rid s)) (disarms v (roomShareControllers rid s)) (on_control_release v s)"
  using host_drop[OF assms(1), of v] by (simp add: on_control_release_def member_share[OF assms] Let_def)


lemma host_revoke:
  assumes "hosting_page rid vs s" "v \<in> set (roomShareControllers rid s)"
  shows "host_does rid s (asked s) (set_del v (roomShareControllers rid s))
    ((''media'', ''share_control_revoke'', Some (room_json v rid)) # disarms v (roomShareControllers rid s))
    (snd (revokeShareControl rid v s))"
proof -
  define u where "u = send ''media'' ''share_control_revoke'' (Some (room_json v rid)) (drop_ctrl rid v s)"
  have d: "same_share rid s (drop_ctrl rid v s)" "media (app (drop_ctrl rid v s)) = media (app s)"
    "sent (drop_ctrl rid v s) = sent s" "roomShareControllers rid (drop_ctrl rid v s) = set_del v (roomShareControllers rid s)"
    using drop_host[of rid s v] by simp_all
  have u: "same_share rid s u" "share_overlay rid u" "sent u = sent s @ [(''media'', ''share_control_revoke'', Some (room_json v rid))]"
    "roomShareControllers rid u = set_del v (roomShareControllers rid s)" "asked u = asked s"
    using d assms(1) by (simp_all add: u_def same_share_def share_overlay_def roomShareControllers_def asked_def hosting_page_def)
  have t: "snd (revokeShareControl rid v s) = toast (NYouRevoked (peer_label v s)) (syncShareControllers rid False True u)"
    using assms by (simp add: revokeShareControl_def hosting_page_def Let_def u_def)
  show ?thesis
    using sync_host[OF u(2), of False True] u controllers_ctrl[of "syncShareControllers rid False True u" u]
    unfolding t by (simp add: host_does_def same_share_def share_overlay_def asked_def disarms_def roomShareControllers_def)
qed

lemma host_offer: "host_does rid s (asked s) (roomShareControllers rid s) [] (on_offer c from sd fs s)"
proof -
  have g: "same_share rid s u \<and> media (app u) = media (app s) \<and> ca_ctrl u = ca_ctrl s \<and> sent u = sent s"
    if "get_session c p m s = (a, u)" for p m a u
    using that by (auto simp: get_session_def newSession_def Let_def same_share_def share_overlay_def sent_def split: option.splits)
  obtain a u where u: "get_session c from (case mget (ca_pending s) c of None \<Rightarrow> Voice | Some p \<Rightarrow> pd_mode p) s = (a, u)"
    by fastforce
  have upd: "same_share rid s t \<and> media (app t) = media (app s) \<and> ca_ctrl t = ca_ctrl s \<and> sent t = sent s
      \<Longrightarrow> host_does rid s (asked s) (roomShareControllers rid s) [] t" for t
    by (simp add: host_does_def asked_def roomShareControllers_def)
  show ?thesis
    by (rule upd) (use g[OF u] in \<open>auto simp: on_offer_def u Let_def answer_with_def addTrackFrom_def onSignal_def log_obj_def
        same_share_def share_overlay_def sent_def split: option.split\<close>)
qed

subsection \<open>The page of a viewer\<close>

definition viewer_page :: "string \<Rightarrow> string \<Rightarrow> calls \<Rightarrow> bool" where
  "viewer_page h c s \<longleftrightarrow> h \<noteq> [] \<and> c \<noteq> []
     \<and> (case media (app s) of None \<Rightarrow> False
        | Some m \<Rightarrow> mp_mode (ms_peer m) = Share \<and> mp_deviceId (ms_peer m) = h \<and> ms_callId m = c)
     \<and> (case mget (ca_sessions s) c of None \<Rightarrow> False
        | Some y \<Rightarrow> y < length (ca_heap s) \<and> so_callId (obj y s) = c \<and> so_peerId (obj y s) = h)"

definition viewer_does :: "string \<Rightarrow> string \<Rightarrow> calls \<Rightarrow> bool \<Rightarrow> (string \<times> string \<times> json option) list \<Rightarrow> calls \<Rightarrow> bool" where
  "viewer_does h c s ctrl msgs t \<longleftrightarrow> viewer_page h c t \<and> in_control t = ctrl \<and> sent t = sent s @ msgs"

lemma viewer_host: "viewer_page h c s \<Longrightarrow> media_peer_id s = Some h"
  by (auto simp: viewer_page_def media_peer_id_def truthy_def split: option.split_asm)

lemma viewer_overlay:
  assumes "viewer_page h c s"
  obtains m y where "media (app s) = Some m" "mp_mode (ms_peer m) = Share" "mp_deviceId (ms_peer m) = h" "ms_callId m = c"
    "mget (ca_sessions s) c = Some y" "y < length (ca_heap s)" "so_callId (obj y s) = c" "so_peerId (obj y s) = h"
  using assms by (auto simp: viewer_page_def split: option.split_asm)

lemma media_set [simp]: "media (app (set_media f s)) = map_option f (media (app s))" for s :: calls
  by (simp add: set_media_def)

lemma viewer_same:
  assumes "viewer_page h c s" "media (app t) = map_option f (media (app s))" "\<And>m. ms_peer (f m) = ms_peer m \<and> ms_callId (f m) = ms_callId m"
    "ca_sessions t = ca_sessions s" "ca_heap t = ca_heap s"
  shows "viewer_page h c t"
  using assms by (auto simp: viewer_page_def obj_def split: option.split_asm)

lemma viewer_keeps: "viewer_page h c s \<Longrightarrow> media (app t) = media (app s) \<Longrightarrow> ca_sessions t = ca_sessions s \<Longrightarrow> ca_heap t = ca_heap s
    \<Longrightarrow> sent t = sent s @ msgs \<Longrightarrow> viewer_does h c s (in_control s) msgs t"
  using viewer_same[of h c s t "\<lambda>m. m"] by (simp add: viewer_does_def in_control_def option.map_ident)

lemma viewer_ask:
  assumes "viewer_page h c s"
  shows "viewer_does h c s (in_control s) [(''media'', ''share_control_request'', Some (room_json h c))] (snd (requestShareControl c s))"
  by (rule viewer_keeps[OF assms]) (simp_all add: requestShareControl_def viewer_host[OF assms])

lemma viewer_leave:
  assumes "viewer_page h c s"
  shows "viewer_does h c s False [(''media'', ''share_control_release'', Some (room_json h c))] (disableShareControl (Some c) s)"
proof -
  have c: "truthy (Some c) = Some c" using assms by (simp add: truthy_def viewer_page_def)
  have t: "disableShareControl (Some c) s = set_media (\<lambda>m. m\<lparr>ms_ctrl := False\<rparr>) (send ''media'' ''share_control_release'' (Some (room_json h c)) s)"
    by (simp add: disableShareControl_def viewer_host[OF assms] c)
  have "viewer_page h c (disableShareControl (Some c) s)"
    unfolding t by (rule viewer_same[OF assms, where f = "\<lambda>m. m\<lparr>ms_ctrl := False\<rparr>"]) simp_all
  then show ?thesis unfolding t by (simp add: viewer_does_def in_control_def split: option.split)
qed

lemma viewer_revoked:
  assumes "viewer_page h c s"
  shows "viewer_does h c s False [(''media'', ''share_control_release'', Some (room_json h c))] (on_control_revoke s)"
proof -
  obtain m where m: "media (app s) = Some m" "mp_mode (ms_peer m) = Share" "ms_callId m = c" using viewer_overlay[OF assms] by metis
  then have t: "on_control_revoke s = toast NControlRevoked (disableShareControl (Some c) s)" by (simp add: on_control_revoke_def)
  have v: "viewer_does h c s False [(''media'', ''share_control_release'', Some (room_json h c))] (disableShareControl (Some c) s)"
    by (rule viewer_leave[OF assms])
  have "viewer_page h c (on_control_revoke s)" unfolding t
    by (rule viewer_same[where f = "\<lambda>m. m" and s = "disableShareControl (Some c) s"]) (use v in \<open>simp_all add: viewer_does_def option.map_ident\<close>)
  then show ?thesis using v by (simp add: t viewer_does_def in_control_def)
qed

lemma viewer_denied:
  assumes "viewer_page h c s"
  shows "viewer_does h c s (in_control s) [] (on_control_grant False exn sd s)"
  by (rule viewer_keeps[OF assms]) (simp_all add: on_control_grant_def)

text \<open>A granted viewer takes its open channel again, or opens one and renegotiates with an offer.\<close>

lemma viewer_granted:
  assumes "viewer_page h c s"
  shows "\<exists>msgs. viewer_does h c s True msgs (on_control_grant True None sd s)
    \<and> (msgs = [] \<or> msgs = [(''media'', ''offer'', Some (signal_json c h sd))])"
proof -
  obtain m y where m: "media (app s) = Some m" "mp_mode (ms_peer m) = Share" "mp_deviceId (ms_peer m) = h" "ms_callId m = c"
    and y: "mget (ca_sessions s) c = Some y" "y < length (ca_heap s)" "so_callId (obj y s) = c" "so_peerId (obj y s) = h"
    using viewer_overlay[OF assms] .
  have ne: "h \<noteq> []" "c \<noteq> []" using assms by (simp_all add: viewer_page_def)
  define reuse where "reuse \<longleftrightarrow> so_dc (obj y s) \<noteq> None \<and> so_dc (obj y s) \<noteq> Some DcClosed"
  define u where "u = (if reuse then s else sendOffer y sd (upd_obj y (\<lambda>ob. ob\<lparr>so_dc := Some DcConnecting, so_log := so_log ob @ [LChannel]\<rparr>) s))"
  have t: "on_control_grant True None sd s = set_media (\<lambda>m. m\<lparr>ms_ctrl := True\<rparr>) u"
    using m ne y by (simp add: on_control_grant_def enableShareControl_def attachRemoteDatachannel_def get_session_def
        Let_def reuse_def u_def)
  have "sent u = sent s @ (if reuse then [] else [(''media'', ''offer'', Some (signal_json c h sd))])"
    using y by (simp add: u_def sendOffer_def log_obj_def Let_def obj_upd_eq)
  moreover have "media (app u) = media (app s)" "ca_sessions u = ca_sessions s" "length (ca_heap u) = length (ca_heap s)"
    "so_callId (obj y u) = c" "so_peerId (obj y u) = h"
    using y by (simp_all add: u_def sendOffer_def log_obj_def Let_def obj_upd_eq)
  ultimately show ?thesis
    using m y ne unfolding t by (auto simp: viewer_does_def viewer_page_def in_control_def obj_def)
qed


subsection \<open>The messages of the protocol on the way\<close>

lemma outbox_append: "outbox p known (xs @ ys) = outbox p known xs @ outbox p known ys"
  by (induction xs) (auto split: option.split)

lemma outbox_own [simp]: "outbox p known (arm_msg # es) = outbox p known es" "outbox p known (disarm_msg # es) = outbox p known es"
  "outbox p known (disarms v l) = []"
  by (simp_all add: arm_msg_def disarm_msg_def disarms_def daemon_out_def relayed_def)

text \<open>Two nodes that know each other.\<close>

definition linked :: "string \<Rightarrow> string \<Rightarrow> string list \<Rightarrow> bool" where
  "linked p q known \<longleftrightarrow> p \<noteq> [] \<and> q \<noteq> [] \<and> p \<noteq> q \<and> q \<in> set known"

lemma outbox_addressed:
  assumes "linked p q known" "m \<noteq> ''remote_host''" "m \<noteq> ''remote_input''"
  shows "jfield ''to'' d = Some (JStr q) \<Longrightarrow> outbox p known [(''media'', m, Some d)]
    = [\<lparr>pk_from = p, pk_to = q, pk_m = m, pk_d = without ''to'' (Some d)\<rparr>]"
  using assms by (auto simp: linked_def daemon_out_def relayed_def getStr_def)

lemma page_after_none [simp]: "page_after q sd [] s = s"
  by (simp add: page_after_def)

lemmas message_defs = read_defs room_json_def verdict_json_def signal_json_def

definition pk_of :: "string \<Rightarrow> string \<Rightarrow> string \<Rightarrow> json \<Rightarrow> packet" where
  "pk_of p q m d = \<lparr>pk_from = p, pk_to = q, pk_m = m, pk_d = without ''to'' (Some d)\<rparr>"

lemma message_out:
  assumes "linked p q known"
  shows "outbox p known [(''media'', ''share_control_request'', Some (room_json q c))] = [pk_of p q ''share_control_request'' (room_json q c)]"
    and "outbox p known [(''media'', ''share_control_release'', Some (room_json q c))] = [pk_of p q ''share_control_release'' (room_json q c)]"
    and "outbox p known [(''media'', ''share_control_revoke'', Some (room_json q c))] = [pk_of p q ''share_control_revoke'' (room_json q c)]"
    and "outbox p known [(''media'', ''share_control_grant'', Some (verdict_json q c ok))] = [pk_of p q ''share_control_grant'' (verdict_json q c ok)]"
    and "outbox p known [(''media'', ''offer'', Some (signal_json c q sd'))] = [pk_of p q ''offer'' (signal_json c q sd')]"
  by (simp_all add: outbox_addressed[OF assms] pk_of_def room_json_def verdict_json_def signal_json_def del: outbox_simps(2))

lemma message_in:
  assumes "linked p q known"
  shows "page_after q sd [pk_of p q ''share_control_request'' (room_json q c)] s = on_control_request p s"
    and "page_after q sd [pk_of p q ''share_control_release'' (room_json q c)] s = on_control_release p s"
    and "page_after q sd [pk_of p q ''share_control_revoke'' (room_json q c)] s = on_control_revoke s"
    and "page_after q sd [pk_of p q ''share_control_grant'' (verdict_json q c ok)] s = on_control_grant ok None sd s"
    and "page_after q sd [pk_of p q ''offer'' (signal_json c q sd')] s = on_offer c p sd' False s"
  using assms by (simp_all add: pk_of_def page_after_def daemon_in_def linked_def message_defs)

lemma pk_of_to [simp]: "pk_to (pk_of p q m d) = q"
  by (simp add: pk_of_def)

subsection \<open>The specification of the protocol\<close>

text \<open>Who asks for control on the host's overlay, whom the host lists as controllers, whether its daemon injects,
  and which viewers are in the control mode.\<close>

record control_view =
  cv_ask :: "string option"
  cv_members :: "string list"
  cv_inject :: bool
  cv_mode :: "string \<Rightarrow> bool"

datatype round = RAsk string | RDecide string bool | RLeave string | RRevoke string

fun round_of :: "round \<Rightarrow> string" where
  "round_of (RAsk v) = v" | "round_of (RDecide v _) = v" | "round_of (RLeave v) = v" | "round_of (RRevoke v) = v"

definition spec_leave :: "string \<Rightarrow> control_view \<Rightarrow> control_view" where
  "spec_leave v a = a\<lparr>cv_members := set_del v (cv_members a), cv_inject := (cv_inject a \<and> set_del v (cv_members a) \<noteq> []),
     cv_mode := (cv_mode a)(v := False)\<rparr>"

fun control_spec :: "round \<Rightarrow> control_view \<Rightarrow> control_view" where
  "control_spec (RAsk v) a = a\<lparr>cv_ask := Some v\<rparr>"
| "control_spec (RDecide v ok) a =
     (if ok then a\<lparr>cv_ask := None, cv_members := set_add v (cv_members a), cv_inject := True, cv_mode := (cv_mode a)(v := True)\<rparr>
      else a\<lparr>cv_ask := None\<rparr>)"
| "control_spec (RLeave v) a = spec_leave v a"
| "control_spec (RRevoke v) a = (if v \<in> set (cv_members a) then spec_leave v a else a)"

text \<open>The rounds on the network: \<open>cs\<close> gives the call id of each viewer.\<close>

fun do_round :: "session_description \<Rightarrow> string \<Rightarrow> string \<Rightarrow> (string \<Rightarrow> string) \<Rightarrow> round \<Rightarrow> world \<Rightarrow> world" where
  "do_round sd h rid cs (RAsk v) w = exchange sd v h (PAskControl (cs v)) w"
| "do_round sd h rid cs (RDecide v ok) w = exchange sd h v (PCall (CHost (HControlResolve v ok))) w"
| "do_round sd h rid cs (RLeave v) w = exchange sd v h (PLeaveControl (Some (cs v))) w"
| "do_round sd h rid cs (RRevoke v) w = exchange sd h v (PCall (CHost (HRevoke rid v))) w"

definition page_of :: "string \<Rightarrow> world \<Rightarrow> calls" where
  "page_of p w = (case node_at p w of None \<Rightarrow> calls_init | Some n \<Rightarrow> nd_page n)"

definition known_of :: "string \<Rightarrow> world \<Rightarrow> string list" where
  "known_of p w = (case node_at p w of None \<Rightarrow> [] | Some n \<Rightarrow> nd_known n)"

text \<open>A node whose daemon took all messages.\<close>

definition ready :: "world \<Rightarrow> string \<Rightarrow> bool" where
  "ready w p \<longleftrightarrow> (case node_at p w of None \<Rightarrow> False | Some n \<Rightarrow> nd_taken n = length (sent (nd_page n)))"

text \<open>A quiet network in which \<open>h\<close> shares the room \<open>rid\<close> and the members \<open>vs\<close> watch.\<close>

definition share_session :: "string \<Rightarrow> string \<Rightarrow> string list \<Rightarrow> (string \<Rightarrow> string) \<Rightarrow> world \<Rightarrow> bool" where
  "share_session h rid vs cs w \<longleftrightarrow> wd_net w = [] \<and> ready w h \<and> hosting_page rid vs (page_of h w)
     \<and> list_all (\<lambda>v. ready w v \<and> linked h v (known_of h w) \<and> linked v h (known_of v w) \<and> viewer_page h (cs v) (page_of v w)) vs"

definition control_of :: "string \<Rightarrow> string \<Rightarrow> string list \<Rightarrow> world \<Rightarrow> control_view" where
  "control_of h rid vs w = \<lparr>cv_ask = asked (page_of h w), cv_members = roomShareControllers rid (page_of h w),
     cv_inject = hosting (sent (page_of h w)), cv_mode = (\<lambda>v. v \<in> set vs \<and> in_control (page_of v w))\<rparr>"

lemma ready_holds: "ready w p \<Longrightarrow> holds w p (page_of p w) (known_of p w) (length (sent (page_of p w)))"
  by (auto simp: ready_def holds_def page_of_def known_of_def split: option.split_asm)

lemma holds_ready: "holds w p s known (length (sent s)) \<Longrightarrow> ready w p \<and> page_of p w = s \<and> known_of p w = known"
  by (auto simp: ready_def holds_def page_of_def known_of_def)


subsection \<open>A round refines its specification\<close>

lemma session_viewer:
  assumes "share_session h rid vs cs w" "v \<in> set vs"
  shows "ready w v" "linked h v (known_of h w)" "linked v h (known_of v w)" "viewer_page h (cs v) (page_of v w)" "v \<noteq> h"
  using assms by (auto simp: share_session_def list_all_iff linked_def)

lemma session_host:
  assumes "share_session h rid vs cs w"
  shows "ready w h" "hosting_page rid vs (page_of h w)" "wd_net w = []"
  using assms by (simp_all add: share_session_def)

lemma session_update:
  assumes S: "share_session h rid vs cs w" and v: "v \<in> set vs"
    and w': "wd_net w' = []" "holds w' h s' (known_of h w) (length (sent s'))" "holds w' v u' (known_of v w) (length (sent u'))"
      "\<forall>r. r \<noteq> h \<and> r \<noteq> v \<longrightarrow> node_at r w' = node_at r w"
    and pages: "hosting_page rid vs s'" "viewer_page h (cs v) u'"
  shows "share_session h rid vs cs w' \<and> control_of h rid vs w'
    = \<lparr>cv_ask = asked s', cv_members = roomShareControllers rid s', cv_inject = hosting (sent s'),
       cv_mode = (cv_mode (control_of h rid vs w))(v := in_control u')\<rparr>"
proof -
  have h: "ready w' h" "page_of h w' = s'" "known_of h w' = known_of h w" using holds_ready[OF w'(2)] by simp_all
  have v': "ready w' v" "page_of v w' = u'" "known_of v w' = known_of v w" using holds_ready[OF w'(3)] by simp_all
  have vh: "x \<noteq> h" if "x \<in> set vs" for x using session_viewer[OF S that] by simp
  have same: "ready w' x = ready w x" "page_of x w' = page_of x w" "known_of x w' = known_of x w" if "x \<in> set vs" "x \<noteq> v" for x
    using w'(4) that vh[of x] by (simp_all add: ready_def page_of_def known_of_def)
  have "ready w' x \<and> linked h x (known_of h w') \<and> linked x h (known_of x w') \<and> viewer_page h (cs x) (page_of x w')"
    if "x \<in> set vs" for x
    using session_viewer[OF S that] same[OF that] h(3) v' pages(2) by (cases "x = v") simp_all
  moreover have "(\<lambda>x. x \<in> set vs \<and> in_control (page_of x w')) = (cv_mode (control_of h rid vs w))(v := in_control u')"
    using v v'(2) same by (intro ext) (auto simp: control_of_def)
  ultimately show ?thesis using w'(1) h pages(1) by (simp add: share_session_def control_of_def list_all_iff)
qed

text \<open>A round that a viewer begins.\<close>

lemma viewer_round:
  assumes S: "share_session h rid vs cs w" and v: "v \<in> set vs" and e: "own_event e"
    and V: "viewer_does h (cs v) (page_of v w) ctrl [msg] (client_step e (page_of v w))"
    and msg: "outbox v (known_of v w) [msg] = [pk]" "pk_to pk = h"
    and H: "host_does rid (page_of h w) ask mem ms (page_after h sd [pk] (page_of h w))" "outbox h (known_of h w) ms = []"
  shows "share_session h rid vs cs (exchange sd v h e w) \<and> control_of h rid vs (exchange sd v h e w)
    = \<lparr>cv_ask = ask, cv_members = mem, cv_inject = hosting (sent (page_of h w) @ ms),
       cv_mode = (cv_mode (control_of h rid vs w))(v := ctrl)\<rparr>"
proof -
  define s' where "s' = page_after h sd [pk] (page_of h w)"
  define u' where "u' = client_step e (page_of v w)"
  have u': "sent u' = sent (page_of v w) @ [msg]" "in_control u' = ctrl" "viewer_page h (cs v) u'"
    using V by (simp_all add: viewer_does_def u'_def)
  have s': "sent s' = sent (page_of h w) @ ms" "asked s' = ask" "roomShareControllers rid s' = mem" "same_share rid (page_of h w) s'"
    using H by (simp_all add: host_does_def s'_def)
  have x: "holds (exchange sd v h e w) v u' (known_of v w) (length (sent u'))
    \<and> holds (exchange sd v h e w) h s' (known_of h w) (length (sent s'))
    \<and> wd_net (exchange sd v h e w) = [] \<and> (\<forall>r. r \<noteq> v \<and> r \<noteq> h \<longrightarrow> node_at r (exchange sd v h e w) = node_at r w)"
    using exchange_holds[OF session_host(3)[OF S] session_viewer(5)[OF S v] e ready_holds[OF session_viewer(1)[OF S v]]
        ready_holds[OF session_host(1)[OF S]], where es = "[msg]" and pks = "[pk]" and fs = ms and qks = "[]" and gs = "[]" and sd = sd]
      u' s' msg H(2) by (simp add: u'_def[symmetric] s'_def[symmetric] del: outbox_simps(2))
  have "hosting_page rid vs s'" by (rule same_hosting[OF s'(4) session_host(2)[OF S]])
  then show ?thesis
    using session_update[OF S v, of "exchange sd v h e w" s' u'] x u' s' by auto
qed

text \<open>A round that the host begins; the viewer's reply reaches it again.\<close>

lemma host_round:
  assumes S: "share_session h rid vs cs w" and v: "v \<in> set vs" and e: "own_event e"
    and H: "host_does rid (page_of h w) ask mem ms (client_step e (page_of h w))" "outbox h (known_of h w) ms = [pk]" "pk_to pk = v"
    and V: "viewer_does h (cs v) (page_of v w) ctrl fs (page_after v sd [pk] (page_of v w))"
      "outbox v (known_of v w) fs = qks" "length qks \<le> 1" "\<forall>pk \<in> set qks. pk_to pk = h"
    and H2: "host_does rid (client_step e (page_of h w)) ask memb reaction (page_after h sd qks (client_step e (page_of h w)))"
      "outbox h (known_of h w) reaction = []"
  shows "share_session h rid vs cs (exchange sd h v e w) \<and> control_of h rid vs (exchange sd h v e w)
    = \<lparr>cv_ask = ask, cv_members = memb, cv_inject = hosting (sent (page_of h w) @ ms @ reaction),
       cv_mode = (cv_mode (control_of h rid vs w))(v := ctrl)\<rparr>"
proof -
  define s1 where "s1 = client_step e (page_of h w)"
  define s2 where "s2 = page_after h sd qks s1"
  define u' where "u' = page_after v sd [pk] (page_of v w)"
  have u': "sent u' = sent (page_of v w) @ fs" "in_control u' = ctrl" "viewer_page h (cs v) u'"
    using V by (simp_all add: viewer_does_def u'_def)
  have s1: "sent s1 = sent (page_of h w) @ ms" "same_share rid (page_of h w) s1" using H by (simp_all add: host_does_def s1_def)
  have s2: "sent s2 = sent (page_of h w) @ ms @ reaction" "asked s2 = ask" "roomShareControllers rid s2 = memb" "same_share rid s1 s2"
    using H2 s1(1) by (simp_all add: host_does_def s1_def s2_def)
  have x: "holds (exchange sd h v e w) h s2 (known_of h w) (length (sent s2))
    \<and> holds (exchange sd h v e w) v u' (known_of v w) (length (sent u'))
    \<and> wd_net (exchange sd h v e w) = [] \<and> (\<forall>r. r \<noteq> h \<and> r \<noteq> v \<longrightarrow> node_at r (exchange sd h v e w) = node_at r w)"
    using exchange_holds[OF session_host(3)[OF S] session_viewer(5)[OF S v, symmetric] e ready_holds[OF session_host(1)[OF S]]
        ready_holds[OF session_viewer(1)[OF S v]], where es = ms and pks = "[pk]" and fs = fs and qks = qks and gs = reaction and sd = sd]
      u' s1 s2 H V H2(2) by (simp add: u'_def[symmetric] s1_def[symmetric] s2_def[symmetric] del: outbox_simps(2))
  have "hosting_page rid vs s2"
    by (rule same_hosting[OF s2(4) same_hosting[OF s1(2) session_host(2)[OF S]]])
  then show ?thesis
    using session_update[OF S v, of "exchange sd h v e w" s2 u'] x u' s2 by auto
qed


lemma hosting_append [simp]:
  "hosting (xs @ [arm_msg])" "hosting (xs @ arm_msg # [(''media'', ''share_control_grant'', d)])"
  "hosting (xs @ disarms v l) = (hosting xs \<and> set_del v l \<noteq> [])"
  "hosting (xs @ (''media'', ''share_control_revoke'', d) # disarms v l @ disarms v l') = (hosting xs \<and> set_del v l \<noteq> [] \<and> set_del v l' \<noteq> [])"
  by (simp_all add: arm_msg_def disarms_def disarm_msg_def hosting_def hosting_step_def getStr_def host_text_def)

lemma set_del_twice [simp]: "set_del v (set_del v l) = set_del v l"
  by (simp add: set_del_def)

lemma host_nothing: "host_does rid s (asked s) (roomShareControllers rid s) [] s"
  by (simp add: host_does_def same_share_def)

lemma round_decide:
  assumes S: "share_session h rid vs cs w" and v: "v \<in> set vs"
  shows "share_session h rid vs cs (do_round sd h rid cs (RDecide v ok) w)
    \<and> control_of h rid vs (do_round sd h rid cs (RDecide v ok) w) = control_spec (RDecide v ok) (control_of h rid vs w)"
proof -
  define e where "e = PCall (CHost (HControlResolve v ok))"
  note H = session_host[OF S] and V = session_viewer[OF S v]
  have own: "own_event e" by (simp add: e_def)
  have step: "client_step e (page_of h w) = snd (resolveShareControlRequest v ok None (page_of h w))" by (simp add: e_def)
  have d: "host_does rid (page_of h w) None (if ok then set_add v (roomShareControllers rid (page_of h w)) else roomShareControllers rid (page_of h w))
    ((if ok then [arm_msg] else []) @ [(''media'', ''share_control_grant'', Some (verdict_json v rid ok))]) (client_step e (page_of h w))"
    unfolding step by (rule host_decide[OF H(2) v])
  have out: "outbox h (known_of h w) ((if ok then [arm_msg] else []) @ [(''media'', ''share_control_grant'', Some (verdict_json v rid ok))])
    = [pk_of h v ''share_control_grant'' (verdict_json v rid ok)]"
    using message_out(4)[OF V(2)] by (simp del: outbox_simps(2))
  obtain fs where fs: "viewer_does h (cs v) (page_of v w) (ok \<or> in_control (page_of v w)) fs
      (page_after v sd [pk_of h v ''share_control_grant'' (verdict_json v rid ok)] (page_of v w))"
    "fs = [] \<or> fs = [(''media'', ''offer'', Some (signal_json (cs v) h sd))]"
    using viewer_granted[OF V(4), of sd] viewer_denied[OF V(4), of None sd] unfolding message_in(4)[OF V(2)] by (cases ok) auto
  define qks where "qks = outbox v (known_of v w) fs"
  have qks: "qks = [] \<or> qks = [pk_of v h ''offer'' (signal_json (cs v) h sd)]"
    using fs(2) message_out(5)[OF V(3)] by (auto simp: qks_def simp del: outbox_simps(2))
  define s1 where "s1 = client_step e (page_of h w)"
  have r: "host_does rid s1 (asked s1) (roomShareControllers rid s1) [] (page_after h sd qks s1)"
    using qks host_nothing[of rid s1] host_offer[of rid s1] message_in(5)[OF V(3)] by auto
  have "asked s1 = None" "roomShareControllers rid s1 = (if ok then set_add v (roomShareControllers rid (page_of h w)) else roomShareControllers rid (page_of h w))"
    using d by (simp_all add: host_does_def s1_def)
  then have "share_session h rid vs cs (exchange sd h v e w) \<and> control_of h rid vs (exchange sd h v e w)
    = \<lparr>cv_ask = None, cv_members = (if ok then set_add v (roomShareControllers rid (page_of h w)) else roomShareControllers rid (page_of h w)),
       cv_inject = hosting (sent (page_of h w) @ ((if ok then [arm_msg] else []) @ [(''media'', ''share_control_grant'', Some (verdict_json v rid ok))]) @ []),
       cv_mode = (cv_mode (control_of h rid vs w))(v := ok \<or> in_control (page_of v w))\<rparr>"
    using host_round[OF S v own d out, where fs = fs and qks = qks and ctrl = "ok \<or> in_control (page_of v w)" and reaction = "[]" and sd = sd]
      fs(1) qks r by (auto simp: qks_def s1_def)
  then show ?thesis
    using v by (auto simp: e_def control_of_def fun_eq_iff)
qed

lemma round_revoke:
  assumes S: "share_session h rid vs cs w" and v: "v \<in> set vs"
  shows "share_session h rid vs cs (do_round sd h rid cs (RRevoke v) w)
    \<and> control_of h rid vs (do_round sd h rid cs (RRevoke v) w) = control_spec (RRevoke v) (control_of h rid vs w)"
proof -
  define s where "s = page_of h w"
  define e where "e = PCall (CHost (HRevoke rid v))"
  note H = session_host[OF S] and V = session_viewer[OF S v]
  have own: "own_event e" by (simp add: e_def)
  have step: "client_step e s = snd (revokeShareControl rid v s)" by (simp add: e_def)
  show ?thesis
  proof (cases "v \<in> set (roomShareControllers rid s)")
    case True
    let ?ms = "(''media'', ''share_control_revoke'', Some (room_json v rid)) # disarms v (roomShareControllers rid s)"
    have d: "host_does rid (page_of h w) (asked s) (set_del v (roomShareControllers rid s)) ?ms (client_step e (page_of h w))"
      using host_revoke[OF H(2), of v] True step by (simp add: s_def)
    have out: "outbox h (known_of h w) ?ms = [pk_of h v ''share_control_revoke'' (room_json v rid)]"
      using message_out(3)[OF V(2), of rid] outbox_append[of h "known_of h w" "[(''media'', ''share_control_revoke'', Some (room_json v rid))]"
          "disarms v (roomShareControllers rid s)"] by (simp del: outbox_simps(2))
    have vw: "viewer_does h (cs v) (page_of v w) False [(''media'', ''share_control_release'', Some (room_json h (cs v)))]
      (page_after v sd [pk_of h v ''share_control_revoke'' (room_json v rid)] (page_of v w))"
      unfolding message_in(3)[OF V(2)] by (rule viewer_revoked[OF V(4)])
    define s1 where "s1 = client_step e (page_of h w)"
    have s1: "hosting_page rid vs s1" "asked s1 = asked s" "roomShareControllers rid s1 = set_del v (roomShareControllers rid s)"
      using d same_hosting[OF _ H(2), of s1] by (simp_all add: host_does_def s1_def)
    have r: "host_does rid s1 (asked s) (set_del v (roomShareControllers rid s)) (disarms v (set_del v (roomShareControllers rid s)))
      (page_after h sd [pk_of v h ''share_control_release'' (room_json h (cs v))] s1)"
      unfolding message_in(2)[OF V(3)] using host_release[OF s1(1) v] s1(2,3) by simp
    have "share_session h rid vs cs (exchange sd h v e w) \<and> control_of h rid vs (exchange sd h v e w)
      = \<lparr>cv_ask = asked s, cv_members = set_del v (roomShareControllers rid s),
         cv_inject = hosting (sent (page_of h w) @ ?ms @ disarms v (set_del v (roomShareControllers rid s))),
         cv_mode = (cv_mode (control_of h rid vs w))(v := False)\<rparr>"
      using host_round[OF S v own d out _ vw message_out(2)[OF V(3)], where reaction = "disarms v (set_del v (roomShareControllers rid s))"] r
      by (simp add: s1_def)
    then show ?thesis using True by (auto simp: e_def s_def control_of_def spec_leave_def)
  next
    case False
    then have n: "client_step e s = s" by (simp add: step revokeShareControl_def)
    have x: "holds (exchange sd h v e w) h s (known_of h w) (length (sent s)) \<and> holds (exchange sd h v e w) v (page_of v w) (known_of v w) (length (sent (page_of v w)))
      \<and> wd_net (exchange sd h v e w) = [] \<and> (\<forall>r. r \<noteq> h \<and> r \<noteq> v \<longrightarrow> node_at r (exchange sd h v e w) = node_at r w)"
      using exchange_holds[OF H(3) V(5)[symmetric] own ready_holds[OF H(1)] ready_holds[OF V(1)],
          where es = "[]" and pks = "[]" and fs = "[]" and qks = "[]" and gs = "[]" and sd = sd] n
      by (simp add: s_def)
    then show ?thesis
      using session_update[OF S v, of "exchange sd h v e w" s "page_of v w"] H(2) V(4) False v
      by (auto simp: e_def s_def control_of_def fun_eq_iff)
  qed
qed

lemma round_viewer:
  assumes S: "share_session h rid vs cs w" and v: "v \<in> set vs"
  shows "share_session h rid vs cs (do_round sd h rid cs (RAsk v) w)
    \<and> control_of h rid vs (do_round sd h rid cs (RAsk v) w) = control_spec (RAsk v) (control_of h rid vs w)"
    and "share_session h rid vs cs (do_round sd h rid cs (RLeave v) w)
    \<and> control_of h rid vs (do_round sd h rid cs (RLeave v) w) = control_spec (RLeave v) (control_of h rid vs w)"
proof -
  note H = session_host[OF S] and V = session_viewer[OF S v]
  have a: "viewer_does h (cs v) (page_of v w) (in_control (page_of v w)) [(''media'', ''share_control_request'', Some (room_json h (cs v)))]
      (client_step (PAskControl (cs v)) (page_of v w))"
    using viewer_ask[OF V(4)] by simp
  have ha: "host_does rid (page_of h w) (Some v) (roomShareControllers rid (page_of h w)) []
      (page_after h sd [pk_of v h ''share_control_request'' (room_json h (cs v))] (page_of h w))"
    unfolding message_in(1)[OF V(3)] by (rule host_ask[OF H(2) v])
  show "share_session h rid vs cs (do_round sd h rid cs (RAsk v) w)
    \<and> control_of h rid vs (do_round sd h rid cs (RAsk v) w) = control_spec (RAsk v) (control_of h rid vs w)"
    using viewer_round[OF S v _ a message_out(1)[OF V(3)] _ ha] v by (auto simp: control_of_def fun_eq_iff)
  have l: "viewer_does h (cs v) (page_of v w) False [(''media'', ''share_control_release'', Some (room_json h (cs v)))]
      (client_step (PLeaveControl (Some (cs v))) (page_of v w))"
    using viewer_leave[OF V(4)] by simp
  have hl: "host_does rid (page_of h w) (asked (page_of h w)) (set_del v (roomShareControllers rid (page_of h w)))
      (disarms v (roomShareControllers rid (page_of h w))) (page_after h sd [pk_of v h ''share_control_release'' (room_json h (cs v))] (page_of h w))"
    unfolding message_in(2)[OF V(3)] by (rule host_release[OF H(2) v])
  show "share_session h rid vs cs (do_round sd h rid cs (RLeave v) w)
    \<and> control_of h rid vs (do_round sd h rid cs (RLeave v) w) = control_spec (RLeave v) (control_of h rid vs w)"
    using viewer_round[OF S v _ l message_out(2)[OF V(3)] _ hl] by (auto simp: control_of_def spec_leave_def)
qed

lemma round_refines:
  "share_session h rid vs cs w \<Longrightarrow> round_of r \<in> set vs \<Longrightarrow>
    share_session h rid vs cs (do_round sd h rid cs r w) \<and> control_of h rid vs (do_round sd h rid cs r w) = control_spec r (control_of h rid vs w)"
  using round_decide round_revoke round_viewer by (cases r) (auto simp del: do_round.simps control_spec.simps)


lemma exchange_reach: "net_reach w \<Longrightarrow> net_reach (exchange sd p q e w)"
proof -
  have d: "net_reach (drain_node p w)" if "net_reach w" for p w
    using that by (auto simp: drain_node_def net_run_reach split: option.split)
  have s: "net_reach (net_do e w)" if "net_reach w" for e w using net_run_reach[OF that, of "[e]"] by simp
  assume "net_reach w"
  then show ?thesis unfolding exchange_def first_arrives_def by (intro d s)
qed

lemma rounds_refine:
  assumes "share_session h rid vs cs w" "\<forall>r \<in> set rs. round_of r \<in> set vs"
  shows "share_session h rid vs cs (fold (do_round sd h rid cs) rs w)
    \<and> control_of h rid vs (fold (do_round sd h rid cs) rs w) = fold control_spec rs (control_of h rid vs w)"
  using assms
proof (induction rs arbitrary: w)
  case (Cons r rs)
  have r: "share_session h rid vs cs (do_round sd h rid cs r w)" "control_of h rid vs (do_round sd h rid cs r w) = control_spec r (control_of h rid vs w)"
    using round_refines[OF Cons.prems(1)] Cons.prems(2) by simp_all
  show ?case using Cons.IH[OF r(1)] Cons.prems(2) r(2) by simp
qed simp

text \<open>C4: over the network, the pages of the host and of any number of viewers implement the protocol of control: any
  sequence of rounds, each of asking, granting or denying, leaving or revoking, ends in a quiet network with
  the share still watched, and what both sides show is what the specification says.\<close>

theorem control_refines:
  assumes "share_session h rid vs cs w" "\<forall>r \<in> set rs. round_of r \<in> set vs"
  shows "share_session h rid vs cs (fold (do_round sd h rid cs) rs w)
    \<and> control_of h rid vs (fold (do_round sd h rid cs) rs w) = fold control_spec rs (control_of h rid vs w)"
  using rounds_refine[OF assms] .

definition agreed :: "control_view \<Rightarrow> bool" where
  "agreed a \<longleftrightarrow> (\<forall>v. cv_mode a v = (v \<in> set (cv_members a))) \<and> cv_inject a = (cv_members a \<noteq> [])"

lemma agreed_spec: "agreed a \<Longrightarrow> agreed (control_spec r a)"
proof (cases r)
  case (RDecide v ok)
  have "set_add v l \<noteq> []" for l by (auto simp: set_add_def)
  then show "agreed a \<Longrightarrow> ?thesis" using RDecide by (auto simp: agreed_def)
qed (auto simp: agreed_def spec_leave_def set_del_def)

lemma agreed_fold: "agreed a \<Longrightarrow> agreed (fold control_spec rs a)"
  by (induction rs arbitrary: a) (auto intro: agreed_spec)

text \<open>C5: when host and viewers agree at the start, they agree after every sequence of rounds: a viewer is in the control
  mode exactly when the host lists it as a controller, and the host's daemon injects input exactly when the
  list is not empty.\<close>

theorem control_agrees:
  assumes "share_session h rid vs cs w" "agreed (control_of h rid vs w)" "\<forall>r \<in> set rs. round_of r \<in> set vs" "v \<in> set vs"
  shows "let w' = fold (do_round sd h rid cs) rs w; members = roomShareControllers rid (page_of h w')
    in in_control (page_of v w') = (v \<in> set members) \<and> hosting (sent (page_of h w')) = (members \<noteq> [])"
proof -
  have "agreed (control_of h rid vs (fold (do_round sd h rid cs) rs w))"
    using rounds_refine[OF assms(1,3)] agreed_fold[OF assms(2)] by simp
  then have "(\<forall>x. (x \<in> set vs \<and> in_control (page_of x (fold (do_round sd h rid cs) rs w)))
        = (x \<in> set (roomShareControllers rid (page_of h (fold (do_round sd h rid cs) rs w)))))"
    "hosting (sent (page_of h (fold (do_round sd h rid cs) rs w))) = (roomShareControllers rid (page_of h (fold (do_round sd h rid cs) rs w)) \<noteq> [])"
    unfolding agreed_def control_of_def by simp_all
  then show ?thesis using assms(4) unfolding Let_def by blast
qed

subsection \<open>A share with two viewers\<close>

definition both_watch :: "net_event list" where
  "both_watch = [NAct ''alice'' (PCall (CHost (HOpen ''r'' (Some ''team'') 1))),
     NAct ''alice'' (PCall (CHost (HInvite 0 ''r'' ''bob'' ''c1'' 1 some_sdp))), NAct ''alice'' (PCall (CHost (HInvite 0 ''r'' ''eve'' ''c2'' 1 some_sdp))),
     NTake ''alice'', NTake ''alice'', NTake ''alice'', NTake ''alice'',
     NArrive 0 None some_sdp, NArrive 0 None some_sdp, NArrive 0 None some_sdp, NArrive 0 None some_sdp]"

definition watched :: world where
  "watched = run_events net_do both_watch (start_world [''alice'', ''bob'', ''eve''])"

definition call_ids :: "string \<Rightarrow> string" where
  "call_ids v = (if v = ''bob'' then ''c1'' else ''c2'')"

lemma watched_session: "share_session ''alice'' ''r'' [''bob'', ''eve''] call_ids watched"
  by code_simp

lemma watched_view: "control_of ''alice'' ''r'' [''bob'', ''eve''] watched
  = \<lparr>cv_ask = None, cv_members = [], cv_inject = False, cv_mode = (\<lambda>v. False)\<rparr>"
proof -
  have "asked (page_of ''alice'' watched) = None" "roomShareControllers ''r'' (page_of ''alice'' watched) = []"
    "\<not> hosting (sent (page_of ''alice'' watched))" "\<not> in_control (page_of ''bob'' watched)" "\<not> in_control (page_of ''eve'' watched)"
    by code_simp+
  then show ?thesis by (auto simp: control_of_def fun_eq_iff)
qed

theorem control_refines_witness:
  "cv_members (control_of ''alice'' ''r'' [''bob'', ''eve'']
     (fold (do_round some_sdp ''alice'' ''r'' call_ids) [RAsk ''eve'', RDecide ''eve'' True, RDecide ''bob'' True, RRevoke ''eve''] watched)) = [''bob'']"
  using control_refines[OF watched_session, of "[RAsk ''eve'', RDecide ''eve'' True, RDecide ''bob'' True, RRevoke ''eve'']" some_sdp]
  by (simp add: watched_view spec_leave_def set_add_def set_del_def)

theorem control_agrees_witness:
  "let w' = fold (do_round some_sdp ''alice'' ''r'' call_ids) [RDecide ''bob'' True, RLeave ''bob''] watched
   in in_control (page_of ''bob'' w') = (''bob'' \<in> set (roomShareControllers ''r'' (page_of ''alice'' w')))"
proof -
  have "agreed (control_of ''alice'' ''r'' [''bob'', ''eve''] watched)" by (simp add: watched_view agreed_def)
  then show ?thesis
    using control_agrees[OF watched_session, of "[RDecide ''bob'' True, RLeave ''bob'']" "''bob''" some_sdp] unfolding Let_def by simp
qed

text \<open>The messages of two rounds can cross. Bob asked twice; Alice answers the second request while Bob's notice that
  he left is on its way.\<close>

definition crossing_run :: "net_event list" where
  "crossing_run = [NAct ''bob'' (PAskControl ''c1''), NAct ''bob'' (PAskControl ''c1''), NTake ''bob'', NTake ''bob'',
     NArrive 0 None some_sdp, NAct ''alice'' (PCall (CHost (HControlResolve ''bob'' True))), NTake ''alice'', NTake ''alice'',
     NArrive 1 None some_sdp, NArrive 0 None some_sdp, NTake ''bob'', NArrive 0 None some_sdp,
     NAct ''bob'' (PLeaveControl (Some ''c1'')), NTake ''bob'',
     NAct ''alice'' (PCall (CHost (HControlResolve ''bob'' True))), NTake ''alice'', NTake ''alice'',
     NArrive 0 None some_sdp, NArrive 0 None some_sdp, NTake ''alice'']"


end
