(* ===== verification/Messaging.thy ===== *)
theory Messaging
  imports Network Composer
begin

text \<open>
  Text messages between two clients: what the native daemon makes of \<open>message.send\<close>, its queue for peers that are
  not connected, the arrival at the other daemon with its receipt (\<open>native/core/daemon.cc\<close>, without encryption),
  and the events the pages file into their conversations (\<open>client/native_client.ts\<close>).
\<close>

subsection \<open>The daemons\<close>

text \<open>A page with what its daemon keeps: the store of messages and the queues of the peers out of reach.\<close>

record mailbox =
  mb_page :: ui
  mb_store :: "json list"
  mb_queue :: "(string, json list) jsmap"

definition kOfflineQueueCap :: nat where
  "kOfflineQueueCap = 500"

definition queue_of :: "string \<Rightarrow> mailbox \<Rightarrow> json list" where
  "queue_of p mb = (case mget (mb_queue mb) p of None \<Rightarrow> [] | Some q \<Rightarrow> q)"

definition queueOffline :: "string \<Rightarrow> json \<Rightarrow> mailbox \<Rightarrow> mailbox" where
  "queueOffline p d mb =
     (let q = queue_of p mb @ [d]
      in mb\<lparr>mb_queue := mset_key p (drop (length q - kOfflineQueueCap) q) (mb_queue mb)\<rparr>)"

definition convKey :: "string \<Rightarrow> json \<Rightarrow> string" where
  "convKey own d =
     (if getStr (Some d) ''kind'' ''chat'' = ''room'' then getStr (Some d) ''to'' []
      else if getStr (Some d) ''from'' [] = own then getStr (Some d) ''to'' [] else getStr (Some d) ''from'' [])"

text \<open>\<open>MessageStore::Append\<close>: a message of a conversation is stored once, by its nonce (\<open>session/message_store.cc\<close>).\<close>

definition conv_field :: "json \<Rightarrow> string" where
  "conv_field d = getStr (Some d) ''conv'' []"

definition store_append :: "json \<Rightarrow> json list \<Rightarrow> json list" where
  "store_append d st =
     (if conv_field d \<noteq> [] \<and> str_at ''nonce'' d \<noteq> None \<and> (\<exists>x \<in> set st. conv_field x = conv_field d \<and> str_at ''nonce'' x = str_at ''nonce'' d)
      then st else st @ [d])"

text \<open>The message in the own store and in the event for the own page.\<close>

definition own_chat :: "string \<Rightarrow> json \<Rightarrow> json" where
  "own_chat own d = set_field ''from'' (JStr own) (set_field ''kind'' (JStr (getStr (Some d) ''channel'' (getStr (Some d) ''kind'' ''chat''))) d)"

definition chat_event :: "json \<Rightarrow> string \<times> string \<times> json" where
  "chat_event d = (if getStr (Some d) ''kind'' ''chat'' = ''room'' then (''room'', ''room_message'', d) else (''message'', ''chat'', d))"

subsection \<open>The pages\<close>

definition kind_of :: "string \<Rightarrow> msg_kind" where
  "kind_of s = (if s = ''room'' then KRoom else KChat)"

definition type_of_name :: "string \<Rightarrow> msg_type option" where
  "type_of_name s = find (\<lambda>t. type_name t = s) [MText, MImage, MAudio, MVideo, MFile, MEmoji, MSystem]"

text \<open>A text message as the page casts it; messages with a media reference are not read here.\<close>

definition read_message :: "json \<Rightarrow> chat_message option" where
  "read_message d =
     (case (Option.bind (str_at ''type'' d) type_of_name, str_at ''from'' d, str_at ''to'' d, str_at ''nonce'' d, jfield ''ts'' d, str_at ''body'' d) of
        (Some t, Some f, Some to, Some n, Some (JNum ts), Some b) \<Rightarrow>
          if jfield ''mediaRef'' d = None
          then Some \<lparr>cm_kind = kind_of (getStr (Some d) ''kind'' []), cm_type = t, cm_from = f, cm_to = to, cm_nonce = n, cm_ts = ts,
                 cm_body = b, cm_mediaRef = None, cm_replyTo = str_at ''replyTo'' d\<rparr>
          else None
      | _ \<Rightarrow> None)"

text \<open>The message of a room event may be wrapped: \<open>d.message ?? d\<close>.\<close>

definition inner_message :: "json \<Rightarrow> json" where
  "inner_message d = (case jfield ''message'' d of None \<Rightarrow> d | Some JNull \<Rightarrow> d | Some msg \<Rightarrow> msg)"

definition on_chat_event :: "string \<times> string \<times> json \<Rightarrow> ui \<Rightarrow> ui" where
  "on_chat_event e s =
     (case e of (ns, m, d) \<Rightarrow>
        if ns = ''message'' \<and> m = ''ack'' then (case str_at ''nonce'' d of None \<Rightarrow> s | Some n \<Rightarrow> on_ack n s)
        else (case read_message (if ns = ''room'' then inner_message d else d) of None \<Rightarrow> s | Some msg \<Rightarrow> pushMessage msg s))"

subsection \<open>Sending, arriving, flushing\<close>

text \<open>\<open>message.send\<close>: the packets for other daemons, each with its recipient. \<open>up\<close>: the peers connected;
  \<open>mates\<close>: the members of the room that are known.\<close>

definition message_send :: "string \<Rightarrow> string list \<Rightarrow> string list \<Rightarrow> json \<Rightarrow> mailbox \<Rightarrow> (string \<times> json) list \<times> mailbox" where
  "message_send own up mates d mb =
     (let chat = own_chat own d;
          to = getStr (Some d) ''to'' [];
          mb1 = mb\<lparr>mb_store := store_append (set_field ''conv'' (JStr (convKey own chat)) (set_field ''direction'' (JStr ''out'') chat)) (mb_store mb),
                   mb_page := on_chat_event (chat_event chat) (mb_page mb)\<rparr>
      in if getStr (Some chat) ''kind'' ''chat'' = ''room'' then (map (\<lambda>m. (m, d)) (filter (\<lambda>m. m \<noteq> own) mates), mb1)
         else if to \<noteq> [] \<and> to \<noteq> own then (if to \<in> set up then ([(to, d)], mb1) else ([], queueOffline to d mb1))
         else ([], mb1))"

definition flushQueue :: "string \<Rightarrow> string list \<Rightarrow> mailbox \<Rightarrow> (string \<times> json) list \<times> mailbox" where
  "flushQueue p up mb =
     (if p \<notin> set up then ([], mb)
      else (map (Pair p) (queue_of p mb), mb\<lparr>mb_queue := mdel p (mb_queue mb)\<rparr>))"

definition receipt_json :: "string \<Rightarrow> json" where
  "receipt_json nonce = JObj [(''ackOf'', JStr nonce)]"

text \<open>\<open>HandleInboundPeerEnvelope\<close>: a receipt, or a message that is stored, acknowledged and handed to the page.\<close>

definition inbound :: "string \<Rightarrow> string \<Rightarrow> json \<Rightarrow> mailbox \<Rightarrow> (string \<times> json) list \<times> mailbox" where
  "inbound own from pkt mb =
     (if from = [] \<or> from = own then ([], mb)
      else let ackOf = getStr (Some pkt) ''ackOf'' []
      in if ackOf \<noteq> []
         then ([], mb\<lparr>mb_page := on_chat_event (''message'', ''ack'', JObj [(''to'', JStr from), (''nonce'', JStr ackOf)]) (mb_page mb)\<rparr>)
         else (let chat = set_field ''direction'' (JStr ''in'') (set_field ''from'' (JStr from) (set_field ''fromId'' (JStr from) pkt));
                   chat' = set_field ''conv'' (JStr (convKey own chat)) chat;
                   nonce = getStr (Some chat') ''nonce'' []
               in (if getStr (Some chat') ''kind'' ''chat'' = ''chat'' \<and> nonce \<noteq> [] then [(from, receipt_json nonce)] else [],
                   mb\<lparr>mb_store := store_append chat' (mb_store mb), mb_page := on_chat_event (chat_event chat') (mb_page mb)\<rparr>)))"

text \<open>Packets of \<open>own\<close> that arrive at \<open>p\<close> one after the other, and the receipts that come back.\<close>

fun arrivals :: "string \<Rightarrow> string \<Rightarrow> (string \<times> json) list \<Rightarrow> mailbox \<Rightarrow> (string \<times> json) list \<times> mailbox" where
  "arrivals p own [] mb = ([], mb)"
| "arrivals p own ((to, d) # pks) mb =
     (if to \<noteq> p then arrivals p own pks mb
      else (let (acks, mb1) = inbound p own d mb; (acks', mb2) = arrivals p own pks mb1 in (acks @ acks', mb2)))"

definition hand_over :: "string \<Rightarrow> string \<Rightarrow> (string \<times> json) list \<Rightarrow> mailbox \<Rightarrow> mailbox \<Rightarrow> mailbox \<times> mailbox" where
  "hand_over a b pks A B = (let (acks, B') = arrivals b a pks B; (_, A') = arrivals a b acks A in (A', B'))"


subsection \<open>One text\<close>

text \<open>A text with its nonce and its time; \<open>to_chat\<close> is the composer of a conversation with one device.\<close>

type_synonym text_data = "string \<times> int \<times> string"

definition to_chat :: "string \<Rightarrow> ctx" where
  "to_chat b = \<lparr>cx_target = b, cx_kind = KChat\<rparr>"

definition chat_json :: "string \<Rightarrow> text_data \<Rightarrow> json" where
  "chat_json b t = (case t of (n, ts, x) \<Rightarrow> text_json (to_chat b) n ts x)"

definition chat_msg :: "string \<Rightarrow> string \<Rightarrow> text_data \<Rightarrow> chat_message" where
  "chat_msg a b t = (case t of (n, ts, x) \<Rightarrow> \<lparr>cm_kind = KChat, cm_type = MText, cm_from = a, cm_to = b, cm_nonce = n, cm_ts = ts,
     cm_body = x, cm_mediaRef = None, cm_replyTo = None\<rparr>)"

lemma chat_msg_simps [simp]: "cm_nonce (chat_msg a b t) = fst t" "cm_kind (chat_msg a b t) = KChat" "cm_from (chat_msg a b t) = a"
  "cm_to (chat_msg a b t) = b"
  by (simp_all add: chat_msg_def split: prod.split)

lemmas text_defs = chat_json_def chat_msg_def text_json_def to_chat_def getStr_def str_at_def jfield_set set_field_def read_message_def
  type_of_name_def kind_of_def chat_event_def on_chat_event_def

lemma own_text: "on_chat_event (chat_event (own_chat a (chat_json b t))) s = pushMessage (chat_msg a b t) s"
  by (cases t) (simp add: text_defs own_chat_def)

text \<open>A text as the daemons at both ends store it.\<close>

definition out_record :: "string \<Rightarrow> string \<Rightarrow> text_data \<Rightarrow> json" where
  "out_record a b t = set_field ''conv'' (JStr b) (set_field ''direction'' (JStr ''out'') (own_chat a (chat_json b t)))"

definition in_record :: "string \<Rightarrow> string \<Rightarrow> text_data \<Rightarrow> json" where
  "in_record a b t = set_field ''conv'' (JStr a) (set_field ''direction'' (JStr ''in'')
     (set_field ''from'' (JStr a) (set_field ''fromId'' (JStr a) (chat_json b t))))"

lemma send_text:
  assumes "a \<noteq> b" "b \<noteq> []"
  shows "message_send a up mates (chat_json b t) mb = (let mb1 = mb\<lparr>mb_store := store_append (out_record a b t) (mb_store mb), mb_page := pushMessage (chat_msg a b t) (mb_page mb)\<rparr>
    in if b \<in> set up then ([(b, chat_json b t)], mb1) else ([], queueOffline b (chat_json b t) mb1))"
proof -
  have "getStr (Some (chat_json b t)) ''to'' [] = b" "getStr (Some (own_chat a (chat_json b t))) ''kind'' ''chat'' = ''chat''"
    "convKey a (own_chat a (chat_json b t)) = b"
    by (cases t; simp add: text_defs own_chat_def convKey_def)+
  then show ?thesis using assms by (simp add: message_send_def own_text out_record_def Let_def)
qed

lemma inbound_text:
  assumes "a \<noteq> b" "a \<noteq> []" "fst t \<noteq> []"
  shows "inbound b a (chat_json b t) mb = ([(a, receipt_json (fst t))],
      mb\<lparr>mb_store := store_append (in_record a b t) (mb_store mb), mb_page := pushMessage (chat_msg a b t) (mb_page mb)\<rparr>)"
  using assms by (cases t) (simp add: inbound_def in_record_def convKey_def Let_def text_defs)

lemma inbound_ack:
  "b \<noteq> a \<Longrightarrow> b \<noteq> [] \<Longrightarrow> n \<noteq> [] \<Longrightarrow> inbound a b (receipt_json n) mb = ([], mb\<lparr>mb_page := on_ack n (mb_page mb)\<rparr>)"
  by (simp add: inbound_def receipt_json_def getStr_def on_chat_event_def str_at_def)

subsection \<open>Texts in order\<close>

definition chat_packets :: "string \<Rightarrow> text_data list \<Rightarrow> (string \<times> json) list" where
  "chat_packets b ts = map (\<lambda>t. (b, chat_json b t)) ts"

lemma arrive_texts:
  assumes "a \<noteq> b" "a \<noteq> []" "\<forall>t \<in> set ts. fst t \<noteq> []"
  shows "\<exists>st. arrivals b a (chat_packets b ts) mb = (map (\<lambda>t. (a, receipt_json (fst t))) ts,
    mb\<lparr>mb_store := st, mb_page := fold (\<lambda>t. pushMessage (chat_msg a b t)) ts (mb_page mb)\<rparr>)"
  using assms(3)
proof (induction ts arbitrary: mb)
  case Nil
  show ?case by (intro exI[of _ "mb_store mb"]) (simp add: chat_packets_def)
next
  case (Cons t ts)
  note d = inbound_text[OF assms(1,2), of t mb]
  show ?case
    using Cons.IH[of "snd (inbound b a (chat_json b t) mb)"] Cons.prems d by (auto simp: chat_packets_def)
qed

lemma arrive_acks:
  assumes "a \<noteq> b" "b \<noteq> []" "\<forall>n \<in> set ns. n \<noteq> []"
  shows "arrivals a b (map (\<lambda>n. (a, receipt_json n)) ns) mb = ([], mb\<lparr>mb_page := fold on_ack ns (mb_page mb)\<rparr>)"
  using assms(3) by (induction ns arbitrary: mb) (simp_all add: inbound_ack assms(1)[symmetric] assms(2))

subsection \<open>The conversations\<close>

text \<open>The entries of a conversation made of texts, from a position on, with a status.\<close>

fun chat_items :: "string \<Rightarrow> string \<Rightarrow> delivery \<Rightarrow> nat \<Rightarrow> text_data list \<Rightarrow> chat_item list" where
  "chat_items a b st n [] = []"
| "chat_items a b st n (t # ts) = mk_item (chat_msg a b t) n (Some st) None # chat_items a b st (Suc n) ts"

lemma chat_items_nonces [simp]: "cm_nonce ` set (chat_items a b st n ts) = fst ` set ts"
  by (induction ts arbitrary: n) auto

lemma self_push [simp]: "self_id (pushMessage m s) = self_id s" "self_id (on_ack n s) = self_id s"
  by (simp_all add: self_id_def pushMessage_def on_ack_def set_conv_def Let_def)

lemma push_texts:
  assumes "\<And>t. conv_key (self_id s) (chat_msg a b t) = k"
  shows "conv_of (app (fold (\<lambda>t. pushMessage (chat_msg a b t)) ts s)) k
      = conv_of (app s) k @ chat_items a b DSent (length (conv_of (app s) k)) ts"
    and "k' \<noteq> k \<Longrightarrow> conv_of (app (fold (\<lambda>t. pushMessage (chat_msg a b t)) ts s)) k' = conv_of (app s) k'"
    and "self_id (fold (\<lambda>t. pushMessage (chat_msg a b t)) ts s) = self_id s"
proof -
  have "conv_of (app (fold (\<lambda>t. pushMessage (chat_msg a b t)) ts s)) k = conv_of (app s) k @ chat_items a b DSent (length (conv_of (app s) k)) ts
    \<and> (k' \<noteq> k \<longrightarrow> conv_of (app (fold (\<lambda>t. pushMessage (chat_msg a b t)) ts s)) k' = conv_of (app s) k')
    \<and> self_id (fold (\<lambda>t. pushMessage (chat_msg a b t)) ts s) = self_id s" for k'
    using assms
  proof (induction ts arbitrary: s)
    case (Cons t ts)
    have "conv_of (app (pushMessage (chat_msg a b t) s)) j = (if j = k then push_item (chat_msg a b t) (conv_of (app s) k) else conv_of (app s) j)" for j
      using Cons.prems[of t] by (simp add: pushMessage_def Let_def)
    then show ?case using Cons.IH[of "pushMessage (chat_msg a b t) s"] Cons.prems by (simp add: push_item_def)
  qed simp
  then show "conv_of (app (fold (\<lambda>t. pushMessage (chat_msg a b t)) ts s)) k = conv_of (app s) k @ chat_items a b DSent (length (conv_of (app s) k)) ts"
    and "k' \<noteq> k \<Longrightarrow> conv_of (app (fold (\<lambda>t. pushMessage (chat_msg a b t)) ts s)) k' = conv_of (app s) k'"
    and "self_id (fold (\<lambda>t. pushMessage (chat_msg a b t)) ts s) = self_id s" by blast+
qed


subsection \<open>The receipts\<close>

lemma mget_ack_only:
  "mwf m \<Longrightarrow> \<forall>k' c. k' \<noteq> k \<longrightarrow> mget m k' = Some c \<longrightarrow> n \<notin> cm_nonce ` set c \<Longrightarrow>
   mget (ack_convs n m) k' = (if k' = k then map_option (update_first (\<lambda>c. cm_nonce c = n) mark_delivered) (mget m k) else mget m k')"
proof (induction n m rule: ack_convs.induct)
  case (2 n k0 arr m)
  show ?case
  proof (cases "find_index (\<lambda>c. cm_nonce c = n) arr")
    case None
    have w: "mwf m" "k0 \<notin> fst ` set m" using 2(2) by (auto simp: js_defs)
    have "n \<notin> cm_nonce ` set c" if "j \<noteq> k" "mget m j = Some c" for j c
    proof -
      have "(j, c) \<in> set m" using that(2) by (simp add: js_defs map_of_SomeD)
      then have "j \<noteq> k0" using w(2) by force
      then show ?thesis using 2(3)[rule_format, of j c] that by (simp add: js_defs)
    qed
    then have "mget (ack_convs n m) k' = (if k' = k then map_option (update_first (\<lambda>c. cm_nonce c = n) mark_delivered) (mget m k) else mget m k')"
      using 2(1)[OF None w(1)] by blast
    then show ?thesis using None by (auto simp: js_defs update_first_def[abs_def])
  next
    case (Some i)
    then have "cm_nonce (arr ! i) = n" "i < length arr" by (auto dest: find_index_SomeD)
    then have "n \<in> cm_nonce ` set arr" by (metis image_eqI nth_mem)
    then have "k0 = k" using 2(3)[rule_format, of k0 arr] by (intro ccontr[of "k0 = k"]) (simp add: js_defs)
    then show ?thesis using Some by (simp add: js_defs update_first_def)
  qed
qed (simp add: js_defs)

text \<open>The nonces are in no conversation but \<open>k\<close>.\<close>

definition only_in :: "string \<Rightarrow> string set \<Rightarrow> ui \<Rightarrow> bool" where
  "only_in k N s \<longleftrightarrow> mwf (conversations (app s)) \<and> (\<forall>j. j \<noteq> k \<longrightarrow> cm_nonce ` set (conv_of (app s) j) \<inter> N = {})"

lemma on_ack_only:
  assumes "only_in k N s" "n \<in> N" "n \<noteq> []"
  shows "conv_of (app (on_ack n s)) j
      = (if j = k then update_first (\<lambda>c. cm_nonce c = n) mark_delivered (conv_of (app s) k) else conv_of (app s) j)"
    and "only_in k N (on_ack n s)"
proof -
  have h: "mwf (conversations (app s))" using assms(1) by (simp add: only_in_def)
  have h2: "\<forall>k' c. k' \<noteq> k \<longrightarrow> mget (conversations (app s)) k' = Some c \<longrightarrow> n \<notin> cm_nonce ` set c"
  proof (intro allI impI)
    fix k' c assume a: "k' \<noteq> k" "mget (conversations (app s)) k' = Some c"
    then have "cm_nonce ` set (conv_of (app s) k') \<inter> N = {}" using assms(1) by (simp add: only_in_def)
    then show "n \<notin> cm_nonce ` set c" using a(2) assms(2) by (auto simp: conv_of_def)
  qed
  show c: "conv_of (app (on_ack n s)) j
      = (if j = k then update_first (\<lambda>c. cm_nonce c = n) mark_delivered (conv_of (app s) k) else conv_of (app s) j)" for j
    using assms(3) by (simp add: on_ack_def conv_of_def mget_ack_only[OF h h2] update_first_def split: option.split)
  have "mkeys (ack_convs n m) = mkeys m" for m :: "(string, chat_item list) jsmap"
    by (induction n m rule: ack_convs.induct) (auto simp: js_defs split: option.split)
  from this[of "conversations (app s)"] have "mwf (conversations (app (on_ack n s)))" using h assms(3) by (simp add: on_ack_def mwf_def js_defs)
  then show "only_in k N (on_ack n s)" using assms(1) by (auto simp: only_in_def c)
qed

lemma update_first_once:
  "distinct (map cm_nonce c) \<Longrightarrow> update_first (\<lambda>c. cm_nonce c = n) f c = map (\<lambda>c. if cm_nonce c = n then f c else c) c"
proof (induction c)
  case (Cons x c)
  show ?case
  proof (cases "cm_nonce x = n")
    case True
    then have "map (\<lambda>c. if cm_nonce c = n then f c else c) c = c" using Cons.prems by (intro map_idI) (auto intro: rev_image_eqI)
    then show ?thesis using True by (simp add: update_first_def)
  next
    case False
    then show ?thesis using Cons by (auto simp: update_first_def split: option.splits)
  qed
qed (simp add: update_first_def)

lemma update_first_append:
  "\<forall>x \<in> set c. \<not> P x \<Longrightarrow> update_first P f (c @ c') = c @ update_first P f c'"
  by (induction c) (auto simp: update_first_def split: option.splits)

text \<open>Receipts in any order mark the entries they name.\<close>

lemma acks_mark:
  assumes "only_in k (set ns) s" "[] \<notin> set ns" "conv_of (app s) k = c @ c'" "cm_nonce ` set c \<inter> set ns = {}" "distinct (map cm_nonce c')"
  shows "conv_of (app (fold on_ack ns s)) j
    = (if j = k then c @ map (\<lambda>x. if cm_nonce x \<in> set ns then mark_delivered x else x) c' else conv_of (app s) j)"
  using assms
proof (induction ns arbitrary: s c')
  case (Cons n ns)
  have o: "only_in k (set ns) s" using Cons.prems(1) by (auto simp: only_in_def)
  define d where "d = map (\<lambda>x. if cm_nonce x = n then mark_delivered x else x) c'"
  have up: "update_first (\<lambda>c. cm_nonce c = n) mark_delivered (c @ c') = c @ d"
    using Cons.prems(4,5) by (subst update_first_append) (auto simp: update_first_once d_def)
  have n: "map cm_nonce d = map cm_nonce c'" by (simp add: d_def mark_delivered_def)
  note s = on_ack_only[OF Cons.prems(1), of n]
  have s1: "only_in k (set ns) (on_ack n s)" using s(2) Cons.prems(2) by (auto simp: only_in_def)
  have s2: "conv_of (app (on_ack n s)) i = (if i = k then c @ d else conv_of (app s) i)" for i
    using s(1)[of i] Cons.prems(2,3) up by auto
  have m: "map (\<lambda>x. if cm_nonce x \<in> set ns then mark_delivered x else x) d
      = map (\<lambda>x. if cm_nonce x \<in> set (n # ns) then mark_delivered x else x) c'"
    by (auto simp: d_def mark_delivered_def)
  have "conv_of (app (fold on_ack ns (on_ack n s))) j
      = (if j = k then c @ map (\<lambda>x. if cm_nonce x \<in> set ns then mark_delivered x else x) d else conv_of (app (on_ack n s)) j)"
    by (rule Cons.IH[OF s1]) (use Cons.prems n s2 in auto)
  then show ?case by (simp add: s2 m del: map_map)
qed simp

lemma chat_items_split: "chat_items a b st n (ts @ us) = chat_items a b st n ts @ chat_items a b st (n + length ts) us"
  by (induction ts arbitrary: n) auto

lemma map_nonces [simp]: "map cm_nonce (chat_items a b st n ts) = map fst ts"
  by (induction ts arbitrary: n) auto

lemma all_marked: "set (map fst ts) \<subseteq> N \<Longrightarrow>
  map (\<lambda>x. if cm_nonce x \<in> N then mark_delivered x else x) (chat_items a b st n ts) = chat_items a b DDelivered n ts"
  by (induction ts arbitrary: n) (auto simp: mark_delivered_def mk_item_def)

lemma length_items [simp]: "length (chat_items a b st n ts) = length ts"
  by (induction ts arbitrary: n) auto

subsection \<open>Delivery\<close>

text \<open>A page sends texts to \<open>b\<close> one after the other, with the peers \<open>up\<close> connected.\<close>

fun sends :: "string \<Rightarrow> string list \<Rightarrow> string \<Rightarrow> text_data list \<Rightarrow> mailbox \<Rightarrow> (string \<times> json) list \<times> mailbox" where
  "sends own up b [] mb = ([], mb)"
| "sends own up b (t # ts) mb =
     (let (pks, mb1) = message_send own up [] (chat_json b t) mb; (pks', mb2) = sends own up b ts mb1 in (pks @ pks', mb2))"

lemma queue_simps [simp]:
  "queue_of p (mb\<lparr>mb_page := s\<rparr>) = queue_of p mb" "queue_of p (mb\<lparr>mb_store := st\<rparr>) = queue_of p mb"
  "mb_page (queueOffline p d mb) = mb_page mb"
  "queue_of p (queueOffline p d mb) = drop (Suc (length (queue_of p mb)) - kOfflineQueueCap) (queue_of p mb @ [d])"
  by (simp_all add: queue_of_def queueOffline_def Let_def)

lemma queue_cap: "length (queue_of p mb) \<le> kOfflineQueueCap \<Longrightarrow> length (queue_of p (queueOffline p d mb)) \<le> kOfflineQueueCap"
  by simp

lemma sends_up:
  assumes "a \<noteq> b" "b \<noteq> []" "b \<in> set up"
  shows "fst (sends a up b ts mb) = chat_packets b ts"
    and "mb_page (snd (sends a up b ts mb)) = fold (\<lambda>t. pushMessage (chat_msg a b t)) ts (mb_page mb)"
proof -
  have "fst (sends a up b ts mb) = chat_packets b ts
    \<and> mb_page (snd (sends a up b ts mb)) = fold (\<lambda>t. pushMessage (chat_msg a b t)) ts (mb_page mb)"
  proof (induction ts arbitrary: mb)
    case (Cons t ts)
    define mb1 where "mb1 = snd (message_send a up [] (chat_json b t) mb)"
    have 1: "message_send a up [] (chat_json b t) mb = ([(b, chat_json b t)], mb1)" "mb_page mb1 = pushMessage (chat_msg a b t) (mb_page mb)"
      using assms(3) send_text[OF assms(1,2), of up "[]" t mb] by (simp_all add: mb1_def Let_def)
    show ?case using Cons.IH[of mb1] by (auto simp: 1 chat_packets_def split: prod.split)
  qed (simp add: chat_packets_def)
  then show "fst (sends a up b ts mb) = chat_packets b ts"
    and "mb_page (snd (sends a up b ts mb)) = fold (\<lambda>t. pushMessage (chat_msg a b t)) ts (mb_page mb)" by simp_all
qed

lemma keep_last:
  assumes "length q \<le> N" "0 < N"
  shows "drop (length (drop (Suc (length q) - N) (q @ [x]) @ qs) - N) (drop (Suc (length q) - N) (q @ [x]) @ qs)
    = drop (Suc (length q + length qs) - N) (q @ x # qs)"
proof (cases "length q = N")
  case True
  then obtain y q' where "q = y # q'" using assms(2) by (cases q) auto
  then show ?thesis using True by auto
next
  case False
  then show ?thesis using assms(1) by (simp add: Suc_le_eq)
qed

lemma sends_down:
  assumes "a \<noteq> b" "b \<noteq> []" "b \<notin> set up" "length (queue_of b mb) \<le> kOfflineQueueCap"
  shows "fst (sends a up b ts mb) = [] \<and> mb_page (snd (sends a up b ts mb)) = fold (\<lambda>t. pushMessage (chat_msg a b t)) ts (mb_page mb)
    \<and> queue_of b (snd (sends a up b ts mb))
      = (let q = queue_of b mb @ map (chat_json b) ts in drop (length q - kOfflineQueueCap) q)"
  using assms(4)
proof (induction ts arbitrary: mb)
  case (Cons t ts)
  define mb1 where "mb1 = snd (message_send a up [] (chat_json b t) mb)"
  have 1: "message_send a up [] (chat_json b t) mb = ([], mb1)" "mb_page mb1 = pushMessage (chat_msg a b t) (mb_page mb)"
    "queue_of b mb1 = drop (Suc (length (queue_of b mb)) - kOfflineQueueCap) (queue_of b mb @ [chat_json b t])"
    using assms(3) send_text[OF assms(1,2), of up "[]" t mb] by (simp_all add: mb1_def Let_def)
  have "length (queue_of b mb1) \<le> kOfflineQueueCap" by (simp add: 1(3))
  note ih = Cons.IH[OF this]
  have "drop (length (queue_of b mb1 @ qs) - kOfflineQueueCap) (queue_of b mb1 @ qs)
      = drop (Suc (length (queue_of b mb) + length qs) - kOfflineQueueCap) (queue_of b mb @ chat_json b t # qs)" for qs
    unfolding 1(3) by (rule keep_last[OF Cons.prems]) (simp add: kOfflineQueueCap_def)
  from this[of "map (chat_json b) ts"] show ?case using ih by (simp add: 1(1,2) Let_def split: prod.split)
qed simp

lemma arrive_page:
  assumes "a \<noteq> b" "a \<noteq> []" "\<forall>t \<in> set ts. fst t \<noteq> []" "arrivals b a (chat_packets b ts) B = (acks, B1)"
  shows "acks = map (\<lambda>t. (a, receipt_json (fst t))) ts" "mb_page B1 = fold (\<lambda>t. pushMessage (chat_msg a b t)) ts (mb_page B)"
  using arrive_texts[OF assms(1-3), of B] assms(4) by auto

text \<open>Where the page of \<open>p\<close> files a text from \<open>a\<close> to \<open>b\<close>.\<close>

definition filed_at :: "string \<Rightarrow> string \<Rightarrow> mailbox \<Rightarrow> string" where
  "filed_at a b mb = (if self_id (mb_page mb) = Some a then b else a)"

abbreviation conv_at :: "string \<Rightarrow> mailbox \<Rightarrow> chat_item list" where
  "conv_at k mb \<equiv> conv_of (app (mb_page mb)) k"

lemma key_filed: "conv_key (self_id (mb_page mb)) (chat_msg a b t) = filed_at a b mb"
  by (cases t) (simp add: conv_key_def chat_msg_def filed_at_def)

lemmas push_filed = push_texts[OF key_filed]

lemma subset_map_list:
  assumes "set xs \<subseteq> f ` A"
  obtains ys where "xs = map f ys" "set ys \<subseteq> A"
proof -
  have "\<exists>ys. xs = map f ys \<and> set ys \<subseteq> A" using assms
  proof (induction xs)
    case (Cons x xs)
    then obtain ys y where "xs = map f ys" "set ys \<subseteq> A" "x = f y" "y \<in> A" by auto
    then show ?case by (intro exI[of _ "y # ys"]) simp
  qed simp
  then show thesis using that by blast
qed

lemma nonces_set: "[] \<notin> fst ` set ts \<Longrightarrow> set us \<subseteq> set ts \<Longrightarrow> \<forall>t \<in> set us. fst t \<noteq> []"
  by (metis image_eqI subsetD)

lemma receipts_only:
  assumes "only_in (filed_at a b A) (fst ` set ts) (mb_page A)"
  shows "only_in (filed_at a b A) (fst ` set ts) (fold (\<lambda>t. pushMessage (chat_msg a b t)) us (mb_page A))"
proof -
  have "mwf (conversations (app s)) \<Longrightarrow> mwf (conversations (app (fold (\<lambda>t. pushMessage (chat_msg a b t)) us s)))" for s :: ui
  proof (induction us arbitrary: s)
    case (Cons u us)
    show ?case using Cons.IH[of "pushMessage (chat_msg a b u) s"] Cons.prems by (simp add: pushMessage_def set_conv_def Let_def)
  qed simp
  then show ?thesis using assms push_filed(2)[where mb=A and a=a and b=b and ts=us] by (simp add: only_in_def)
qed

text \<open>The receipts in \<open>acks\<close> arrive at a page that has sent the texts \<open>ts\<close>.\<close>

lemma marked_page:
  assumes o: "only_in (filed_at a b A) (fst ` set ts) (mb_page A)" "fst ` set ts \<inter> cm_nonce ` set (conv_at (filed_at a b A) A) = {}"
    and ts: "distinct (map fst ts)" "[] \<notin> fst ` set ts" and ns: "set ns \<subseteq> fst ` set ts"
    and p: "mb_page A1 = fold (\<lambda>t. pushMessage (chat_msg a b t)) ts (mb_page A)"
    and ab: "a \<noteq> b" "b \<noteq> []"
  shows "\<exists>A2. arrivals a b (map (\<lambda>n. (a, receipt_json n)) ns) A1 = ([], A2)
    \<and> conv_at (filed_at a b A) A2 = conv_at (filed_at a b A) A
       @ map (\<lambda>x. if cm_nonce x \<in> set ns then mark_delivered x else x) (chat_items a b DSent (length (conv_at (filed_at a b A) A)) ts)
    \<and> (\<forall>k. k \<noteq> filed_at a b A \<longrightarrow> conv_at k A2 = conv_at k A)"
proof -
  have ns0: "[] \<notin> set ns" using ns ts(2) by blast
  then have ns1: "\<forall>n \<in> set ns. n \<noteq> []" by metis
  let ?P = "fold (\<lambda>t. pushMessage (chat_msg a b t)) ts (mb_page A)"
  have oi: "only_in (filed_at a b A) (set ns) ?P"
    using receipts_only[OF o(1), of ts] ns by (fastforce simp: only_in_def)
  have "conv_of (app (fold on_ack ns ?P)) j = (if j = filed_at a b A then conv_at (filed_at a b A) A
      @ map (\<lambda>x. if cm_nonce x \<in> set ns then mark_delivered x else x) (chat_items a b DSent (length (conv_at (filed_at a b A) A)) ts)
    else conv_of (app ?P) j)" for j
    by (rule acks_mark[OF oi ns0 push_filed(1)]) (use o(2) ns ts(1) in auto)
  then show ?thesis
    using arrive_acks[OF ab, of ns A1] ns1 push_filed(2)[where mb=A and a=a and b=b and ts=ts]
    by (intro exI[of _ "A1\<lparr>mb_page := fold on_ack ns ?P\<rparr>"]) (simp add: p)
qed

text \<open>C26: a delivery mark is true: of the texts sent to a connected peer, those that arrive, in whatever order, are
  filed in the peer's page; and whatever of the receipts comes back, a text is marked as delivered exactly
  when its receipt came, and then it is among those that arrived.\<close>

theorem receipts_truthful:
  assumes ab: "a \<noteq> b" "a \<noteq> []" "b \<noteq> []" "b \<in> set up" and ka: "ka = filed_at a b A" and kb: "kb = filed_at a b B"
    and ts: "distinct (map fst ts)" "[] \<notin> fst ` set ts"
    and fresh: "only_in ka (fst ` set ts) (mb_page A)" "fst ` set ts \<inter> cm_nonce ` set (conv_at ka A) = {}"
    and send: "sends a up b ts A = (pks, A1)"
    and arr: "set got \<subseteq> set pks" "arrivals b a got B = (acks, B1)"
    and ret: "set rcpts \<subseteq> set acks" "arrivals a b rcpts A1 = (out, A2)"
  shows "\<exists>us N. set us \<subseteq> set ts \<and> N \<subseteq> fst ` set us
    \<and> got = chat_packets b us \<and> rcpts = map (\<lambda>n. (a, receipt_json n)) (map (\<lambda>(_, d). getStr (Some d) ''ackOf'' []) rcpts)
    \<and> N = set (map (\<lambda>(_, d). getStr (Some d) ''ackOf'' []) rcpts)
    \<and> conv_at kb B1 = conv_at kb B @ chat_items a b DSent (length (conv_at kb B)) us
    \<and> conv_at ka A2 = conv_at ka A @ map (\<lambda>x. if cm_nonce x \<in> N then mark_delivered x else x)
        (chat_items a b DSent (length (conv_at ka A)) ts)
    \<and> (\<forall>k. k \<noteq> ka \<longrightarrow> conv_at k A2 = conv_at k A) \<and> (\<forall>k. k \<noteq> kb \<longrightarrow> conv_at k B1 = conv_at k B)"
proof -
  have s: "pks = chat_packets b ts" "mb_page A1 = fold (\<lambda>t. pushMessage (chat_msg a b t)) ts (mb_page A)"
    using sends_up[OF ab(1,3,4), of ts A] send by auto
  obtain us where us: "got = chat_packets b us" "set us \<subseteq> set ts"
    using arr(1) unfolding s(1) chat_packets_def set_map by (rule subset_map_list)
  have "\<forall>t \<in> set us. fst t \<noteq> []" by (rule nonces_set[OF ts(2) us(2)])
  from arrive_page[OF ab(1,2) this] arr(2) us(1)
  have b: "acks = map (\<lambda>t. (a, receipt_json (fst t))) us" "mb_page B1 = fold (\<lambda>t. pushMessage (chat_msg a b t)) us (mb_page B)" by blast+
  obtain vs where vs: "rcpts = map (\<lambda>t. (a, receipt_json (fst t))) vs" "set vs \<subseteq> set us"
    using ret(1) unfolding b(1) set_map by (rule subset_map_list)
  define ns where "ns = map fst vs"
  have r: "rcpts = map (\<lambda>n. (a, receipt_json n)) ns" "map (\<lambda>(_, d). getStr (Some d) ''ackOf'' []) rcpts = ns"
    by (simp_all add: vs(1) ns_def receipt_json_def getStr_def)
  have N: "set ns \<subseteq> fst ` set us" "set ns \<subseteq> fst ` set ts" using vs(2) us(2) by (auto simp: ns_def)
  obtain A2' where A2: "arrivals a b (map (\<lambda>n. (a, receipt_json n)) ns) A1 = ([], A2')"
    "conv_at ka A2' = conv_at ka A @ map (\<lambda>x. if cm_nonce x \<in> set ns then mark_delivered x else x) (chat_items a b DSent (length (conv_at ka A)) ts)"
    "\<forall>k. k \<noteq> ka \<longrightarrow> conv_at k A2' = conv_at k A"
    using marked_page[OF fresh[unfolded ka] ts N(2) s(2) ab(1,3)] unfolding ka by blast
  have "A2' = A2" using A2(1) ret(2) r(1) by simp
  then show ?thesis
    using us N(1) r A2(2,3) push_filed(1)[where mb=B and a=a and b=b and ts=us] push_filed(2)[where mb=B and a=a and b=b and ts=us] b(2) unfolding kb by (intro exI[of _ us] exI[of _ "set ns"]) simp
qed


subsection \<open>A dialogue\<close>

abbreviation mailbox_ok :: "mailbox \<Rightarrow> bool" where
  "mailbox_ok mb \<equiv> mwf (conversations (app (mb_page mb)))"

lemma mwf_pushes: "mwf (conversations (app s)) \<Longrightarrow> mwf (conversations (app (fold (\<lambda>t. pushMessage (chat_msg a b t)) us (s :: ui))))"
proof (induction us arbitrary: s)
  case (Cons u us)
  show ?case using Cons.IH[of "pushMessage (chat_msg a b u) s"] Cons.prems by (simp add: pushMessage_def set_conv_def Let_def)
qed simp

lemma mkeys_acks [simp]: "mkeys (ack_convs n m) = mkeys m"
  by (induction n m rule: ack_convs.induct) (auto simp: js_defs split: option.split)

lemma mwf_keys: "mwf m \<longleftrightarrow> distinct (mkeys m)"
  by (simp add: mwf_def js_defs)

lemma mwf_acks: "mwf (conversations (app s)) \<Longrightarrow> mwf (conversations (app (fold on_ack ns (s :: ui))))"
  by (induction ns arbitrary: s) (simp_all add: on_ack_def mwf_keys)

lemma self_folds [simp]: "self_id (fold on_ack ns s) = self_id s"
  by (induction ns arbitrary: s) simp_all

text \<open>All texts arrive at the connected peer, and all receipts come back.\<close>

lemma delivered:
  assumes ab: "a \<noteq> b" "a \<noteq> []" "b \<noteq> []" "b \<in> set up"
    and ts: "distinct (map fst ts)" "[] \<notin> fst ` set ts" and wf: "mailbox_ok A" "mailbox_ok B"
    and fresh: "\<And>k. fst ` set ts \<inter> cm_nonce ` set (conv_at k A) = {}"
    and run: "sends a up b ts A = (pks, A1)" "hand_over a b pks A1 B = (A2, B1)"
  shows "conv_at k A2 = conv_at k A @ (if k = filed_at a b A then chat_items a b DDelivered (length (conv_at k A)) ts else [])"
    and "conv_at k B1 = conv_at k B @ (if k = filed_at a b B then chat_items a b DSent (length (conv_at k B)) ts else [])"
    and "self_id (mb_page A2) = self_id (mb_page A)" "self_id (mb_page B1) = self_id (mb_page B)" "mailbox_ok A2" "mailbox_ok B1"
proof -
  have s: "pks = chat_packets b ts" "mb_page A1 = fold (\<lambda>t. pushMessage (chat_msg a b t)) ts (mb_page A)"
    using sends_up[OF ab(1,3,4), of ts A] run(1) by auto
  have f: "only_in (filed_at a b A) (fst ` set ts) (mb_page A)" using wf(1) fresh by (auto simp: only_in_def)
  have n0: "\<forall>t \<in> set ts. fst t \<noteq> []" "\<forall>n \<in> set (map fst ts). n \<noteq> []" using nonces_set[OF ts(2) order_refl] by auto
  obtain acks B1' where ar: "arrivals b a pks B = (acks, B1')" by (cases "arrivals b a pks B")
  note b = arrive_page[OF ab(1,2) n0(1) ar[unfolded s(1)]]
  have acks: "acks = map (\<lambda>n. (a, receipt_json n)) (map fst ts)" by (simp add: b(1))
  note aa = arrive_acks[OF ab(1,3) n0(2), of A1]
  have e: "A2 = A1\<lparr>mb_page := fold on_ack (map fst ts) (mb_page A1)\<rparr>" "B1' = B1"
    using run(2) ar aa by (simp_all add: hand_over_def acks)
  obtain A2' where A2: "arrivals a b acks A1 = ([], A2')"
    "conv_at (filed_at a b A) A2' = conv_at (filed_at a b A) A @ map (\<lambda>x. if cm_nonce x \<in> set (map fst ts) then mark_delivered x else x)
       (chat_items a b DSent (length (conv_at (filed_at a b A) A)) ts)"
    "\<forall>k. k \<noteq> filed_at a b A \<longrightarrow> conv_at k A2' = conv_at k A"
    using marked_page[OF f fresh ts _ s(2) ab(1,3), of "map fst ts"] unfolding acks by auto
  have e': "A2' = A2" using A2(1) run(2) ar by (simp add: hand_over_def)
  show "conv_at k A2 = conv_at k A @ (if k = filed_at a b A then chat_items a b DDelivered (length (conv_at k A)) ts else [])"
    using A2(2,3) all_marked[OF order_refl, where ts=ts and a=a and b=b] unfolding e' by auto
  show "conv_at k B1 = conv_at k B @ (if k = filed_at a b B then chat_items a b DSent (length (conv_at k B)) ts else [])"
    using b(2) push_filed(1)[where mb=B and a=a and b=b and ts=ts] push_filed(2)[where mb=B and a=a and b=b and ts=ts] by (simp add: e)
  show "self_id (mb_page A2) = self_id (mb_page A)" "self_id (mb_page B1) = self_id (mb_page B)"
    using b(2) s(2) push_filed(3)[where mb=A and a=a and b=b and ts=ts] push_filed(3)[where mb=B and a=a and b=b and ts=ts] by (simp_all add: e)
  show "mailbox_ok A2" "mailbox_ok B1" using b(2) s(2) wf by (simp_all add: e mwf_acks mwf_pushes)
qed

text \<open>\<open>a\<close> sends the texts \<open>ts\<close>, and \<open>b\<close> answers with \<open>us\<close>.\<close>

definition dialogue :: "string \<Rightarrow> string \<Rightarrow> text_data list \<Rightarrow> text_data list \<Rightarrow> mailbox \<Rightarrow> mailbox \<Rightarrow> mailbox \<times> mailbox" where
  "dialogue a b ts us A B =
     (let (pks, A1) = sends a [b] b ts A; (A2, B1) = hand_over a b pks A1 B;
          (pks', B2) = sends b [a] a us B1; (B3, A3) = hand_over b a pks' B2 A2 in (A3, B3))"

text \<open>C27: texts and answers are one conversation, under the peer's id, on a page that knows itself by its daemon's
  device id; a page that knows itself by another id (the one that the login invents) splits them: the own texts are
  filed under the own daemon's id, the peer's under the peer's.\<close>

theorem dialogue_files:
  assumes ab: "a \<noteq> b" "a \<noteq> []" "b \<noteq> []" and new: "conversations (app (mb_page A)) = []" "conversations (app (mb_page B)) = []"
    and ts: "distinct (map fst (ts @ us))" "[] \<notin> fst ` set (ts @ us)"
    and own: "self_id (mb_page A) \<noteq> Some b" "self_id (mb_page B) \<noteq> Some a"
    and run: "dialogue a b ts us A B = (A', B')"
  shows "(if self_id (mb_page A) = Some a
      then conv_at b A' = chat_items a b DDelivered 0 ts @ chat_items b a DSent (length ts) us \<and> conv_at a A' = []
      else conv_at b A' = chat_items b a DSent 0 us \<and> conv_at a A' = chat_items a b DDelivered 0 ts)
    \<and> (if self_id (mb_page B) = Some b
      then conv_at a B' = chat_items a b DSent 0 ts @ chat_items b a DDelivered (length ts) us \<and> conv_at b B' = []
      else conv_at a B' = chat_items a b DSent 0 ts \<and> conv_at b B' = chat_items b a DDelivered 0 us)"
proof -
  obtain pks A1 A2 B1 pks' B2 where r: "sends a [b] b ts A = (pks, A1)" "hand_over a b pks A1 B = (A2, B1)"
    "sends b [a] a us B1 = (pks', B2)" "hand_over b a pks' B2 A2 = (B', A')"
    using run by (auto simp: dialogue_def split: prod.splits)
  have e: "conv_at k A = []" "conv_at k B = []" for k using new by (simp_all add: conv_of_def)
  have wf: "mailbox_ok A" "mailbox_ok B" using new by (simp_all add: mwf_def js_defs)
  have d: "distinct (map fst ts)" "[] \<notin> fst ` set ts" "distinct (map fst us)" "[] \<notin> fst ` set us" "fst ` set us \<inter> fst ` set ts = {}"
    using ts by auto
  note 1 = delivered[OF ab _ d(1,2) wf _ r(1,2), simplified e, simplified]
  have fr: "fst ` set us \<inter> cm_nonce ` set (conv_at k B1) = {}" for k
    using 1(2)[of k] d(5) by (cases "k = filed_at a b B") simp_all
  note 2 = delivered[OF ab(1)[symmetric] ab(3,2) _ d(3,4) 1(6,5) fr r(3,4), simplified]
  show ?thesis
    using 1(1-4) 2(1,2) own ab(1) by (simp add: filed_at_def)
qed

subsection \<open>Examples\<close>

definition box_of :: "string \<Rightarrow> mailbox" where
  "box_of i = \<lparr>mb_page = patch (\<lambda>s. s\<lparr>app_profile := Some \<lparr>pr_deviceId = i, pr_name = i, pr_avatar = None, pr_joinedRooms = []\<rparr>\<rparr>) ui_init, mb_store = [], mb_queue = []\<rparr>"

lemma box_simps [simp]: "conversations (app (mb_page (box_of i))) = []" "self_id (mb_page (box_of i)) = Some i" "conv_at k (box_of i) = []"
  "queue_of p (box_of i) = []" "only_in k N (mb_page (box_of i))"
  by (simp_all add: box_of_def ui_init_def new_store_def initial_def self_id_def queue_of_def conv_of_def only_in_def mwf_def js_defs ui.defs)

theorem receipts_truthful_witness:
  "let (pks, A1) = sends ''a'' [''b''] ''b'' [(''m1'', 1, ''hi''), (''m2'', 2, ''there'')] (box_of ''a'');
       (acks, B1) = arrivals ''b'' ''a'' [pks ! 1, pks ! 0] (box_of ''b'');
       (_, A2) = arrivals ''a'' ''b'' [acks ! 0] A1
   in map cm_body (conv_at ''a'' B1) = [''there'', ''hi''] \<and> map ci_status (conv_at ''b'' A2) = [Some DSent, Some DDelivered]"
proof -
  define ts :: "text_data list" where "ts = [(''m1'', 1, ''hi''), (''m2'', 2, ''there'')]"
  obtain pks A1 where s: "sends ''a'' [''b''] ''b'' ts (box_of ''a'') = (pks, A1)" by (cases "sends ''a'' [''b''] ''b'' ts (box_of ''a'')")
  have p: "pks = chat_packets ''b'' ts" using sends_up(1)[of "''a''" "''b''" "[''b'']" ts "box_of ''a''"] s by simp
  then have l: "length pks = 2" by (simp add: ts_def chat_packets_def)
  define got where "got = [pks ! 1, pks ! 0]"
  have g: "got = chat_packets ''b'' (rev ts)" by (simp add: p got_def ts_def chat_packets_def)
  have gs: "set got \<subseteq> set pks" using l by (auto simp: got_def)
  obtain acks B1 where b: "arrivals ''b'' ''a'' got (box_of ''b'') = (acks, B1)" by (cases "arrivals ''b'' ''a'' got (box_of ''b'')")
  have a: "acks = map (\<lambda>t. (''a'', receipt_json (fst t))) (rev ts)" by (rule arrive_page(1)[OF _ _ _ b[unfolded g]]) (simp_all add: ts_def)
  obtain r A2 where r: "arrivals ''a'' ''b'' [acks ! 0] A1 = (r, A2)" by (cases "arrivals ''a'' ''b'' [acks ! 0] A1")
  have as: "set [acks ! 0] \<subseteq> set acks" by (simp add: a ts_def)
  have k: "''b'' = filed_at ''a'' ''b'' (box_of ''a'')" "''a'' = filed_at ''a'' ''b'' (box_of ''b'')" by (simp_all add: filed_at_def)
  obtain us N where c: "got = chat_packets ''b'' us" "N = set (map (\<lambda>(_, d). getStr (Some d) ''ackOf'' []) [acks ! 0])"
    "conv_at ''a'' B1 = chat_items ''a'' ''b'' DSent 0 us"
    "conv_at ''b'' A2 = map (\<lambda>x. if cm_nonce x \<in> N then mark_delivered x else x) (chat_items ''a'' ''b'' DSent 0 ts)"
    using receipts_truthful[OF _ _ _ _ k _ _ _ _ s gs b as r] by (auto simp: ts_def)
  have N: "N = {''m2''}" unfolding c(2) a ts_def by (simp add: receipt_json_def getStr_def)
  have u: "us = rev ts" using c(1) g by (auto simp: chat_packets_def ts_def chat_json_def text_json_def)
  have "map cm_body (conv_at ''a'' B1) = [''there'', ''hi'']" "map ci_status (conv_at ''b'' A2) = [Some DSent, Some DDelivered]"
    unfolding c(3,4) u N by (simp_all add: ts_def chat_msg_def mk_item_def mark_delivered_def)
  then show ?thesis unfolding ts_def[symmetric] s Let_def prod.case got_def[symmetric] b r by simp
qed


theorem dialogue_files_witness:
  "let (A, B) = dialogue ''a'' ''b'' [(''m1'', 1, ''hi'')] [(''m2'', 2, ''hello'')] (box_of ''a'') (box_of ''page'')
   in map cm_body (conv_at ''b'' A) = [''hi'', ''hello''] \<and> map cm_body (conv_at ''a'' B) = [''hi''] \<and> map cm_body (conv_at ''b'' B) = [''hello'']"
proof -
  define d where "d = dialogue ''a'' ''b'' [(''m1'', 1, ''hi'')] [(''m2'', 2, ''hello'')] (box_of ''a'') (box_of ''page'')"
  obtain A B where "d = (A, B)" by (cases d)
  then have r: "dialogue ''a'' ''b'' [(''m1'', 1, ''hi'')] [(''m2'', 2, ''hello'')] (box_of ''a'') (box_of ''page'') = (A, B)" by (simp add: d_def)
  show ?thesis using dialogue_files[OF _ _ _ _ _ _ _ _ _ r] by (simp add: r chat_msg_def mk_item_def)
qed
end
