(* ===== verification/Message_History.thy ===== *)
theory Message_History
  imports Messaging
begin

text \<open>
  The history of a conversation: what the native daemon has stored of it (\<open>native/core/session/message_store.cc\<close>), the
  reply to \<open>message.history\<close> and what a page that was loaded again shows of it (\<open>loadHistory\<close> of
  \<open>client/native_client.ts\<close>), against what the page showed before.
\<close>

subsection \<open>The store and the page\<close>

definition store_history :: "string \<Rightarrow> nat \<Rightarrow> json list \<Rightarrow> json list" where
  "store_history conv limit st =
     (let hint = filter (\<lambda>d. conv_field d = conv) st
      in if conv = [] then [] else drop (length hint - limit) hint)"

text \<open>\<open>limit\<close> is cast to an unsigned 64-bit number; without it, 200.\<close>

definition limit_of :: "json \<Rightarrow> nat" where
  "limit_of d = (case jfield ''limit'' d of Some (JNum n) \<Rightarrow> nat (n mod 2 ^ 64) | _ \<Rightarrow> 200)"

definition message_history :: "json \<Rightarrow> mailbox \<Rightarrow> json list" where
  "message_history d mb = store_history (getStr (Some d) ''to'' []) (limit_of d) (mb_store mb)"

text \<open>The continuation of \<open>loadHistory\<close>, for items that can be read as messages.\<close>

definition on_history :: "string \<Rightarrow> json list \<Rightarrow> ui \<Rightarrow> ui" where
  "on_history target ds s = (case those (map read_message ds) of None \<Rightarrow> s | Some items \<Rightarrow> history_loaded target items s)"

definition open_history :: "string \<Rightarrow> mailbox \<Rightarrow> ui \<Rightarrow> ui" where
  "open_history target mb s = on_history target (message_history (history_json target KChat) mb) s"

subsection \<open>Traffic of one conversation\<close>

text \<open>A text of the own page or of the peer; the texts \<open>a\<close> sends to and gets from \<open>b\<close>.\<close>

type_synonym exchanged = "bool \<times> text_data"

abbreviation own_text_of :: "exchanged \<Rightarrow> bool" where
  "own_text_of \<equiv> fst"

abbreviation nonce_of :: "exchanged \<Rightarrow> string" where
  "nonce_of e \<equiv> fst (snd e)"

abbreviation time_of :: "exchanged \<Rightarrow> int" where
  "time_of e \<equiv> fst (snd (snd e))"

definition msg_of :: "string \<Rightarrow> string \<Rightarrow> exchanged \<Rightarrow> chat_message" where
  "msg_of a b e = (if own_text_of e then chat_msg a b (snd e) else chat_msg b a (snd e))"

definition record_of :: "string \<Rightarrow> string \<Rightarrow> exchanged \<Rightarrow> json" where
  "record_of a b e = (if own_text_of e then out_record a b (snd e) else in_record b a (snd e))"

fun entries :: "string \<Rightarrow> string \<Rightarrow> nat \<Rightarrow> exchanged list \<Rightarrow> chat_item list" where
  "entries a b n [] = []"
| "entries a b n (e # es) = mk_item (msg_of a b e) n (Some DSent) None # entries a b (Suc n) es"

fun traffic :: "string \<Rightarrow> string \<Rightarrow> string list \<Rightarrow> exchanged list \<Rightarrow> mailbox \<Rightarrow> mailbox" where
  "traffic a b up [] mb = mb"
| "traffic a b up (e # es) mb =
     traffic a b up es (snd (if own_text_of e then message_send a up [] (chat_json b (snd e)) mb else inbound a b (chat_json a (snd e)) mb))"

lemma msg_of_simps [simp]: "cm_nonce (msg_of a b e) = nonce_of e" "cm_kind (msg_of a b e) = KChat" "cm_ts (msg_of a b e) = time_of e"
  by (simp_all add: msg_of_def chat_msg_def split: prod.split)

lemma msg_of_key: "conv_key me (msg_of a b e) = (if own_text_of e then (if me = Some a then b else a) else if me = Some b then a else b)"
  by (auto simp: msg_of_def conv_key_def)

lemma record_simps [simp]:
  "read_message (record_of a b e) = Some (msg_of a b e)" "conv_field (record_of a b e) = b"
  "str_at ''nonce'' (record_of a b e) = Some (nonce_of e)"
  by (cases e; simp add: record_of_def out_record_def in_record_def own_chat_def msg_of_def conv_field_def text_defs split: prod.split)+

lemma entries_simps [simp]: "length (entries a b n es) = length es" "map cm_ts (entries a b n es) = map time_of es"
  by (induction es arbitrary: n) auto

lemma entries_append: "entries a b n (es @ es') = entries a b n es @ entries a b (n + length es) es'"
  by (induction es arbitrary: n) auto

lemma traffic_step:
  fixes mb :: mailbox and up :: "string list"
  assumes "a \<noteq> b" "a \<noteq> []" "b \<noteq> []" "nonce_of e \<noteq> []"
  defines "mb' \<equiv> snd (if own_text_of e then message_send a up [] (chat_json b (snd e)) mb else inbound a b (chat_json a (snd e)) mb)"
  shows "mb_store mb' = store_append (record_of a b e) (mb_store mb)" "mb_page mb' = pushMessage (msg_of a b e) (mb_page mb)"
  using assms(1-4) send_text[OF assms(1,3), of up "[]" "snd e" mb] inbound_text[OF assms(1)[symmetric] assms(3,4), of mb]
  by (auto simp: mb'_def record_of_def msg_of_def Let_def queueOffline_def)

lemma traffic_run:
  assumes "a \<noteq> b" "a \<noteq> []" "b \<noteq> []" "[] \<notin> nonce_of ` set es" "distinct (map nonce_of es)"
    and "\<forall>x \<in> set (mb_store mb). conv_field x = b \<longrightarrow> str_at ''nonce'' x \<notin> Some ` nonce_of ` set es"
  shows "mb_store (traffic a b up es mb) = mb_store mb @ map (record_of a b) es"
    and "mb_page (traffic a b up es mb) = fold (\<lambda>e. pushMessage (msg_of a b e)) es (mb_page mb)"
proof -
  have "mb_store (traffic a b up es mb) = mb_store mb @ map (record_of a b) es
    \<and> mb_page (traffic a b up es mb) = fold (\<lambda>e. pushMessage (msg_of a b e)) es (mb_page mb)"
    using assms(4-)
  proof (induction es arbitrary: mb)
    case (Cons e es)
    have n: "nonce_of e \<noteq> []" using Cons.prems(1) by auto
    define mb' where "mb' = snd (if own_text_of e then message_send a up [] (chat_json b (snd e)) mb else inbound a b (chat_json a (snd e)) mb)"
    note st = traffic_step[OF assms(1-3) n, of up mb, folded mb'_def]
    have new: "mb_store mb' = mb_store mb @ [record_of a b e]"
      using Cons.prems(3) assms(3) unfolding st(1) by (auto simp: store_append_def)
    have "mb_store (traffic a b up es mb') = mb_store mb' @ map (record_of a b) es
      \<and> mb_page (traffic a b up es mb') = fold (\<lambda>e. pushMessage (msg_of a b e)) es (mb_page mb')"
      by (rule Cons.IH) (use Cons.prems new in auto)
    then show ?case by (simp add: mb'_def[symmetric] new st(2) del: if_split)
  qed simp
  then show "mb_store (traffic a b up es mb) = mb_store mb @ map (record_of a b) es"
    and "mb_page (traffic a b up es mb) = fold (\<lambda>e. pushMessage (msg_of a b e)) es (mb_page mb)" by blast+
qed

text \<open>The texts of a conversation that a page with the id \<open>me\<close> files under \<open>k\<close>.\<close>

definition filed :: "string \<Rightarrow> string \<Rightarrow> string option \<Rightarrow> string \<Rightarrow> exchanged list \<Rightarrow> exchanged list" where
  "filed a b me k es = filter (\<lambda>e. conv_key me (msg_of a b e) = k) es"

lemma live_entries:
  "conv_of (app (fold (\<lambda>e. pushMessage (msg_of a b e)) es s)) k
    = conv_of (app s) k @ entries a b (length (conv_of (app s) k)) (filed a b (self_id s) k es)"
proof (induction es arbitrary: s)
  case (Cons e es)
  have c: "conv_of (app (pushMessage (msg_of a b e) s)) j
      = (if j = conv_key (self_id s) (msg_of a b e) then push_item (msg_of a b e) (conv_of (app s) j) else conv_of (app s) j)" for j
    by (simp add: pushMessage_def Let_def)
  show ?case using Cons.IH[of "pushMessage (msg_of a b e) s"] by (auto simp: c push_item_def filed_def)
qed (simp add: filed_def)

lemma merge_entries:
  assumes "distinct (map nonce_of es)" "[] \<notin> nonce_of ` set es" "nonce_of ` set es \<inter> set seen = {}"
  shows "merge_loop me k (map (msg_of a b) es) seen merged = merged @ entries a b (length merged) (filed a b me k es)"
  using assms by (induction es arbitrary: seen merged) (auto simp: filed_def)

text \<open>What a page shows of a conversation after it was loaded again.\<close>

lemma reloaded:
  assumes "distinct (map nonce_of es)" "[] \<notin> nonce_of ` set es" "sorted (map time_of es)" "conv_of (app s) k = []"
  shows "conv_of (app (on_history k (map (record_of a b) es) s)) k = entries a b 0 (filed a b (self_id s) k es)"
proof -
  have "those (map (\<lambda>x. Some (msg_of a b x)) es) = Some (map (msg_of a b) es)" by (induction es) simp_all
  then have t: "those (map read_message (map (record_of a b) es)) = Some (map (msg_of a b) es)" by (simp add: comp_def)
  have "sorted (map cm_ts (entries a b 0 (filed a b (self_id s) k es)))"
    using assms(3) by (simp add: filed_def sorted_filter)
  then show ?thesis
    using assms by (simp add: on_history_def t del: map_map)
      (simp add: history_loaded_def merge_history_def merge_entries set_of_list_def sort_key_id_if_sorted)
qed



end
