(* ===== verification/Group_Rooms.thy ===== *)
theory Group_Rooms
  imports Messaging "HOL-Library.Char_ord" "HOL-Library.List_Lexorder"
begin

text \<open>
  Groups: the table of rooms of a native daemon (\<open>native/core/session/room_manager.cc\<close>), the requests of its page and
  the signals between daemons that keep the tables in step (\<open>native/core/daemon.cc\<close>), and what the pages make of the
  events (\<open>client/native_client.ts\<close>). The owner of a room adds and removes members; the other daemons get copies
  of its table.
\<close>

subsection \<open>The table of rooms\<close>

record daemon_room =
  dr_name :: string
  dr_owner :: string
  dr_members :: "string set"
  dr_seq :: nat

type_synonym room_table = "(string, daemon_room) jsmap"

definition Create :: "string \<Rightarrow> string \<Rightarrow> string \<Rightarrow> room_table \<Rightarrow> room_table" where
  "Create rid owner name t = mset_key rid \<lparr>dr_name = name, dr_owner = owner, dr_members = {owner}, dr_seq = 1\<rparr> t"

definition AddMember :: "string \<Rightarrow> string \<Rightarrow> room_table \<Rightarrow> bool \<times> room_table" where
  "AddMember rid mem t =
     (case mget t rid of
        None \<Rightarrow> (False, t)
      | Some r \<Rightarrow> (True, mset_key rid (r\<lparr>dr_members := insert mem (dr_members r), dr_seq := Suc (dr_seq r)\<rparr>) t))"

definition Leave :: "string \<Rightarrow> string \<Rightarrow> room_table \<Rightarrow> room_table" where
  "Leave rid mem t =
     (case mget t rid of
        None \<Rightarrow> t
      | Some r \<Rightarrow>
          (let ms = dr_members r - {mem} in if ms = {} then mdel rid t else mset_key rid (r\<lparr>dr_members := ms\<rparr>) t))"

definition Upsert :: "string \<Rightarrow> string \<Rightarrow> string \<Rightarrow> string list \<Rightarrow> room_table \<Rightarrow> room_table" where
  "Upsert rid name owner ms t =
     (let r = (case mget t rid of None \<Rightarrow> \<lparr>dr_name = [], dr_owner = [], dr_members = {}, dr_seq = 0\<rparr> | Some r \<Rightarrow> r)
      in mset_key rid \<lparr>dr_name = (if name \<noteq> [] then name else dr_name r), dr_owner = (if owner \<noteq> [] then owner else dr_owner r),
           dr_members = set ms, dr_seq = Suc (dr_seq r)\<rparr> t)"

subsection \<open>Pages\<close>

definition strings_at :: "string \<Rightarrow> json \<Rightarrow> string list option" where
  "strings_at k d = (case jfield k d of
     Some (JList xs) \<Rightarrow> those (map (\<lambda>x. case x of JStr v \<Rightarrow> Some v | _ \<Rightarrow> None) xs) | _ \<Rightarrow> None)"

definition read_room :: "json \<Rightarrow> room_info option" where
  "read_room d = map_option (\<lambda>rid. \<lparr>ri_roomId = rid, ri_name = str_at ''name'' d, ri_owner = str_at ''owner'' d,
     ri_members = strings_at ''members'' d, ri_seq = nat_at ''seq'' d, ri_meshPort = nat_at ''meshPort'' d\<rparr>) (str_at ''roomId'' d)"

text \<open>The handlers of the room events, for payloads with the fields they read.\<close>

definition on_room_event :: "string \<Rightarrow> json \<Rightarrow> ui \<Rightarrow> ui" where
  "on_room_event m d s =
     (if m = ''joined'' then (case read_room d of None \<Rightarrow> s | Some r \<Rightarrow> on_joined r s)
      else if m = ''invited'' then (case read_room d of None \<Rightarrow> s | Some r \<Rightarrow> on_invited r s)
      else if m = ''sync'' \<or> m = ''room_sync'' then (case read_room d of None \<Rightarrow> s | Some r \<Rightarrow> on_room_sync r s)
      else if m = ''member_joined''
      then (case (str_at ''roomId'' d, str_at ''member'' d) of (Some rid, Some mem) \<Rightarrow> on_member_joined rid mem s | _ \<Rightarrow> s)
      else if m = ''member_left''
      then (case (str_at ''roomId'' d, str_at ''member'' d) of (Some rid, Some mem) \<Rightarrow> on_member_left rid mem (str_at ''name'' d) s | _ \<Rightarrow> s)
      else s)"

subsection \<open>The daemons\<close>

record room_node =
  rn_box :: mailbox
  rn_rooms :: room_table

definition RoomPayload :: "string \<Rightarrow> daemon_room \<Rightarrow> json" where
  "RoomPayload rid r = JObj [(''roomId'', JStr rid), (''name'', JStr (dr_name r)), (''owner'', JStr (dr_owner r)),
     (''members'', JList (map JStr (sorted_list_of_set (dr_members r)))), (''seq'', JNum (int (dr_seq r)))]"

definition EmitRoomEvent :: "string \<Rightarrow> json \<Rightarrow> room_node \<Rightarrow> room_node" where
  "EmitRoomEvent m d n = n\<lparr>rn_box := (rn_box n)\<lparr>mb_page := on_room_event m d (mb_page (rn_box n))\<rparr>\<rparr>"

definition FanOutRoomSync :: "string \<Rightarrow> string list \<Rightarrow> string \<Rightarrow> string \<Rightarrow> daemon_room \<Rightarrow> packet list" where
  "FanOutRoomSync own known exclude rid r =
     map (\<lambda>m. \<lparr>pk_from = own, pk_to = m, pk_m = ''sync'', pk_d = RoomPayload rid r\<rparr>)
       (filter (\<lambda>m. m \<noteq> own \<and> m \<noteq> exclude \<and> m \<in> set known) (sorted_list_of_set (dr_members r)))"

text \<open>The requests of the page: an error code or the reply, the packets for other daemons, the state. The id of a
  new room is a hash of the owner, the name and the time.\<close>

type_synonym room_reply = "(int + json) \<times> packet list \<times> room_node"

definition room_create :: "string \<Rightarrow> string \<Rightarrow> string \<Rightarrow> room_node \<Rightarrow> room_reply" where
  "room_create own rid name n =
     (let t = Create rid own name (rn_rooms n)
      in (Inr (JObj [(''roomId'', JStr rid), (''name'', JStr name)]), [],
          case mget t rid of None \<Rightarrow> n\<lparr>rn_rooms := t\<rparr> | Some r \<Rightarrow> EmitRoomEvent ''joined'' (RoomPayload rid r) (n\<lparr>rn_rooms := t\<rparr>)))"

definition room_join :: "string \<Rightarrow> string list \<Rightarrow> string \<Rightarrow> room_node \<Rightarrow> room_reply" where
  "room_join own known rid n =
     (let (ok, t) = AddMember rid own (rn_rooms n)
      in case mget t rid of
           None \<Rightarrow> (Inl (- 32001), [], n)
         | Some r \<Rightarrow>
             (Inr (JObj [(''roomId'', JStr rid)]),
              if dr_owner r \<noteq> own \<and> dr_owner r \<in> set known
              then [\<lparr>pk_from = own, pk_to = dr_owner r, pk_m = ''member_joined'',
                     pk_d = JObj [(''roomId'', JStr rid), (''member'', JStr own)]\<rparr>] else [],
              EmitRoomEvent ''joined'' (RoomPayload rid r) (n\<lparr>rn_rooms := t\<rparr>)))"

definition room_leave :: "string \<Rightarrow> string list \<Rightarrow> string \<Rightarrow> room_node \<Rightarrow> room_reply" where
  "room_leave own known rid n =
     (let was_owner = (case mget (rn_rooms n) rid of None \<Rightarrow> False | Some r \<Rightarrow> dr_owner r = own);
          t = Leave rid own (rn_rooms n)
      in (Inr (JObj [(''roomId'', JStr rid)]),
          case mget t rid of None \<Rightarrow> [] | Some r \<Rightarrow> if was_owner then FanOutRoomSync own known own rid r else [],
          n\<lparr>rn_rooms := t\<rparr>))"

definition room_invite :: "string \<Rightarrow> string list \<Rightarrow> json \<Rightarrow> room_node \<Rightarrow> room_reply" where
  "room_invite own known d n =
     (let rid = getStr (Some d) ''roomId'' []; target = getStr (Some d) ''to'' []
      in case mget (rn_rooms n) rid of
           None \<Rightarrow> (Inl (- 32003), [], n)
         | Some r \<Rightarrow>
             if dr_owner r \<noteq> own then (Inl (- 32003), [], n)
             else if target = [] \<or> target = own then (Inl (- 32004), [], n)
             else (let r' = r\<lparr>dr_members := insert target (dr_members r), dr_seq := Suc (dr_seq r)\<rparr>
                   in (Inr (JObj [(''roomId'', JStr rid), (''member'', JStr target)]),
                       (if target \<in> set known
                        then [\<lparr>pk_from = own, pk_to = target, pk_m = ''invited'', pk_d = RoomPayload rid r'\<rparr>] else [])
                       @ FanOutRoomSync own known target rid r',
                       EmitRoomEvent ''sync'' (RoomPayload rid r') (n\<lparr>rn_rooms := mset_key rid r' (rn_rooms n)\<rparr>))))"

definition room_kick :: "string \<Rightarrow> string list \<Rightarrow> json \<Rightarrow> room_node \<Rightarrow> room_reply" where
  "room_kick own known d n =
     (let rid = getStr (Some d) ''roomId'' []; target = getStr (Some d) ''to'' []
      in case mget (rn_rooms n) rid of
           None \<Rightarrow> (Inl (- 32003), [], n)
         | Some r \<Rightarrow>
             if dr_owner r \<noteq> own then (Inl (- 32003), [], n)
             else (let r' = r\<lparr>dr_members := dr_members r - {target}, dr_seq := Suc (dr_seq r)\<rparr>
                   in (Inr (JObj [(''roomId'', JStr rid), (''member'', JStr target)]),
                       (if target \<in> set known
                        then [\<lparr>pk_from = own, pk_to = target, pk_m = ''member_left'',
                               pk_d = JObj [(''roomId'', JStr rid), (''member'', JStr target), (''name'', JStr (dr_name r))]\<rparr>] else [])
                       @ FanOutRoomSync own known target rid r',
                       EmitRoomEvent ''sync'' (RoomPayload rid r') (n\<lparr>rn_rooms := mset_key rid r' (rn_rooms n)\<rparr>))))"

definition room_members :: "string \<Rightarrow> room_node \<Rightarrow> json" where
  "room_members rid n =
     (case mget (rn_rooms n) rid of
        None \<Rightarrow> JObj [(''members'', JList []), (''owner'', JStr [])]
      | Some r \<Rightarrow> JObj [(''members'', JList (map JStr (sorted_list_of_set (dr_members r)))), (''owner'', JStr (dr_owner r))])"

text \<open>A signal from another daemon: \<open>HandleInboundRoomSignal\<close>.\<close>

definition member_list :: "json \<Rightarrow> string list" where
  "member_list d = (case jfield ''members'' d of
     Some (JList xs) \<Rightarrow> List.map_filter (\<lambda>x. case x of JStr v \<Rightarrow> if v \<noteq> [] then Some v else None | _ \<Rightarrow> None) xs | _ \<Rightarrow> [])"

definition room_inbound :: "string \<Rightarrow> string list \<Rightarrow> packet \<Rightarrow> room_node \<Rightarrow> packet list \<times> room_node" where
  "room_inbound own known pk n =
     (if pk_from pk = [] \<or> pk_from pk = own then ([], n)
      else let d = pk_d pk; rid = getStr (Some d) ''roomId'' []; mem = getStr (Some d) ''member'' [];
               t1 = (if pk_m pk = ''member_left'' \<and> mem = own then Leave rid own (rn_rooms n) else rn_rooms n);
               (out, t2) = (case mget t1 rid of
                  Some r \<Rightarrow> if pk_m pk = ''member_joined'' \<and> dr_owner r = own
                    then (let r' = (if mem \<in> dr_members r then r else r\<lparr>dr_members := insert mem (dr_members r), dr_seq := Suc (dr_seq r)\<rparr>)
                          in (FanOutRoomSync own known [] rid r', mset_key rid r' t1))
                    else ([], t1)
                | None \<Rightarrow> ([], t1));
               t3 = (if pk_m pk \<in> {''invited'', ''sync'', ''room_sync''}
                     then Upsert rid (getStr (Some d) ''name'' []) (getStr (Some d) ''owner'' [])
                            (member_list d) t2
                     else t2)
           in (out, EmitRoomEvent (if pk_m pk = [] then ''room_sync'' else pk_m pk)
                      (set_field ''from'' (JStr (pk_from pk)) (set_field ''fromId'' (JStr (pk_from pk)) d)) (n\<lparr>rn_rooms := t3\<rparr>)))"

subsection \<open>Daemons together\<close>

text \<open>Every device with its daemon and its page; \<open>knows\<close>: the peers each daemon knows. The packets are delivered in
  order, then those sent in answer, in rounds.\<close>

type_synonym group_world = "string \<Rightarrow> room_node"

fun hop :: "(string \<Rightarrow> string list) \<Rightarrow> packet list \<Rightarrow> group_world \<Rightarrow> packet list \<times> group_world" where
  "hop knows [] w = ([], w)"
| "hop knows (pk # pks) w =
     (let (out, n) = room_inbound (pk_to pk) (knows (pk_to pk)) pk (w (pk_to pk)); (outs, w') = hop knows pks (w(pk_to pk := n))
      in (out @ outs, w'))"

fun quiesce :: "nat \<Rightarrow> (string \<Rightarrow> string list) \<Rightarrow> packet list \<Rightarrow> group_world \<Rightarrow> packet list \<times> group_world" where
  "quiesce 0 knows pks w = (pks, w)"
| "quiesce (Suc k) knows pks w = (if pks = [] then ([], w) else (let (out, w') = hop knows pks w in quiesce k knows out w'))"

datatype group_round = MInvite string | MKick string | MJoin string

definition to_json :: "string \<Rightarrow> string \<Rightarrow> json" where
  "to_json rid t = JObj [(''roomId'', JStr rid), (''to'', JStr t)]"

fun ask_round :: "(string \<Rightarrow> string list) \<Rightarrow> string \<Rightarrow> string \<Rightarrow> group_round \<Rightarrow> group_world \<Rightarrow> packet list \<times> group_world" where
  "ask_round knows h rid (MInvite t) w = (case room_invite h (knows h) (to_json rid t) (w h) of (_, pks, n) \<Rightarrow> (pks, w(h := n)))"
| "ask_round knows h rid (MKick t) w = (case room_kick h (knows h) (to_json rid t) (w h) of (_, pks, n) \<Rightarrow> (pks, w(h := n)))"
| "ask_round knows h rid (MJoin d) w = (case room_join d (knows d) rid (w d) of (_, pks, n) \<Rightarrow> (pks, w(d := n)))"

text \<open>A request with all the packets it causes; two hops are enough.\<close>

definition group_do :: "(string \<Rightarrow> string list) \<Rightarrow> string \<Rightarrow> string \<Rightarrow> group_round \<Rightarrow> group_world \<Rightarrow> group_world" where
  "group_do knows h rid g w = (case ask_round knows h rid g w of (pks, w1) \<Rightarrow> snd (quiesce 2 knows pks w1))"

text \<open>The abstract group: its members, and the devices that hold a copy of its table.\<close>

record group_view =
  gv_members :: "string set"
  gv_holders :: "string set"

fun group_spec :: "string \<Rightarrow> group_round \<Rightarrow> group_view \<Rightarrow> group_view" where
  "group_spec h (MInvite t) g =
     (if t = h then g else g\<lparr>gv_members := insert t (gv_members g), gv_holders := insert t (gv_holders g)\<rparr>)"
| "group_spec h (MKick t) g = g\<lparr>gv_members := gv_members g - {t}\<rparr>"
| "group_spec h (MJoin d) g = (if d \<in> gv_holders g then g\<lparr>gv_members := insert d (gv_members g)\<rparr> else g)"

fun round_ok :: "(string \<Rightarrow> string list) \<Rightarrow> string \<Rightarrow> group_round \<Rightarrow> bool" where
  "round_ok knows h (MInvite t) = (t = h \<or> t \<in> set (knows h))"
| "round_ok knows h (MKick t) = (t \<noteq> h \<and> t \<in> set (knows h))"
| "round_ok knows h (MJoin d) = (d \<noteq> h \<and> h \<in> set (knows d))"

definition page_room :: "string \<Rightarrow> room_node \<Rightarrow> room_info option" where
  "page_room rid n = mget (rooms (app (mb_page (rn_box n)))) rid"

text \<open>A member's daemon and page have the members of the room; a device that is no member is not in its own copy,
  and a page that knows itself by its daemon's id does not show the room.\<close>

definition shows_members :: "string \<Rightarrow> string \<Rightarrow> string set \<Rightarrow> room_node \<Rightarrow> bool" where
  "shows_members h rid M n \<longleftrightarrow>
     (\<exists>r. mget (rn_rooms n) rid = Some r \<and> dr_owner r = h \<and> dr_members r = M)
   \<and> (\<exists>r. page_room rid n = Some r \<and> set (members_of r) = M \<and> distinct (members_of r))"

definition group_ok :: "(string \<Rightarrow> string list) \<Rightarrow> string \<Rightarrow> string \<Rightarrow> group_view \<Rightarrow> group_world \<Rightarrow> bool" where
  "group_ok knows h rid g w \<longleftrightarrow>
     h \<in> gv_members g \<and> finite (gv_members g) \<and> gv_members g \<subseteq> gv_holders g \<and> gv_holders g \<subseteq> insert h (set (knows h))
   \<and> (\<forall>d \<in> gv_members g. shows_members h rid (gv_members g) (w d))
   \<and> (\<forall>d \<in> gv_holders g - gv_members g. \<exists>r. mget (rn_rooms (w d)) rid = Some r \<and> dr_owner r = h \<and> d \<notin> dr_members r \<and> h \<in> dr_members r)
   \<and> (\<forall>d. d \<notin> gv_holders g \<longrightarrow> mget (rn_rooms (w d)) rid = None)
   \<and> (\<forall>d. d \<notin> gv_members g \<longrightarrow> self_id (mb_page (rn_box (w d))) = Some d \<longrightarrow> page_room rid (w d) = None)"

subsection \<open>What a signal does\<close>

lemma jfield_from [simp]: "k \<noteq> ''from'' \<Longrightarrow> k \<noteq> ''fromId'' \<Longrightarrow>
    jfield k (set_field ''from'' x (set_field ''fromId'' y d)) = jfield k d"
  by (simp add: jfield_set)

lemma payload_fields [simp]:
  "getStr (Some (RoomPayload rid r)) ''roomId'' [] = rid" "getStr (Some (RoomPayload rid r)) ''name'' [] = dr_name r"
  "getStr (Some (RoomPayload rid r)) ''owner'' [] = dr_owner r"
  by (simp_all add: getStr_def RoomPayload_def)

lemma payload_members:
  assumes "finite (dr_members r)" "[] \<notin> dr_members r"
  shows "set (member_list (RoomPayload rid r)) = dr_members r"
proof -
  have "set (List.map_filter (\<lambda>x. case x of JStr v \<Rightarrow> if v \<noteq> [] then Some v else None | _ \<Rightarrow> None) (map JStr vs)) = set vs - {[]}" for vs
    by (induction vs) (auto simp: map_filter_simps)
  then show ?thesis using assms by (simp add: member_list_def RoomPayload_def)
qed

lemma those_Some: "those (map (\<lambda>x. Some (f x)) xs) = Some (map f xs)"
  by (induction xs) simp_all

lemma read_payload:
  assumes "\<And>k. k \<noteq> ''from'' \<Longrightarrow> k \<noteq> ''fromId'' \<Longrightarrow> jfield k d = jfield k (RoomPayload rid r)"
  shows "\<exists>i. read_room d = Some i \<and> ri_roomId i = rid \<and> ri_members i = Some (sorted_list_of_set (dr_members r))"
  using those_Some[of "\<lambda>x. x" "sorted_list_of_set (dr_members r)"]
  by (simp add: read_room_def str_at_def strings_at_def assms) (simp add: RoomPayload_def comp_def)

lemma upsert_page:
  assumes "read_room d = Some i" "ri_members i = Some ms" "m \<in> {''joined'', ''invited'', ''sync''}"
  shows "\<exists>r. mget (rooms (app (on_room_event m d s))) (ri_roomId i) = Some r \<and> members_of r = ms"
    and "self_id (on_room_event m d s) = self_id s"
  using assms
  by (auto simp: on_room_event_def on_joined_def on_invited_def on_room_sync_def upsertRoom_def members_of_def spread_room_def over_def
      self_id_def split: option.split)

text \<open>A page that gets the table of its daemon.\<close>

lemma emit_shows:
  assumes "mget (rn_rooms n) rid = Some r" "dr_owner r = h" "dr_members r = M" "finite M" "m \<in> {''joined'', ''invited'', ''sync''}"
    and "\<And>k. k \<noteq> ''from'' \<Longrightarrow> k \<noteq> ''fromId'' \<Longrightarrow> jfield k d = jfield k (RoomPayload rid r')" "dr_members r' = M"
  shows "shows_members h rid M (EmitRoomEvent m d n)"
    and "self_id (mb_page (rn_box (EmitRoomEvent m d n))) = self_id (mb_page (rn_box n))"
    and "rn_rooms (EmitRoomEvent m d n) = rn_rooms n"
proof -
  obtain i where i: "read_room d = Some i" "ri_roomId i = rid" "ri_members i = Some (sorted_list_of_set M)"
    using read_payload[OF assms(6)] assms(7) by blast
  note up = upsert_page[OF i(1,3) assms(5), of "mb_page (rn_box n)"]
  from up(1) show "shows_members h rid M (EmitRoomEvent m d n)"
    using assms(1-4) i(2) by (auto simp: shows_members_def page_room_def EmitRoomEvent_def)
  show "self_id (mb_page (rn_box (EmitRoomEvent m d n))) = self_id (mb_page (rn_box n))" using up(2) by (simp add: EmitRoomEvent_def)
qed (simp add: EmitRoomEvent_def)

lemma inbound_table:
  fixes n :: room_node and rid :: string and known :: "string list"
  assumes "h \<noteq> []" "own \<noteq> h" "m \<in> {''invited'', ''sync''}" "dr_owner r = h" "finite (dr_members r)" "[] \<notin> dr_members r"
  defines "res \<equiv> room_inbound own known \<lparr>pk_from = h, pk_to = own, pk_m = m, pk_d = RoomPayload rid r\<rparr> n"
  shows "fst res = []" "shows_members h rid (dr_members r) (snd res)" "self_id (mb_page (rn_box (snd res))) = self_id (mb_page (rn_box n))"
proof -
  define t where "t = Upsert rid (dr_name r) h (member_list (RoomPayload rid r)) (rn_rooms n)"
  have e: "res = ([], EmitRoomEvent m (set_field ''from'' (JStr h) (set_field ''fromId'' (JStr h) (RoomPayload rid r))) (n\<lparr>rn_rooms := t\<rparr>))"
    using assms(1-4) by (auto simp: res_def room_inbound_def Let_def t_def split: option.split)
  obtain r1 where r1: "mget t rid = Some r1" "dr_owner r1 = h" "dr_members r1 = dr_members r"
    using assms(1) payload_members[OF assms(5,6)] by (simp add: t_def Upsert_def Let_def)
  have m: "m \<in> {''joined'', ''invited'', ''sync''}" using assms(3) by blast
  note em = emit_shows[of "n\<lparr>rn_rooms := t\<rparr>" rid r1 h "dr_members r" m
      "set_field ''from'' (JStr h) (set_field ''fromId'' (JStr h) (RoomPayload rid r))" r]
  show "fst res = []" "shows_members h rid (dr_members r) (snd res)" "self_id (mb_page (rn_box (snd res))) = self_id (mb_page (rn_box n))"
    using em r1 assms(5) m by (simp_all add: e)
qed

subsection \<open>Rounds\<close>

lemma hop_append: "hop knows (xs @ ys) w = (let (o1, w1) = hop knows xs w; (o2, w2) = hop knows ys w1 in (o1 @ o2, w2))"
  by (induction xs arbitrary: w) (auto split: prod.split)

text \<open>A table that goes to its members: each that the owner knows shows it then, nobody else notices.\<close>

lemma fan_out_hop:
  fixes knows :: "string \<Rightarrow> string list" and ex :: string
  assumes "h \<noteq> []" "dr_owner r = h" "finite (dr_members r)" "[] \<notin> dr_members r"
  defines "R \<equiv> {m \<in> dr_members r. m \<noteq> h \<and> m \<noteq> ex \<and> m \<in> set (knows h)}"
  shows "\<exists>w'. hop knows (FanOutRoomSync h (knows h) ex rid r) w = ([], w')
    \<and> (\<forall>d \<in> R. shows_members h rid (dr_members r) (w' d)) \<and> (\<forall>d. d \<notin> R \<longrightarrow> w' d = w d)
    \<and> (\<forall>d. self_id (mb_page (rn_box (w' d))) = self_id (mb_page (rn_box (w d))))"
proof -
  define pk where "pk = (\<lambda>m. \<lparr>pk_from = h, pk_to = m, pk_m = ''sync'', pk_d = RoomPayload rid r\<rparr>)"
  have hop: "\<exists>w'. hop knows (map pk ms) w = ([], w') \<and> (\<forall>d \<in> set ms. shows_members h rid (dr_members r) (w' d))
      \<and> (\<forall>d. d \<notin> set ms \<longrightarrow> w' d = w d) \<and> (\<forall>d. self_id (mb_page (rn_box (w' d))) = self_id (mb_page (rn_box (w d))))"
    if "distinct ms" "h \<notin> set ms" for ms
    using that
  proof (induction ms arbitrary: w)
    case (Cons m ms)
    have "m \<noteq> h" using Cons.prems by auto
    then have res: "fst (room_inbound m (knows m) (pk m) (w m)) = []" "shows_members h rid (dr_members r) (snd (room_inbound m (knows m) (pk m) (w m)))"
      "self_id (mb_page (rn_box (snd (room_inbound m (knows m) (pk m) (w m))))) = self_id (mb_page (rn_box (w m)))"
      using inbound_table[OF assms(1) _ _ assms(2-4), where own = m and m = "''sync''"] unfolding pk_def by simp_all
    define w1 where "w1 = w(m := snd (room_inbound m (knows m) (pk m) (w m)))"
    obtain w' where w': "hop knows (map pk ms) w1 = ([], w')" "\<forall>d \<in> set ms. shows_members h rid (dr_members r) (w' d)"
      "\<forall>d. d \<notin> set ms \<longrightarrow> w' d = w1 d" "\<forall>d. self_id (mb_page (rn_box (w' d))) = self_id (mb_page (rn_box (w1 d)))"
      using Cons.IH[of w1] Cons.prems by auto
    have "pk_to (pk m) = m" by (simp add: pk_def)
    then have "hop knows (map pk (m # ms)) w = ([], w')" using res(1) w'(1) by (auto simp: w1_def split: prod.split)
    then show ?case using res(2,3) w'(2-4) Cons.prems by (intro exI[of _ w']) (auto simp: w1_def)
  qed simp
  have "FanOutRoomSync h (knows h) ex rid r = map pk (filter (\<lambda>m. m \<noteq> h \<and> m \<noteq> ex \<and> m \<in> set (knows h)) (sorted_list_of_set (dr_members r)))"
    by (simp add: FanOutRoomSync_def pk_def)
  moreover have "set (filter (\<lambda>m. m \<noteq> h \<and> m \<noteq> ex \<and> m \<in> set (knows h)) (sorted_list_of_set (dr_members r))) = R"
    using assms(3) by (auto simp: R_def)
  ultimately show ?thesis using hop[of "filter (\<lambda>m. m \<noteq> h \<and> m \<noteq> ex \<and> m \<in> set (knows h)) (sorted_list_of_set (dr_members r))"] by auto
qed

lemma hop_first:
  assumes "pk_to pk = t" "fst (room_inbound t (knows t) pk (w t)) = []" "hop knows pks (w(t := snd (room_inbound t (knows t) pk (w t)))) = ([], w')"
  shows "hop knows (pk # pks) w = ([], w')"
  using assms by (cases "room_inbound t (knows t) pk (w t)") simp

lemma hop_quiet: "hop knows pks w = ([], w') \<Longrightarrow> snd (quiesce 2 knows pks w) = w'"
  by (cases pks) (simp_all add: numeral_2_eq_2)

definition peers_ok :: "(string \<Rightarrow> string list) \<Rightarrow> string \<Rightarrow> bool" where
  "peers_ok knows h \<longleftrightarrow> h \<noteq> [] \<and> [] \<notin> set (knows h) \<and> h \<notin> set (knows h)"

definition stale_copy :: "string \<Rightarrow> string \<Rightarrow> string \<Rightarrow> room_node \<Rightarrow> bool" where
  "stale_copy h rid d n \<longleftrightarrow> (\<exists>r. mget (rn_rooms n) rid = Some r \<and> dr_owner r = h \<and> d \<notin> dr_members r \<and> h \<in> dr_members r)"

lemma group_ok_alt:
  "group_ok knows h rid g w \<longleftrightarrow>
     h \<in> gv_members g \<and> finite (gv_members g) \<and> gv_members g \<subseteq> gv_holders g \<and> gv_holders g \<subseteq> insert h (set (knows h))
   \<and> (\<forall>d. d \<in> gv_members g \<longrightarrow> shows_members h rid (gv_members g) (w d))
   \<and> (\<forall>d. d \<in> gv_holders g \<longrightarrow> d \<notin> gv_members g \<longrightarrow> stale_copy h rid d (w d))
   \<and> (\<forall>d. d \<notin> gv_holders g \<longrightarrow> mget (rn_rooms (w d)) rid = None)
   \<and> (\<forall>d. d \<notin> gv_members g \<longrightarrow> self_id (mb_page (rn_box (w d))) = Some d \<longrightarrow> page_room rid (w d) = None)"
  unfolding group_ok_def stale_copy_def by blast

lemma group_parts:
  assumes "group_ok knows h rid g w"
  shows "h \<in> gv_members g" "finite (gv_members g)" "gv_members g \<subseteq> gv_holders g" "gv_holders g \<subseteq> insert h (set (knows h))"
    and "\<And>d. d \<in> gv_members g \<Longrightarrow> shows_members h rid (gv_members g) (w d)"
    and "\<And>d. d \<in> gv_holders g \<Longrightarrow> d \<notin> gv_members g \<Longrightarrow> stale_copy h rid d (w d)"
    and "\<And>d. d \<notin> gv_holders g \<Longrightarrow> mget (rn_rooms (w d)) rid = None"
    and "\<And>d. d \<notin> gv_members g \<Longrightarrow> self_id (mb_page (rn_box (w d))) = Some d \<Longrightarrow> page_room rid (w d) = None"
  using assms unfolding group_ok_alt by blast+

lemma group_okI:
  assumes "h \<in> M" "finite M" "M \<subseteq> H" "H \<subseteq> insert h (set (knows h))"
    and "\<And>d. d \<in> M \<Longrightarrow> shows_members h rid M (w d)"
    and "\<And>d. d \<in> H \<Longrightarrow> d \<notin> M \<Longrightarrow> stale_copy h rid d (w d)"
    and "\<And>d. d \<notin> H \<Longrightarrow> mget (rn_rooms (w d)) rid = None"
    and "\<And>d. d \<notin> M \<Longrightarrow> self_id (mb_page (rn_box (w d))) = Some d \<Longrightarrow> page_room rid (w d) = None"
  shows "group_ok knows h rid \<lparr>gv_members = M, gv_holders = H\<rparr> w"
  using assms unfolding group_ok_alt by simp

text \<open>Any device that holds a copy of the table knows the owner.\<close>

lemma holder_table:
  assumes "group_ok knows h rid g w" "d \<in> gv_holders g"
  obtains r where "mget (rn_rooms (w d)) rid = Some r" "dr_owner r = h" "h \<in> dr_members r"
proof (cases "d \<in> gv_members g")
  case True
  then show thesis using group_parts(1)[OF assms(1)] group_parts(5)[OF assms(1) True] that unfolding shows_members_def by blast
next
  case False
  then show thesis using group_parts(6)[OF assms(1,2) False] that unfolding stale_copy_def by blast
qed

lemma group_okD:
  assumes "group_ok knows h rid g w" "peers_ok knows h"
  obtains r where "mget (rn_rooms (w h)) rid = Some r" "dr_owner r = h" "dr_members r = gv_members g" "finite (gv_members g)"
    "h \<in> gv_members g" "[] \<notin> gv_members g" "gv_members g - {h} \<subseteq> set (knows h)"
proof -
  note g = group_parts(1-4)[OF assms(1)]
  have s: "shows_members h rid (gv_members g) (w h)" by (rule group_parts(5)[OF assms(1) g(1)])
  from s obtain r where r: "mget (rn_rooms (w h)) rid = Some r" "dr_owner r = h" "dr_members r = gv_members g"
    unfolding shows_members_def by blast
  have "[] \<notin> gv_members g" "gv_members g - {h} \<subseteq> set (knows h)" using g(3,4) assms(2) by (auto simp: peers_ok_def)
  then show thesis using that r g by blast
qed

lemma to_json_fields [simp]: "getStr (Some (to_json rid t)) ''roomId'' [] = rid" "getStr (Some (to_json rid t)) ''to'' [] = t"
  by (simp_all add: to_json_def getStr_def)

lemma round_invite:
  assumes g: "group_ok knows h rid g w" and p: "peers_ok knows h" and t: "t \<in> set (knows h)"
  shows "group_ok knows h rid (group_spec h (MInvite t) g) (group_do knows h rid (MInvite t) w)"
proof -
  obtain r where r: "mget (rn_rooms (w h)) rid = Some r" "dr_owner r = h" "dr_members r = gv_members g" "finite (gv_members g)"
    "h \<in> gv_members g" "[] \<notin> gv_members g" "gv_members g - {h} \<subseteq> set (knows h)" by (rule group_okD[OF g p])
  have th: "t \<noteq> h" "t \<noteq> []" "h \<noteq> []" using p t by (auto simp: peers_ok_def)
  define r' where "r' = r\<lparr>dr_members := insert t (dr_members r), dr_seq := Suc (dr_seq r)\<rparr>"
  define M where "M = insert t (gv_members g)"
  have r': "dr_owner r' = h" "dr_members r' = M" "finite (dr_members r')" "[] \<notin> dr_members r'" "finite M"
    using r th by (simp_all add: r'_def M_def)
  define n where "n = EmitRoomEvent ''sync'' (RoomPayload rid r') ((w h)\<lparr>rn_rooms := mset_key rid r' (rn_rooms (w h))\<rparr>)"
  have n: "shows_members h rid M n" "self_id (mb_page (rn_box n)) = self_id (mb_page (rn_box (w h)))"
    using emit_shows[of "(w h)\<lparr>rn_rooms := mset_key rid r' (rn_rooms (w h))\<rparr>" rid r' h M "''sync''" "RoomPayload rid r'" r'] r' by (simp_all add: n_def)
  define pk where "pk = \<lparr>pk_from = h, pk_to = t, pk_m = ''invited'', pk_d = RoomPayload rid r'\<rparr>"
  have ask: "ask_round knows h rid (MInvite t) w = (pk # FanOutRoomSync h (knows h) t rid r', w(h := n))"
    using r(1,2) th t by (simp add: room_invite_def Let_def r'_def[symmetric] n_def pk_def)
  note at_t = inbound_table[OF th(3,1), where m = "''invited''" and r = r' and rid = rid and known = "knows t" and n = "w t", unfolded r'(2), folded pk_def]
  define w2 where "w2 = w(h := n, t := snd (room_inbound t (knows t) pk (w t)))"
  obtain w' where w': "hop knows (FanOutRoomSync h (knows h) t rid r') w2 = ([], w')"
    "\<forall>d \<in> {m \<in> M. m \<noteq> h \<and> m \<noteq> t \<and> m \<in> set (knows h)}. shows_members h rid M (w' d)"
    "\<forall>d. d \<notin> {m \<in> M. m \<noteq> h \<and> m \<noteq> t \<and> m \<in> set (knows h)} \<longrightarrow> w' d = w2 d"
    "\<forall>d. self_id (mb_page (rn_box (w' d))) = self_id (mb_page (rn_box (w2 d)))"
    using fan_out_hop[OF th(3) r'(1,3,4), of knows t rid w2] r'(2) by auto
  have "hop knows (pk # FanOutRoomSync h (knows h) t rid r') (w(h := n)) = ([], w')"
    by (rule hop_first[of pk t]) (use w'(1) at_t(1) r' th in \<open>simp_all add: w2_def\<close>, simp add: pk_def)
  from hop_quiet[OF this] have "group_do knows h rid (MInvite t) w = w'" unfolding group_do_def ask prod.case .
  moreover have "group_ok knows h rid \<lparr>gv_members = M, gv_holders = insert t (gv_holders g)\<rparr> w'"
  proof (rule group_okI)
    note g' = group_parts[OF g]
    show "h \<in> M" "finite M" "M \<subseteq> insert t (gv_holders g)" "insert t (gv_holders g) \<subseteq> insert h (set (knows h))"
      using g'(1-4) t by (auto simp: M_def)
    show "shows_members h rid M (w' d)" if "d \<in> M" for d
      using that w'(2,3) n(1) at_t(2) r' r(7) th by (cases "d = h"; cases "d = t") (auto simp: w2_def M_def)
    have out_M: "w' d = w d" "d \<noteq> t" "d \<notin> gv_members g" if "d \<notin> M" for d using that w'(3) r(5) by (auto simp: w2_def M_def)
    show "stale_copy h rid d (w' d)" if "d \<in> insert t (gv_holders g)" "d \<notin> M" for d using that out_M g'(6) by simp
    show "mget (rn_rooms (w' d)) rid = None" if "d \<notin> insert t (gv_holders g)" for d
    proof -
      have "d \<notin> M" using that g'(3) by (auto simp: M_def)
      then show ?thesis using that out_M(1)[of d] g'(7)[of d] by simp
    qed
    show "page_room rid (w' d) = None" if "d \<notin> M" "self_id (mb_page (rn_box (w' d))) = Some d" for d using that out_M g'(8) by simp
  qed
  ultimately show ?thesis using th by (cases g) (simp add: M_def)
qed

abbreviation kick_packet :: "string \<Rightarrow> string \<Rightarrow> string \<Rightarrow> string \<Rightarrow> packet" where
  "kick_packet h t rid nm \<equiv>
     \<lparr>pk_from = h, pk_to = t, pk_m = ''member_left'', pk_d = JObj [(''roomId'', JStr rid), (''member'', JStr t), (''name'', JStr nm)]\<rparr>"

lemma kick_fields [simp]:
  "str_at ''roomId'' (JObj [(''roomId'', JStr rid), (''member'', JStr t), (''name'', JStr nm)]) = Some rid"
  "str_at ''member'' (JObj [(''roomId'', JStr rid), (''member'', JStr t), (''name'', JStr nm)]) = Some t"
  "getStr (Some (JObj [(''roomId'', JStr rid), (''member'', JStr t), (''name'', JStr nm)])) ''roomId'' [] = rid"
  "getStr (Some (JObj [(''roomId'', JStr rid), (''member'', JStr t), (''name'', JStr nm)])) ''member'' [] = t"
  by (simp_all add: str_at_def getStr_def)

lemma str_at_from [simp]: "k \<noteq> ''from'' \<Longrightarrow> k \<noteq> ''fromId'' \<Longrightarrow> str_at k (set_field ''from'' x (set_field ''fromId'' y d)) = str_at k d"
  by (simp add: str_at_def)

lemma left_page:
  "self_id s = Some t \<Longrightarrow> mget (rooms (app (on_member_left rid t nm s))) rid = None"
  "self_id (on_member_left rid t nm s) = self_id s"
  by (simp add: on_member_left_def) (auto simp: on_member_left_def setMembers_def self_id_def Let_def split: option.split)

lemma kicked_at:
  assumes "h \<noteq> []" "t \<noteq> h"
  shows "fst (room_inbound t known (kick_packet h t rid nm) n) = []"
    and "rn_rooms (snd (room_inbound t known (kick_packet h t rid nm) n)) = Leave rid t (rn_rooms n)"
    and "self_id (mb_page (rn_box n)) = Some t \<Longrightarrow> page_room rid (snd (room_inbound t known (kick_packet h t rid nm) n)) = None"
    and "self_id (mb_page (rn_box (snd (room_inbound t known (kick_packet h t rid nm) n)))) = self_id (mb_page (rn_box n))"
  using assms
  by (simp_all add: room_inbound_def Let_def EmitRoomEvent_def on_room_event_def page_room_def left_page split: option.split)

lemma round_kick:
  assumes g: "group_ok knows h rid g w" and p: "peers_ok knows h" and t: "t \<noteq> h" "t \<in> set (knows h)"
  shows "group_ok knows h rid (group_spec h (MKick t) g) (group_do knows h rid (MKick t) w)"
proof -
  obtain r where r: "mget (rn_rooms (w h)) rid = Some r" "dr_owner r = h" "dr_members r = gv_members g" "finite (gv_members g)"
    "h \<in> gv_members g" "[] \<notin> gv_members g" "gv_members g - {h} \<subseteq> set (knows h)" by (rule group_okD[OF g p])
  have h: "h \<noteq> []" using p by (simp add: peers_ok_def)
  define r' where "r' = r\<lparr>dr_members := dr_members r - {t}, dr_seq := Suc (dr_seq r)\<rparr>"
  define M where "M = gv_members g - {t}"
  have r': "dr_owner r' = h" "dr_members r' = M" "finite (dr_members r')" "[] \<notin> dr_members r'" "finite M"
    using r by (simp_all add: r'_def M_def)
  define n where "n = EmitRoomEvent ''sync'' (RoomPayload rid r') ((w h)\<lparr>rn_rooms := mset_key rid r' (rn_rooms (w h))\<rparr>)"
  have n: "shows_members h rid M n" "self_id (mb_page (rn_box n)) = self_id (mb_page (rn_box (w h)))"
    using emit_shows[of "(w h)\<lparr>rn_rooms := mset_key rid r' (rn_rooms (w h))\<rparr>" rid r' h M "''sync''" "RoomPayload rid r'" r'] r' by (simp_all add: n_def)
  define pk where "pk = kick_packet h t rid (dr_name r)"
  have ask: "ask_round knows h rid (MKick t) w = (pk # FanOutRoomSync h (knows h) t rid r', w(h := n))"
    using r(1,2) t by (simp add: room_kick_def Let_def r'_def[symmetric] n_def pk_def)
  note at_t = kicked_at[OF h t(1), where rid = rid and nm = "dr_name r" and known = "knows t" and n = "w t", folded pk_def]
  define w2 where "w2 = w(h := n, t := snd (room_inbound t (knows t) pk (w t)))"
  obtain w' where w': "hop knows (FanOutRoomSync h (knows h) t rid r') w2 = ([], w')"
    "\<forall>d \<in> {m \<in> M. m \<noteq> h \<and> m \<noteq> t \<and> m \<in> set (knows h)}. shows_members h rid M (w' d)"
    "\<forall>d. d \<notin> {m \<in> M. m \<noteq> h \<and> m \<noteq> t \<and> m \<in> set (knows h)} \<longrightarrow> w' d = w2 d"
    using fan_out_hop[OF h r'(1,3,4), of knows t rid w2] r'(2) by auto
  have "hop knows (pk # FanOutRoomSync h (knows h) t rid r') (w(h := n)) = ([], w')"
    by (rule hop_first[of pk t]) (use w'(1) at_t(1) t in \<open>simp_all add: w2_def\<close>, simp add: pk_def)
  from hop_quiet[OF this] have e: "group_do knows h rid (MKick t) w = w'" unfolding group_do_def ask prod.case .
  have in_M: "shows_members h rid M (w' d)" if "d \<in> M" for d
    using that w'(2,3) n(1) r(7) t by (cases "d = h") (auto simp: w2_def M_def)
  have out_M: "w' d = w d" if "d \<notin> M" "d \<noteq> t" for d using that w'(3) r(5) by (auto simp: w2_def M_def)
  have at': "w' t = snd (room_inbound t (knows t) pk (w t))" using w'(3) by (simp add: w2_def)
  note g' = group_parts[OF g]
  have stale: "stale_copy h rid t (w' t)" if held: "t \<in> gv_holders g"
  proof -
    obtain rt where rt: "mget (rn_rooms (w t)) rid = Some rt" "dr_owner rt = h" "h \<in> dr_members rt"
      by (rule holder_table[OF g held])
    then have "dr_members rt - {t} \<noteq> {}" using t(1) by blast
    then show ?thesis using rt t(1) by (simp add: stale_copy_def at' at_t(2) Leave_def Let_def)
  qed
  have "group_ok knows h rid \<lparr>gv_members = M, gv_holders = gv_holders g\<rparr> w'"
  proof (rule group_okI)
    show "h \<in> M" "finite M" "M \<subseteq> gv_holders g" "gv_holders g \<subseteq> insert h (set (knows h))" using g'(1-4) t(1) by (auto simp: M_def)
    show "shows_members h rid M (w' d)" if "d \<in> M" for d by (rule in_M[OF that])
    show "stale_copy h rid d (w' d)" if "d \<in> gv_holders g" "d \<notin> M" for d
      using that stale out_M[of d] g'(6)[of d] by (cases "d = t") (simp_all add: M_def)
    show "mget (rn_rooms (w' d)) rid = None" if "d \<notin> gv_holders g" for d
    proof -
      have "d \<notin> M" using that g'(3) by (auto simp: M_def)
      then show ?thesis using that out_M[of d] g'(7)[of d] by (cases "d = t") (simp_all add: at' at_t(2) Leave_def)
    qed
    show "page_room rid (w' d) = None" if "d \<notin> M" "self_id (mb_page (rn_box (w' d))) = Some d" for d
      using that at_t(3,4) out_M[of d] g'(8)[of d] by (cases "d = t") (simp_all add: at' M_def)
  qed
  then show ?thesis by (cases g) (simp add: e M_def)
qed

lemma hop_answered: "hop knows pks w = (out, w1) \<Longrightarrow> hop knows out w1 = ([], w') \<Longrightarrow> snd (quiesce 2 knows pks w) = w'"
  by (cases pks; cases out) (simp_all add: numeral_2_eq_2)

abbreviation join_packet :: "string \<Rightarrow> string \<Rightarrow> string \<Rightarrow> packet" where
  "join_packet d h rid \<equiv> \<lparr>pk_from = d, pk_to = h, pk_m = ''member_joined'', pk_d = JObj [(''roomId'', JStr rid), (''member'', JStr d)]\<rparr>"

lemma join_fields [simp]:
  "str_at ''roomId'' (JObj [(''roomId'', JStr rid), (''member'', JStr t)]) = Some rid"
  "str_at ''member'' (JObj [(''roomId'', JStr rid), (''member'', JStr t)]) = Some t"
  "getStr (Some (JObj [(''roomId'', JStr rid), (''member'', JStr t)])) ''roomId'' [] = rid"
  "getStr (Some (JObj [(''roomId'', JStr rid), (''member'', JStr t)])) ''member'' [] = t"
  by (simp_all add: str_at_def getStr_def)

text \<open>The owner gets the notice that a device has joined.\<close>

lemma joined_at:
  assumes "d \<noteq> []" "d \<noteq> h" "mget (rn_rooms n) rid = Some r" "dr_owner r = h" "dr_members r = M" "shows_members h rid M n"
  shows "\<exists>r' n'. room_inbound h known (join_packet d h rid) n = (FanOutRoomSync h known [] rid r', n')
    \<and> dr_owner r' = h \<and> dr_members r' = insert d M \<and> shows_members h rid (insert d M) n' \<and> self_id (mb_page (rn_box n')) = self_id (mb_page (rn_box n))"
proof -
  define r' where "r' = (if d \<in> dr_members r then r else r\<lparr>dr_members := insert d (dr_members r), dr_seq := Suc (dr_seq r)\<rparr>)"
  define t where "t = mset_key rid r' (rn_rooms n)"
  define n' where "n' = EmitRoomEvent ''member_joined'' (set_field ''from'' (JStr d) (set_field ''fromId'' (JStr d)
    (JObj [(''roomId'', JStr rid), (''member'', JStr d)]))) (n\<lparr>rn_rooms := t\<rparr>)"
  have r': "dr_owner r' = h" "dr_members r' = insert d M" using assms(4,5) by (auto simp: r'_def)
  have e: "room_inbound h known (join_packet d h rid) n = (FanOutRoomSync h known [] rid r', n')"
    using assms(1-4) by (simp add: room_inbound_def r'_def t_def n'_def Let_def)
  obtain i where i: "page_room rid n = Some i" "set (members_of i) = M" "distinct (members_of i)"
    using assms(6) unfolding shows_members_def by blast
  have pg: "mb_page (rn_box n') = on_member_joined rid d (mb_page (rn_box n))"
    by (simp add: n'_def EmitRoomEvent_def on_room_event_def)
  have "page_room rid n' = Some (i\<lparr>ri_members := Some (set_add d (set_of_list (members_of i)))\<rparr>)"
    using i(1) by (simp add: page_room_def pg on_member_joined_def setMembers_def Let_def)
  moreover have "mget (rn_rooms n') rid = Some r'" by (simp add: n'_def EmitRoomEvent_def t_def)
  ultimately have "shows_members h rid (insert d M) n'"
    unfolding shows_members_def using r' i(2) by (intro conjI exI) (auto simp: members_of_def distinct_set_add distinct_set_of_list)
  moreover have "self_id (mb_page (rn_box n')) = self_id (mb_page (rn_box n))"
    by (simp add: pg on_member_joined_def setMembers_def Let_def self_id_def split: option.split)
  ultimately show ?thesis using e r' by blast
qed

lemma round_join:
  assumes g: "group_ok knows h rid g w" and p: "peers_ok knows h" and d: "d \<noteq> h" "h \<in> set (knows d)"
  shows "group_ok knows h rid (group_spec h (MJoin d) g) (group_do knows h rid (MJoin d) w)"
proof (cases "d \<in> gv_holders g")
  case False
  then have "group_do knows h rid (MJoin d) w = w"
    using group_parts(7)[OF g False] by (simp add: group_do_def room_join_def AddMember_def numeral_2_eq_2)
  then show ?thesis using False g by simp
next
  case True
  obtain r where r: "mget (rn_rooms (w h)) rid = Some r" "dr_owner r = h" "dr_members r = gv_members g" "finite (gv_members g)"
    "h \<in> gv_members g" "[] \<notin> gv_members g" "gv_members g - {h} \<subseteq> set (knows h)" by (rule group_okD[OF g p])
  obtain rd where rd: "mget (rn_rooms (w d)) rid = Some rd" "dr_owner rd = h" by (rule holder_table[OF g True])
  have h: "h \<noteq> []" "d \<noteq> []" "d \<in> set (knows h)" using p d True group_parts(4)[OF g] by (auto simp: peers_ok_def)
  define M where "M = insert d (gv_members g)"
  define n where "n = snd (snd (room_join d (knows d) rid (w d)))"
  have ask: "ask_round knows h rid (MJoin d) w = ([join_packet d h rid], w(d := n))"
    using rd d by (simp add: room_join_def AddMember_def n_def)
  obtain r' nh where at_h: "room_inbound h (knows h) (join_packet d h rid) (w h) = (FanOutRoomSync h (knows h) [] rid r', nh)"
    "dr_owner r' = h" "dr_members r' = M" "shows_members h rid M nh"
    using joined_at[OF h(2) d(1) r(1,2,3) group_parts(5)[OF g r(5)], of "knows h"] unfolding M_def by blast
  define w2 where "w2 = w(d := n, h := nh)"
  have hop1: "hop knows [join_packet d h rid] (w(d := n)) = (FanOutRoomSync h (knows h) [] rid r', w2)"
    using d(1) at_h(1) by (simp add: w2_def)
  have M: "finite (dr_members r')" "[] \<notin> dr_members r'" "M - {h} \<subseteq> set (knows h)" using at_h(3) r h by (auto simp: M_def)
  have R: "{m \<in> M. m \<noteq> h \<and> m \<noteq> [] \<and> m \<in> set (knows h)} = M - {h}" using M by (auto simp: at_h(3))
  obtain w' where w': "hop knows (FanOutRoomSync h (knows h) [] rid r') w2 = ([], w')"
    "\<forall>p \<in> M - {h}. shows_members h rid M (w' p)" "\<forall>p. p \<notin> M - {h} \<longrightarrow> w' p = w2 p"
    using fan_out_hop[OF h(1) at_h(2) M(1,2), of knows "[]" rid w2] unfolding at_h(3) R by blast
  have e: "group_do knows h rid (MJoin d) w = w'" using hop_answered[OF hop1 w'(1)] unfolding group_do_def ask prod.case .
  have out_M: "w' p = w p" "p \<notin> gv_members g" if "p \<notin> M" for p using that w'(3) r(5) by (auto simp: w2_def M_def)
  have "group_ok knows h rid \<lparr>gv_members = M, gv_holders = gv_holders g\<rparr> w'"
  proof (rule group_okI)
    note g' = group_parts[OF g]
    show "h \<in> M" "finite M" "M \<subseteq> gv_holders g" "gv_holders g \<subseteq> insert h (set (knows h))" using g'(1-4) True by (auto simp: M_def)
    show "shows_members h rid M (w' p)" if "p \<in> M" for p
    proof (cases "p = h")
      case True
      then show ?thesis using w'(3)[rule_format, of h] at_h(4) by (simp add: w2_def)
    next
      case False
      then show ?thesis using w'(2) that by blast
    qed
    show "stale_copy h rid p (w' p)" if "p \<in> gv_holders g" "p \<notin> M" for p using that out_M[of p] g'(6)[of p] by simp
    show "mget (rn_rooms (w' p)) rid = None" if "p \<notin> gv_holders g" for p
    proof -
      have "p \<notin> M" using that g'(3) True by (auto simp: M_def)
      then show ?thesis using that out_M[of p] g'(7)[of p] by simp
    qed
    show "page_room rid (w' p) = None" if "p \<notin> M" "self_id (mb_page (rn_box (w' p))) = Some p" for p
      using that out_M[of p] g'(8)[of p] by simp
  qed
  then show ?thesis using True by (cases g) (simp add: e M_def)
qed

lemma round_group:
  assumes "group_ok knows h rid g w" "peers_ok knows h" "round_ok knows h x"
  shows "group_ok knows h rid (group_spec h x g) (group_do knows h rid x w)"
proof (cases x)
  case (MInvite t)
  show ?thesis
  proof (cases "t = h")
    case True
    obtain r where "mget (rn_rooms (w h)) rid = Some r" "dr_owner r = h" by (rule group_okD[OF assms(1,2)])
    then have "group_do knows h rid x w = w" using True MInvite by (simp add: group_do_def room_invite_def numeral_2_eq_2)
    then show ?thesis using assms(1) True MInvite by simp
  next
    case False
    then show ?thesis using round_invite[OF assms(1,2), of t] assms(3) MInvite by simp
  qed
qed (use round_kick[OF assms(1,2)] round_join[OF assms(1,2)] assms(3) in simp_all)

lemma rounds_group:
  assumes "group_ok knows h rid g w" "peers_ok knows h" "\<forall>x \<in> set xs. round_ok knows h x"
  shows "group_ok knows h rid (fold (group_spec h) xs g) (fold (group_do knows h rid) xs w)"
  using assms(1,3)
proof (induction xs arbitrary: g w)
  case (Cons x xs)
  have "group_ok knows h rid (group_spec h x g) (group_do knows h rid x w)"
    using round_group[OF Cons.prems(1) assms(2), of x] Cons.prems(2) by simp
  then show ?case using Cons.IH Cons.prems(2) by simp
qed simp

text \<open>C7: the daemons and pages of a group implement the abstract group: after any sequence of rounds in which the owner
  invites or kicks devices, or a device that holds a copy of the table joins (a kicked one among them, whose
  copy stays), every member's daemon and page have exactly the members of the specification, and every other
  device is out of its own copy and does not show the room on a page that knows its daemon's id.\<close>

theorem rooms_refine:
  assumes "group_ok knows h rid g w" "peers_ok knows h" "\<forall>x \<in> set xs. round_ok knows h x"
  shows "group_ok knows h rid (fold (group_spec h) xs g) (fold (group_do knows h rid) xs w)"
  using rounds_group[OF assms] .

text \<open>A room begins with its owner.\<close>

lemma group_created:
  assumes "\<And>d. mget (rn_rooms (w d)) rid = None" "\<And>d. page_room rid (w d) = None"
  shows "group_ok knows h rid \<lparr>gv_members = {h}, gv_holders = {h}\<rparr> (w(h := snd (snd (room_create h rid name (w h)))))"
proof -
  define r where "r = \<lparr>dr_name = name, dr_owner = h, dr_members = {h}, dr_seq = 1\<rparr>"
  have "shows_members h rid {h} (snd (snd (room_create h rid name (w h))))"
    using emit_shows(1)[of "(w h)\<lparr>rn_rooms := mset_key rid r (rn_rooms (w h))\<rparr>" rid r h "{h}" "''joined''" "RoomPayload rid r" r]
    by (simp add: room_create_def Create_def Let_def r_def)
  then show ?thesis by (intro group_okI) (auto simp: assms)
qed

subsection \<open>Texts in a group\<close>

text \<open>The recipients of a text in a room: \<open>message.send\<close> looks the room up in the own table.\<close>

definition room_mates :: "string \<Rightarrow> string list \<Rightarrow> room_node \<Rightarrow> string list" where
  "room_mates rid known n =
     (case mget (rn_rooms n) rid of None \<Rightarrow> [] | Some r \<Rightarrow> filter (\<lambda>m. m \<in> set known) (sorted_list_of_set (dr_members r)))"

definition in_room :: "string \<Rightarrow> ctx" where
  "in_room rid = \<lparr>cx_target = rid, cx_kind = KRoom\<rparr>"

definition room_msg :: "string \<Rightarrow> string \<Rightarrow> string \<Rightarrow> int \<Rightarrow> string \<Rightarrow> chat_message" where
  "room_msg d rid nonce ts x = \<lparr>cm_kind = KRoom, cm_type = MText, cm_from = d, cm_to = rid, cm_nonce = nonce, cm_ts = ts, cm_body = x,
     cm_mediaRef = None, cm_replyTo = None\<rparr>"

lemma room_message_read:
  "jfield ''kind'' j = Some (JStr ''room'') \<Longrightarrow> jfield ''message'' j = None \<Longrightarrow> read_message j = Some msg \<Longrightarrow>
   on_chat_event (chat_event j) s = pushMessage msg s"
  by (simp add: chat_event_def on_chat_event_def inner_message_def getStr_def)

text \<open>A text for a room, with its fields in any order.\<close>

definition room_fields :: "json \<Rightarrow> string \<Rightarrow> string \<Rightarrow> int \<Rightarrow> string \<Rightarrow> bool" where
  "room_fields j rid nonce ts x \<longleftrightarrow> (\<exists>fs. j = JObj fs) \<and> jfield ''kind'' j = Some (JStr ''room'') \<and> jfield ''type'' j = Some (JStr ''text'')
     \<and> jfield ''to'' j = Some (JStr rid) \<and> jfield ''nonce'' j = Some (JStr nonce) \<and> jfield ''ts'' j = Some (JNum ts)
     \<and> jfield ''body'' j = Some (JStr x) \<and> jfield ''channel'' j = None \<and> jfield ''ackOf'' j = None \<and> jfield ''message'' j = None
     \<and> jfield ''mediaRef'' j = None \<and> jfield ''replyTo'' j = None"

lemma room_text_json: "room_fields (text_json (in_room rid) nonce ts x) rid nonce ts x"
  by (simp add: room_fields_def text_json_def in_room_def)

lemma set_field_obj [simp]: "(\<exists>fs. set_field k v d = JObj fs) = (\<exists>fs. d = JObj fs)"
  by (cases d) (simp_all add: set_field_def)

lemma getStr_jfield: "getStr (Some d) k dflt = (case jfield k d of Some (JStr v) \<Rightarrow> v | _ \<Rightarrow> dflt)"
  by (cases d) (simp_all add: getStr_def)

lemma room_text_event:
  assumes "room_fields j rid nonce ts x"
  shows "on_chat_event (chat_event (own_chat d j)) s = pushMessage (room_msg d rid nonce ts x) s"
    and "on_chat_event (chat_event (set_field ''conv'' v (set_field ''direction'' u (set_field ''from'' (JStr d) (set_field ''fromId'' w j))))) s
      = pushMessage (room_msg d rid nonce ts x) s"
    and "getStr (Some (own_chat d j)) ''kind'' ''chat'' = ''room''" "getStr (Some j) ''to'' [] = rid" "getStr (Some j) ''ackOf'' [] = []"
    and "getStr (Some (set_field ''conv'' v (set_field ''direction'' u (set_field ''from'' (JStr d) (set_field ''fromId'' w j))))) ''kind'' ''chat'' = ''room''"
    and "convKey own (own_chat d j) = rid" "convKey own (set_field ''direction'' u (set_field ''from'' (JStr d) (set_field ''fromId'' w j))) = rid"
  using assms
  by (auto intro!: room_message_read
      simp: room_fields_def own_chat_def room_msg_def getStr_jfield convKey_def jfield_set read_message_def str_at_def type_of_name_def kind_of_def)

lemma conv_push_room: "conv_of (app (pushMessage (room_msg d rid nonce ts x) s)) rid = push_item (room_msg d rid nonce ts x) (conv_of (app s) rid)"
  by (simp add: pushMessage_def conv_key_def room_msg_def Let_def)

lemma sorted_without: "finite M \<Longrightarrow> filter (\<lambda>m. m \<noteq> d) (sorted_list_of_set M) = sorted_list_of_set (M - {d})" for M :: "string set"
proof -
  assume fin: "finite M"
  have "filter (\<lambda>m. m \<noteq> d) (sorted_list_of_set M) = removeAll d (sorted_list_of_set M)"
    by (auto simp: removeAll_filter_not_eq intro: filter_cong)
  then show ?thesis using fin by (simp add: sorted_list_of_set_remove distinct_remove1_removeAll)
qed

text \<open>C28: a text that a member sends in a group goes to every other member once and to nobody else, and on each of their
  pages and on the sender's it becomes the last entry of the conversation of the group; no receipt comes back,
  so it is never shown as delivered.\<close>

theorem group_text:
  assumes g: "group_ok knows h rid g w" and d: "d \<in> gv_members g" "d \<noteq> []" "gv_members g - {d} \<subseteq> set (knows d)"
    and j: "j = text_json (in_room rid) nonce ts x" and m: "msg = room_msg d rid nonce ts x"
    and run: "message_send d up (room_mates rid (knows d) (w d)) j (rn_box (w d)) = (pks, box)"
  shows "map fst pks = sorted_list_of_set (gv_members g - {d}) \<and> (\<forall>pk \<in> set pks. snd pk = j)
    \<and> conv_at rid box = push_item msg (conv_at rid (rn_box (w d)))
    \<and> (\<forall>p \<in> gv_members g - {d}. \<exists>b. inbound p d j (rn_box (w p)) = ([], b)
         \<and> conv_at rid b = push_item msg (conv_at rid (rn_box (w p))))"
proof -
  have fin: "finite (gv_members g)" by (rule group_parts(2)[OF g])
  obtain r where r: "mget (rn_rooms (w d)) rid = Some r" "dr_members r = gv_members g"
    using group_parts(5)[OF g d(1)] unfolding shows_members_def by blast
  have "filter (\<lambda>m. m \<noteq> d) (room_mates rid (knows d) (w d)) = filter (\<lambda>m. m \<noteq> d) (sorted_list_of_set (gv_members g))"
    using d(3) fin by (auto simp: room_mates_def r intro!: filter_cong)
  also have "\<dots> = sorted_list_of_set (gv_members g - {d})" by (rule sorted_without[OF fin])
  finally have ms: "filter (\<lambda>m. m \<noteq> d) (room_mates rid (knows d) (w d)) = sorted_list_of_set (gv_members g - {d})" .
  have rf: "room_fields j rid nonce ts x" unfolding j by (rule room_text_json)
  note ev = room_text_event[OF rf]
  have "pks = map (\<lambda>m. (m, j)) (sorted_list_of_set (gv_members g - {d}))" "mb_page box = pushMessage msg (mb_page (rn_box (w d)))"
    using run by (auto simp: message_send_def Let_def ms ev m)
  moreover have "\<exists>b. inbound p d j (rn_box (w p)) = ([], b) \<and> conv_at rid b = push_item msg (conv_at rid (rn_box (w p)))" if "p \<noteq> d" for p
    using that d(2) by (simp add: inbound_def Let_def ev m conv_push_room)
  ultimately show ?thesis by (auto simp: m conv_push_room comp_def)
qed

subsection \<open>Where groups go wrong\<close>

text \<open>A member that leaves tells nobody: no packet is sent, its own page is not told either, and the texts of the
  others still go to it.\<close>

theorem leave_unnoticed:
  assumes g: "group_ok knows h rid g w" and d: "d \<in> gv_members g" "d \<noteq> h"
    and p: "p \<in> gv_members g" "p \<noteq> d" "d \<in> set (knows p)"
  shows "\<exists>rep n. room_leave d (knows d) rid (w d) = (Inr rep, [], n) \<and> page_room rid n = page_room rid (w d)
    \<and> d \<in> set (room_mates rid (knows p) ((w(d := n)) p))"
proof -
  obtain r where r: "mget (rn_rooms (w d)) rid = Some r" "dr_owner r = h"
    using group_parts(5)[OF g d(1)] unfolding shows_members_def by blast
  obtain q where q: "mget (rn_rooms (w p)) rid = Some q" "dr_members q = gv_members g"
    using group_parts(5)[OF g p(1)] unfolding shows_members_def by blast
  have "d \<in> set (room_mates rid (knows p) (w p))" using d(1) p(3) group_parts(2)[OF g] by (simp add: room_mates_def q)
  then show ?thesis using r d(2) p(2) by (simp add: room_leave_def page_room_def Let_def split: option.split)
qed

text \<open>The call button of a group rings nobody: its invitation names no device, the daemon refuses it and sends nothing,
  while the page says that the members were invited.\<close>

theorem room_call_rings_nobody:
  assumes "cx_kind c = KRoom"
  shows "\<exists>d e. sent (callVoice c callId got sd s) = sent s @ [(''room'', ''invite'', Some d)] \<and> room_invite own known d n = (Inl e, [], n)"
proof -
  have "\<exists>e. room_invite own known (invite_room_json (cx_target c) Voice) n = (Inl e, [], n)"
    by (auto simp: room_invite_def invite_room_json_def getStr_def Let_def split: option.split)
  then show ?thesis using assms by (auto simp: callVoice_def inviteRoom_def)
qed

subsection \<open>Examples\<close>

text \<open>Three devices that know each other, and a group of the first.\<close>

definition three :: "string \<Rightarrow> string list" where
  "three d = filter (\<lambda>x. x \<noteq> d) [''h'', ''b'', ''c'']"

definition lone_group :: group_world where
  "lone_group = (let w = (\<lambda>d. \<lparr>rn_box = box_of d, rn_rooms = []\<rparr>) in w(''h'' := snd (snd (room_create ''h'' ''r'' ''Team'' (w ''h'')))))"

definition pair_group :: group_world where
  "pair_group = group_do three ''h'' ''r'' (MInvite ''b'') lone_group"

lemma lone_group_ok: "group_ok three ''h'' ''r'' \<lparr>gv_members = {''h''}, gv_holders = {''h''}\<rparr> lone_group" "peers_ok three ''h''"
proof -
  have "page_room ''r'' \<lparr>rn_box = box_of d, rn_rooms = []\<rparr> = None" for d
    by (simp add: page_room_def box_of_def ui_init_def new_store_def initial_def ui.defs)
  then show "group_ok three ''h'' ''r'' \<lparr>gv_members = {''h''}, gv_holders = {''h''}\<rparr> lone_group"
    unfolding lone_group_def Let_def by (intro group_created) simp_all
qed (simp add: peers_ok_def three_def)

lemma pair_group_ok: "group_ok three ''h'' ''r'' \<lparr>gv_members = {''b'', ''h''}, gv_holders = {''b'', ''h''}\<rparr> pair_group"
  using rounds_group[OF lone_group_ok, of "[MInvite ''b'']"] by (simp add: three_def pair_group_def)

theorem rooms_refine_witness:
  "let w = fold (group_do three ''h'' ''r'') [MInvite ''b'', MInvite ''c'', MKick ''c'', MJoin ''c''] lone_group
   in shows_members ''h'' ''r'' {''c'', ''b'', ''h''} (w ''c'') \<and> shows_members ''h'' ''r'' {''c'', ''b'', ''h''} (w ''b'')"
proof -
  have "\<forall>x \<in> set [MInvite ''b'', MInvite ''c'', MKick ''c'', MJoin ''c'']. round_ok three ''h'' x" by (simp add: three_def)
  from rooms_refine[OF lone_group_ok this]
  have "group_ok three ''h'' ''r'' \<lparr>gv_members = {''c'', ''b'', ''h''}, gv_holders = {''c'', ''b'', ''h''}\<rparr>
      (fold (group_do three ''h'' ''r'') [MInvite ''b'', MInvite ''c'', MKick ''c'', MJoin ''c''] lone_group)"
    by (simp add: insert_Diff_if)
  from group_parts(5)[OF this, of "''c''"] group_parts(5)[OF this, of "''b''"] show ?thesis unfolding Let_def by simp
qed

theorem group_text_witness:
  "let (pks, box) = message_send ''b'' [] (room_mates ''r'' (three ''b'') (pair_group ''b'')) (text_json (in_room ''r'') ''n'' 5 ''hi'') (rn_box (pair_group ''b''))
   in map fst pks = [''h'']"
proof -
  obtain pks box where r: "message_send ''b'' [] (room_mates ''r'' (three ''b'') (pair_group ''b'')) (text_json (in_room ''r'') ''n'' 5 ''hi'')
      (rn_box (pair_group ''b'')) = (pks, box)" by fastforce
  from group_text[OF pair_group_ok _ _ _ refl refl r] have "map fst pks = sorted_list_of_set ({''b'', ''h''} - {''b''})" by (simp add: three_def)
  then show ?thesis unfolding r Let_def by simp
qed

theorem leave_unnoticed_witness:
  "\<exists>n. ''b'' \<in> set (room_mates ''r'' (three ''h'') ((pair_group(''b'' := n)) ''h''))"
  using leave_unnoticed[OF pair_group_ok, of "''b''" "''h''"] by (auto simp: three_def)

theorem room_call_rings_nobody_witness:
  "\<exists>e d. room_invite ''h'' [''b''] d (lone_group ''h'') = (Inl e, [], lone_group ''h'')"
  using room_call_rings_nobody[where c = "in_room ''r''" and s = calls_init and own = "''h''" and known = "[''b'']" and n = "lone_group ''h''"]
  by (simp add: in_room_def) blast

definition daemon_members :: "string \<Rightarrow> room_node \<Rightarrow> string set option" where
  "daemon_members rid n = map_option dr_members (mget (rn_rooms n) rid)"


end
