(* ===== verification/Driver_Checks.thy ===== *)
theory Driver_Checks
  imports Group_Rooms Message_History Share_Control
begin

text \<open>
  What the end-to-end drivers check (\<open>scripts/drv_group_e2e.mjs\<close>, \<open>scripts/drv_offline_msg_e2e.mjs\<close>,
  \<open>scripts/drv_group_share_ctrl_e2e.mjs\<close>): the requests they make of pages and daemons and the conditions they test,
  with their exit codes (0 passed, 2 an exception, 3 failed), over the models of the pages and the native daemon.
  Starting browsers and daemons, the waiting times and the tests of the browser's media are left out; a condition that
  a driver polls is tested when all packets have arrived.
\<close>

subsection \<open>Polling\<close>

fun waitFor :: "nat \<Rightarrow> (nat \<Rightarrow> bool) \<Rightarrow> bool" where
  "waitFor 0 fn = False"
| "waitFor (Suc tries) fn = (fn 0 \<or> waitFor tries (\<lambda>i. fn (Suc i)))"

lemma waitFor_iff: "waitFor tries fn = (\<exists>i < tries. fn i)"
  by (induction tries fn rule: waitFor.induct) (auto simp: less_Suc_eq_0_disj)

subsection \<open>Remote control of a share\<close>

text \<open>The stages 6 to 10. \<open>dc\<close>: what the browsers report of the data channel (open after the grant, used again after the second).\<close>

definition control_driver ::
    "session_description \<Rightarrow> string \<Rightarrow> string \<Rightarrow> (string \<Rightarrow> string) \<Rightarrow> string \<Rightarrow> string \<Rightarrow> bool \<Rightarrow> world \<Rightarrow> nat" where
  "control_driver sd h rid cs b c dc w =
     (let r = do_round sd h rid cs; w1 = r (RAsk b) w
      in if asked (page_of h w1) \<noteq> Some b then 2
      else let w3 = r (RDecide c False) (r (RAsk c) w1)
      in if in_control (page_of c w3) then 2
      else let w4 = r (RDecide b True) w3
      in if \<not> (in_control (page_of b w4) \<and> dc) then 2
      else let injected = hosting (sent (page_of h w4)); w5 = r (RLeave b) w4
      in if \<not> (roomShareControllers rid (page_of h w5) = [] \<and> \<not> hosting (sent (page_of h w5))) then 2
      else let w7 = r (RDecide b True) (r (RAsk b) w5); w8 = r (RRevoke b) w7
      in if \<not> (in_control (page_of b w7) \<and> dc \<and> \<not> in_control (page_of b w8) \<and> roomShareControllers rid (page_of h w8) = []) then 2
      else if injected then 0 else 3)"

text \<open>Sessions with what both sides show of the control.\<close>

definition shows_control :: "string \<Rightarrow> string \<Rightarrow> string list \<Rightarrow> (string \<Rightarrow> string) \<Rightarrow> control_view \<Rightarrow> world \<Rightarrow> bool" where
  "shows_control h rid vs cs a w \<longleftrightarrow> share_session h rid vs cs w \<and> control_of h rid vs w = a"

lemma shows_round:
  "shows_control h rid vs cs a w \<Longrightarrow> round_of r \<in> set vs \<Longrightarrow> shows_control h rid vs cs (control_spec r a) (do_round sd h rid cs r w)"
  using round_refines[of h rid vs cs w r sd] by (simp add: shows_control_def del: do_round.simps control_spec.simps)

lemma shows_fields:
  assumes "shows_control h rid vs cs a w"
  shows "asked (page_of h w) = cv_ask a" "roomShareControllers rid (page_of h w) = cv_members a" "hosting (sent (page_of h w)) = cv_inject a"
    and "v \<in> set vs \<Longrightarrow> in_control (page_of v w) = cv_mode a v"
  using assms by (auto simp: shows_control_def control_of_def)



subsection \<open>Two devices in a group\<close>

text \<open>\<open>[...peers.keys()].filter(Boolean)[0] || ''\<close>.\<close>

definition first_peer :: "room_node \<Rightarrow> string" where
  "first_peer n = (case filter (\<lambda>k. k \<noteq> []) (mkeys (peers (app (mb_page (rn_box n))))) of [] \<Rightarrow> [] | k # _ \<Rightarrow> k)"

definition driver_text :: "string \<Rightarrow> string \<Rightarrow> string \<Rightarrow> int \<Rightarrow> json" where
  "driver_text rid body nonce ts = JObj [(''kind'', JStr ''room''), (''type'', JStr ''text''), (''to'', JStr rid), (''body'', JStr body),
     (''nonce'', JStr nonce), (''ts'', JNum ts)]"

definition some_body :: "string \<Rightarrow> string \<Rightarrow> ui \<Rightarrow> bool" where
  "some_body k x s = list_ex (\<lambda>c. cm_body c = x) (conv_of (app s) k)"

text \<open>A text of one page in the room, and its arrival at the other device.\<close>

definition say :: "string \<Rightarrow> string \<Rightarrow> string \<Rightarrow> json \<Rightarrow> room_node \<Rightarrow> room_node \<Rightarrow> room_node \<times> room_node" where
  "say own peer rid j N M =
     (let (pks, box) = message_send own [] (room_mates rid [peer] N) j (rn_box N)
      in (N\<lparr>rn_box := box\<rparr>, M\<lparr>rn_box := snd (arrivals peer own pks (rn_box M))\<rparr>))"

definition has_member :: "string \<Rightarrow> string \<Rightarrow> room_node \<Rightarrow> bool" where
  "has_member rid d n = (case page_room rid n of None \<Rightarrow> False | Some r \<Rightarrow> d \<in> set (members_of r))"

text \<open>The check of the history: \<open>loadHistory\<close> with whatever the daemon replies, then both texts must be in the conversation.\<close>

definition history_check :: "string \<Rightarrow> string \<Rightarrow> string \<Rightarrow> json list \<Rightarrow> ui \<Rightarrow> bool" where
  "history_check rid x y items s = (let s' = on_history rid items s in some_body rid x s' \<and> some_body rid y s')"

text \<open>The stages 0 to 3; the warm-up by a file is left out, it does not count for the result. \<open>rid\<close>: the id the daemon makes.\<close>

definition group_driver :: "string \<Rightarrow> string \<Rightarrow> string \<Rightarrow> int \<Rightarrow> int \<Rightarrow> room_node \<Rightarrow> room_node \<Rightarrow> nat" where
  "group_driver a b rid t1 t2 A B =
     (let bId = first_peer A; aId = first_peer B
      in if bId = [] \<or> aId = [] \<or> bId = aId then 2
      else let (_, _, A1) = room_create a rid ''Tech Group'' A
      in if rid = [] then 2
      else let (_, pks, A2) = room_invite a [b] (to_json rid bId) A1;
               B2 = fold (\<lambda>pk n. if pk_to pk = b then snd (room_inbound b [a] pk n) else n) pks B
      in if \<not> has_member rid aId B2 then 2
      else let (A3, B3) = say a b rid (driver_text rid ''hello from A'' ''g-a-1'' t1) A2 B2;
               bGotMsg = some_body rid ''hello from A'' (mb_page (rn_box B3));
               (B4, A4) = say b a rid (driver_text rid ''hello from B'' ''g-b-1'' t2) B3 A3;
               aGotMsg = some_body rid ''hello from B'' (mb_page (rn_box A4));
               hist = history_check rid ''hello from A'' ''hello from B'' (message_history (history_json rid KRoom) (rn_box A4)) (mb_page (rn_box A4))
      in if bGotMsg \<and> aGotMsg \<and> hist then 0 else 3)"

lemma driver_text_fields: "room_fields (driver_text rid x nonce ts) rid nonce ts x"
  by (simp add: room_fields_def driver_text_def)

lemma filter_single: "distinct L \<Longrightarrow> x \<in> set L \<Longrightarrow> filter (\<lambda>m. m \<in> {x}) L = [x]"
  by (induction L) (auto simp: filter_empty_conv)

lemma say_effect:
  assumes "room_fields j rid nonce ts x" "own \<noteq> peer" "own \<noteq> []" "mget (rn_rooms N) rid = Some r" "dr_members r = {own, peer}"
    and "say own peer rid j N M = (N', M')"
  shows "conv_of (app (mb_page (rn_box N'))) rid = push_item (room_msg own rid nonce ts x) (conv_of (app (mb_page (rn_box N))) rid)"
    and "conv_of (app (mb_page (rn_box M'))) rid = push_item (room_msg own rid nonce ts x) (conv_of (app (mb_page (rn_box M))) rid)"
    and "rn_rooms N' = rn_rooms N" "rn_rooms M' = rn_rooms M"
proof -
  note ev = room_text_event[OF assms(1)]
  have "set (sorted_list_of_set {own, peer}) = {own, peer}" by (rule set_sorted_list_of_set) simp
  then have "peer \<in> set (sorted_list_of_set {own, peer})" by blast
  moreover have "distinct (sorted_list_of_set {own, peer})" by (rule distinct_sorted_list_of_set)
  ultimately have m: "room_mates rid [peer] N = [peer]" by (simp only: room_mates_def assms(4,5) option.case filter_single list.set)
  show "conv_of (app (mb_page (rn_box N'))) rid = push_item (room_msg own rid nonce ts x) (conv_of (app (mb_page (rn_box N))) rid)"
    and "conv_of (app (mb_page (rn_box M'))) rid = push_item (room_msg own rid nonce ts x) (conv_of (app (mb_page (rn_box M))) rid)"
    and "rn_rooms N' = rn_rooms N" "rn_rooms M' = rn_rooms M"
    using assms(2,3,6) by (auto simp: say_def m message_send_def inbound_def Let_def ev conv_push_room)
qed

lemma some_body_push [simp]:
  "conv_of (app s) rid = push_item (room_msg own rid nonce ts x) c \<Longrightarrow> some_body rid y s = (x = y \<or> list_ex (\<lambda>c. cm_body c = y) c)"
  by (auto simp: some_body_def push_item_def room_msg_def mk_item_def)

text \<open>The history only adds to a conversation: what is shown already is found, whatever the daemon has stored.\<close>

lemma history_keeps: "set (conv_of (app s) k) \<subseteq> set (conv_of (app (on_history k items s)) k)"
proof -
  have "\<exists>ys. merge_loop self k is seen merged = merged @ ys" for self "is" seen merged
    using merge_loop_extends[of self k "is" seen merged] by blast
  then show ?thesis
    by (auto simp: on_history_def history_loaded_def merge_history_def split: option.split) (metis Un_iff set_append)
qed

text \<open>C29: the group driver passes for any two devices that discovered each other, whatever ids the pages gave
  themselves; and its check of the history cannot fail, even if the daemon replies with nothing.\<close>

theorem group_driver_passes:
  assumes ab: "a \<noteq> b" "a \<noteq> []" "b \<noteq> []" "rid \<noteq> []" and peers: "first_peer A = b" "first_peer B = a"
  shows "group_driver a b rid t1 t2 A B = 0
    \<and> (some_body rid x s \<longrightarrow> some_body rid y s \<longrightarrow> history_check rid x y items s)"
proof (intro conjI impI)
  show "history_check rid x y items s" if "some_body rid x s" "some_body rid y s" for x y items s
    using that history_keeps[of s rid items] by (auto simp: history_check_def some_body_def list_ex_iff Let_def)
next
  define A1 where "A1 = snd (snd (room_create a rid ''Tech Group'' A))"
  have c: "\<exists>x y. room_create a rid ''Tech Group'' A = (x, y, A1)" by (simp add: A1_def prod_eq_iff)
  define r1 where "r1 = \<lparr>dr_name = ''Tech Group'', dr_owner = a, dr_members = {a}, dr_seq = 1\<rparr>"
  define r2 where "r2 = r1\<lparr>dr_members := {b, a}, dr_seq := 2\<rparr>"
  have A1: "mget (rn_rooms A1) rid = Some r1" by (simp add: A1_def room_create_def Create_def r1_def EmitRoomEvent_def Let_def)
  define pk where "pk = \<lparr>pk_from = a, pk_to = b, pk_m = ''invited'', pk_d = RoomPayload rid r2\<rparr>"
  define A2 where "A2 = snd (snd (room_invite a [b] (to_json rid b) A1))"
  have fan: "FanOutRoomSync a [b] b rid r2 = []" by (simp add: FanOutRoomSync_def filter_empty_conv)
  have i: "\<exists>x. room_invite a [b] (to_json rid b) A1 = (x, [pk], A2)" and A2: "mget (rn_rooms A2) rid = Some r2"
    using A1 ab fan by (simp_all add: room_invite_def A2_def r1_def r2_def pk_def Let_def EmitRoomEvent_def numeral_2_eq_2)
  define B2 where "B2 = snd (room_inbound b [a] pk B)"
  have B2: "shows_members a rid {b, a} B2"
    using inbound_table(2)[OF ab(2) ab(1)[symmetric], where m = "''invited''" and r = r2 and rid = rid and known = "[a]" and n = B] ab
    by (simp add: B2_def pk_def r2_def r1_def)
  then obtain rb where rb: "mget (rn_rooms B2) rid = Some rb" "dr_members rb = {b, a}" unfolding shows_members_def by blast
  have m: "has_member rid a B2" using B2 by (auto simp: shows_members_def has_member_def)
  obtain A3 B3 where s1: "say a b rid (driver_text rid ''hello from A'' ''g-a-1'' t1) A2 B2 = (A3, B3)" by fastforce
  obtain B4 A4 where s2: "say b a rid (driver_text rid ''hello from B'' ''g-b-1'' t2) B3 A3 = (B4, A4)" by fastforce
  have M: "dr_members r2 = {a, b}" by (auto simp: r2_def)
  note e1 = say_effect[OF driver_text_fields ab(1,2) A2 M s1]
  have "mget (rn_rooms B3) rid = Some rb" using e1(4) rb(1) by simp
  note e2 = say_effect[OF driver_text_fields ab(1)[symmetric] ab(3) this rb(2) s2]
  have t: "some_body rid ''hello from A'' (mb_page (rn_box B3))" "some_body rid ''hello from B'' (mb_page (rn_box A4))"
    "some_body rid ''hello from A'' (mb_page (rn_box A4))"
    using e1(1,2) e2(2) by (simp_all add: push_item_def room_msg_def mk_item_def some_body_def)
  have h: "history_check rid ''hello from A'' ''hello from B'' items (mb_page (rn_box A4))" for items
    using t history_keeps[of "mb_page (rn_box A4)" rid items] by (auto simp: history_check_def some_body_def list_ex_iff Let_def)
  show "group_driver a b rid t1 t2 A B = 0"
    using c i ab m s1 s2 t h by (auto simp: group_driver_def peers Let_def pk_def B2_def)
qed

subsection \<open>A text for an absent device\<close>

text \<open>\<open>scanByNonce\<close>: the status of the first entry with the nonce in any conversation; None for null.\<close>

definition scanByNonce :: "string \<Rightarrow> ui \<Rightarrow> delivery option option" where
  "scanByNonce nonce s =
     (case find (\<lambda>arr. list_ex (\<lambda>c. cm_nonce c = nonce) arr) (mvals (conversations (app s))) of
        None \<Rightarrow> None | Some arr \<Rightarrow> map_option ci_status (find (\<lambda>c. cm_nonce c = nonce) arr))"

text \<open>The poll of stage 4: some conversation whose first entry with the nonce is delivered.\<close>

definition seen_delivered :: "string \<Rightarrow> ui \<Rightarrow> bool" where
  "seen_delivered nonce s =
     list_ex (\<lambda>arr. case find (\<lambda>c. cm_nonce c = nonce) arr of None \<Rightarrow> False | Some it \<Rightarrow> ci_status it = Some DDelivered)
       (mvals (conversations (app s)))"

text \<open>The stages 2 to 6. \<open>page2\<close>: the page that is opened at the second start of \<open>b\<close>, on the store of the first.\<close>

definition offline_driver :: "string \<Rightarrow> string \<Rightarrow> text_data \<Rightarrow> mailbox \<Rightarrow> mailbox \<Rightarrow> ui \<Rightarrow> nat" where
  "offline_driver a b t A B page2 =
     (let (_, A1) = message_send a [] [] (chat_json b t) A; queued = (queue_of b A1 \<noteq> [])
      in if \<not> queued then 2
      else let aStatus = scanByNonce (fst t) (mb_page A1)
      in if aStatus = Some (Some DDelivered) then 2
      else let (fl, A2) = flushQueue b [b] A1; (A3, B3) = hand_over a b fl A2 B; delivered = seen_delivered (fst t) (mb_page A3)
      in if \<not> delivered then 2
      else let bGot = some_body a (snd (snd t)) (open_history a B3 page2)
      in if \<not> bGot then 2 else if fl \<noteq> [] then 0 else 3)"

lemma find_first_item: "n \<notin> cm_nonce ` set c \<Longrightarrow> cm_nonce it = n \<Longrightarrow> find (\<lambda>c. cm_nonce c = n) (c @ [it]) = Some it"
  by (induction c) auto

text \<open>An entry whose nonce is in no other place is what a scan of all conversations finds.\<close>

lemma scan_single:
  assumes wf: "mwf (conversations (app s))" and k: "conv_of (app s) k = c @ [it]" and n: "cm_nonce it = n" "n \<notin> cm_nonce ` set c"
    and others: "\<And>j. j \<noteq> k \<Longrightarrow> n \<notin> cm_nonce ` set (conv_of (app s) j)"
  shows "scanByNonce n s = Some (ci_status it)" "seen_delivered n s = (ci_status it = Some DDelivered)"
proof -
  have in_k: "(k, c @ [it]) \<in> set (conversations (app s))"
    using k wf by (auto simp: conv_of_def mget_in_set[symmetric] split: option.splits)
  have only: "arr = c @ [it]" if arr: "arr \<in> set (mvals (conversations (app s)))" "n \<in> cm_nonce ` set arr" for arr
  proof -
    obtain j where j: "(j, arr) \<in> set (conversations (app s))" using arr(1) by (auto simp: js_defs)
    then have "conv_of (app s) j = arr" using wf by (simp add: conv_of_def mget_in_set[symmetric])
    then show ?thesis using arr(2) others[of j] k by (cases "j = k") auto
  qed
  have mem: "c @ [it] \<in> set (mvals (conversations (app s)))" using in_k by (force simp: js_defs)
  have it: "find (\<lambda>c. cm_nonce c = n) (c @ [it]) = Some it" by (rule find_first_item[OF n(2,1)])
  have "find (\<lambda>arr. list_ex (\<lambda>c. cm_nonce c = n) arr) (mvals (conversations (app s))) = Some (c @ [it])"
  proof (cases "find (\<lambda>arr. list_ex (\<lambda>c. cm_nonce c = n) arr) (mvals (conversations (app s)))")
    case None
    then show ?thesis using mem n(1) by (auto simp: find_None_iff)
  next
    case (Some arr)
    then have "arr \<in> set (mvals (conversations (app s)))" "n \<in> cm_nonce ` set arr"
      by (auto simp: find_Some_iff list_ex_iff image_iff)
    then show ?thesis using Some only by simp
  qed
  then show "scanByNonce n s = Some (ci_status it)" by (simp add: scanByNonce_def it)
  have found: "arr = c @ [it]" if "arr \<in> set (mvals (conversations (app s)))" "find (\<lambda>c. cm_nonce c = n) arr = Some x" for arr x
    using that(2) by (intro only[OF that(1)]) (auto simp: find_Some_iff image_iff)
  show "seen_delivered n s = (ci_status it = Some DDelivered)"
  proof
    assume "seen_delivered n s"
    then obtain arr where arr: "arr \<in> set (mvals (conversations (app s)))"
      and st: "case find (\<lambda>c. cm_nonce c = n) arr of None \<Rightarrow> False | Some it \<Rightarrow> ci_status it = Some DDelivered"
      unfolding seen_delivered_def list_ex_iff by blast
    obtain x where x: "find (\<lambda>c. cm_nonce c = n) arr = Some x" "ci_status x = Some DDelivered"
      by (rule option.exhaust[of "find (\<lambda>c. cm_nonce c = n) arr"]) (use st in simp_all)
    have "x = it" using x(1) it unfolding found[OF arr x(1)] by simp
    then show "ci_status it = Some DDelivered" using x(2) by simp
  next
    assume "ci_status it = Some DDelivered"
    then show "seen_delivered n s" unfolding seen_delivered_def list_ex_iff using mem it by (intro bexI[of _ "c @ [it]"]) simp_all
  qed
qed

text \<open>C11: the driver of the offline delivery passes: a text to a device that is away is queued and not yet delivered; when
  the device is back, it is delivered, stored there, and found in the history that a new page loads.\<close>

theorem offline_driver_passes:
  assumes ab: "a \<noteq> b" "a \<noteq> []" "b \<noteq> []" and n: "fst t \<noteq> []" and wf: "mailbox_ok A"
    and fresh: "\<And>k. fst t \<notin> cm_nonce ` set (conv_at k A)" "queue_of b A = []" "mb_store B = []"
    and page: "conversations (app page2) = []" "self_id page2 \<noteq> Some a"
  shows "offline_driver a b t A B page2 = 0"
proof -
  define k where "k = filed_at a b A"
  define A1 where "A1 = snd (message_send a [] [] (chat_json b t) A)"
  have s: "message_send a [] [] (chat_json b t) A = ([], A1)" and A1: "mb_page A1 = pushMessage (chat_msg a b t) (mb_page A)"
    and q: "queue_of b A1 = [chat_json b t]"
    using send_text[OF ab(1,3), of "[]" "[]" t A] fresh(2) by (simp_all add: A1_def Let_def kOfflineQueueCap_def)
  have conv1: "conv_at j A1 = conv_at j A @ (if j = k then chat_items a b DSent (length (conv_at j A)) [t] else [])" for j
    using key_filed[of A a b t] by (simp add: A1 pushMessage_def Let_def push_item_def k_def)
  have wf1: "mailbox_ok A1" using mwf_pushes[OF wf, of a b "[t]"] by (simp add: A1)
  have sc1: "scanByNonce (fst t) (mb_page A1) = Some (Some DSent)"
    using scan_single(1)[OF wf1, of k "conv_at k A" "mk_item (chat_msg a b t) (length (conv_at k A)) (Some DSent) None" "fst t"]
      fresh(1) conv1 by simp
  define A2 where "A2 = snd (flushQueue b [b] A1)"
  have f: "flushQueue b [b] A1 = ([(b, chat_json b t)], A2)" and A2: "mb_page A2 = mb_page A1" by (simp_all add: flushQueue_def A2_def q)
  define B3 where "B3 = snd (inbound b a (chat_json b t) B)"
  note ib = inbound_text[OF ab(1,2) n, of B]
  define A3 where "A3 = A2\<lparr>mb_page := on_ack (fst t) (mb_page A2)\<rparr>"
  have h: "hand_over a b [(b, chat_json b t)] A2 B = (A3, B3)"
    using ib inbound_ack[OF ab(1)[symmetric] ab(3) n, of A2] by (simp add: hand_over_def B3_def A3_def)
  have only: "only_in k {fst t} (mb_page A1)" using wf1 fresh(1) conv1 by (auto simp: only_in_def)
  have "\<forall>x \<in> set (conv_at k A). cm_nonce x \<noteq> fst t" using fresh(1)[of k] by force
  then have up: "update_first (\<lambda>c. cm_nonce c = fst t) mark_delivered (conv_at k A @ chat_items a b DSent (length (conv_at k A)) [t])
      = conv_at k A @ chat_items a b DDelivered (length (conv_at k A)) [t]"
    by (subst update_first_append) (simp_all add: update_first_def mark_delivered_def mk_item_def)
  have conv3: "conv_at j A3 = conv_at j A @ (if j = k then chat_items a b DDelivered (length (conv_at j A)) [t] else [])" for j
    using on_ack_only(1)[OF only _ n, of j] conv1 up by (simp add: A3_def A2)
  have "mailbox_ok A3" using mwf_acks[OF wf1, of "[fst t]"] by (simp add: A3_def A2)
  then have d: "seen_delivered (fst t) (mb_page A3)"
    using scan_single(2)[of "mb_page A3" k "conv_at k A" "mk_item (chat_msg a b t) (length (conv_at k A)) (Some DDelivered) None" "fst t"]
      fresh(1) conv3 by simp
  have st: "mb_store B3 = [record_of b a (False, t)]" using ib fresh(3) by (simp add: B3_def store_append_def record_of_def)
  have "message_history (history_json a KChat) B3 = map (record_of b a) [(False, t)]"
    using ab(2) by (simp add: message_history_def store_history_def limit_of_def history_json_def getStr_def st)
  then have "conv_of (app (open_history a B3 page2)) a = entries b a 0 (filed b a (self_id page2) a [(False, t)])"
    using reloaded[of "[(False, t)]" page2 a b a] n page(1) by (simp add: open_history_def conv_of_def)
  moreover have "filed b a (self_id page2) a [(False, t)] = [(False, t)]"
    using page(2) ab(1) by (simp add: filed_def msg_of_key)
  ultimately have g: "some_body a (snd (snd t)) (open_history a B3 page2)"
    by (cases t) (simp add: some_body_def msg_of_def chat_msg_def mk_item_def)
  show ?thesis by (simp add: offline_driver_def s q sc1 f h d g)
qed

subsection \<open>Examples\<close>

definition device :: "string \<Rightarrow> string \<Rightarrow> room_node" where
  "device own peer = \<lparr>rn_box = (box_of own)\<lparr>mb_page := on_peer_found \<lparr>pi_deviceId = peer, pi_name = peer, pi_host = ''h'',
     pi_netmask = ''m'', pi_via = Lan, pi_lastSeen = 0, pi_caps = []\<rparr> (mb_page (box_of own))\<rparr>, rn_rooms = []\<rparr>"

theorem group_driver_passes_witness: "group_driver ''a'' ''b'' ''r'' 1 2 (device ''a'' ''b'') (device ''b'' ''a'') = 0"
proof -
  have "first_peer (device ''a'' ''b'') = ''b''" "first_peer (device ''b'' ''a'') = ''a''" by code_simp+
  then show ?thesis using group_driver_passes[of "''a''" "''b''" "''r''" "device ''a'' ''b''" "device ''b'' ''a''" 1 2] by simp
qed

theorem offline_driver_passes_witness:
  "offline_driver ''a'' ''b'' (''off-1'', 5, ''hello'') (box_of ''a'') (box_of ''b'') (mb_page (box_of ''page'')) = 0"
  by (rule offline_driver_passes) (simp_all add: mwf_def js_defs, simp add: box_of_def)

end
