(* ===== verification/Ws_Scripts.thy ===== *)
theory Ws_Scripts
  imports Message_History
begin

text \<open>
  The scripts that test the native daemon over its WebSocket, without a page: their client
  (\<open>scripts/ws_e2e_multiroute.mjs\<close>), and what they check of texts between two daemons (\<open>scripts/ws_e2e_onetoone.mjs\<close>),
  of the choice of a route, of the relay of signals (\<open>scripts/ws_e2e_media.mjs\<close>) and of the stored history
  (\<open>scripts/ws_history.mjs\<close>), as functions to their exit codes.
\<close>

subsection \<open>The client\<close>

text \<open>A promise is named by the number of its request.\<close>

record script_client =
  sc_pending :: "(string, nat) jsmap"
  sc_listeners :: "nat list"
  sc_txn :: nat
  sc_sent :: "json list"

datatype heard =
    Resolved nat json
  | Heard nat json

definition wsOpen :: script_client where
  "wsOpen = \<lparr>sc_pending = [], sc_listeners = [], sc_txn = 0, sc_sent = []\<rparr>"

definition script_on :: "nat \<Rightarrow> script_client \<Rightarrow> script_client" where
  "script_on l c = c\<lparr>sc_listeners := sc_listeners c @ [l]\<rparr>"

definition script_request :: "string \<Rightarrow> string \<Rightarrow> json \<Rightarrow> script_client \<Rightarrow> script_client" where
  "script_request ns m d c =
     (let k = Suc (sc_txn c); t = show_nat k
      in c\<lparr>sc_txn := k, sc_pending := mset_key t k (sc_pending c),
           sc_sent := sc_sent c @ [JObj [(''v'', JNum 1), (''dir'', JStr ''req''), (''ns'', JStr ns), (''m'', JStr m), (''txn'', JStr t), (''d'', d)]]\<rparr>)"

text \<open>A frame, as \<open>JSON.parse\<close> reads it. The test \<open>'txn' in o\<close> throws for a value that is no object.\<close>

definition script_message :: "json option \<Rightarrow> script_client \<Rightarrow> heard list \<times> script_client" where
  "script_message f c =
     (case f of
        None \<Rightarrow> ([], c)
      | Some (JObj fs) \<Rightarrow>
          (case str_at ''txn'' (JObj fs) of
             Some t \<Rightarrow> (case mget (sc_pending c) t of
                 Some k \<Rightarrow> ([Resolved k (JObj fs)], c\<lparr>sc_pending := mdel t (sc_pending c)\<rparr>)
               | None \<Rightarrow> (map (\<lambda>l. Heard l (JObj fs)) (sc_listeners c), c))
           | None \<Rightarrow> (map (\<lambda>l. Heard l (JObj fs)) (sc_listeners c), c))
      | Some (JList xs) \<Rightarrow> (map (\<lambda>l. Heard l (JList xs)) (sc_listeners c), c)
      | Some _ \<Rightarrow> ([], c))"

fun script_frames :: "json option list \<Rightarrow> script_client \<Rightarrow> heard list \<times> script_client" where
  "script_frames [] c = ([], c)"
| "script_frames (f # fs) c = (let (h, c1) = script_message f c; (hs, c2) = script_frames fs c1 in (h @ hs, c2))"

definition requested :: "(string \<times> string \<times> json) list \<Rightarrow> script_client \<Rightarrow> script_client" where
  "requested rs c = fold (\<lambda>(ns, m, d). script_request ns m d) rs c"

text \<open>The requests \<open>P\<close> are those without a reply.\<close>

definition awaiting :: "nat set \<Rightarrow> script_client \<Rightarrow> bool" where
  "awaiting P c \<longleftrightarrow> (\<forall>t k. mget (sc_pending c) t = Some k \<longleftrightarrow> t = show_nat k \<and> k \<in> P)"

lemma awaiting_request:
  assumes "awaiting P c"
  shows "awaiting (insert (Suc (sc_txn c)) P) (script_request ns m d c)"
  using assms by (auto simp: awaiting_def script_request_def Let_def)

lemma awaiting_requested:
  "awaiting {0<..sc_txn c} c \<Longrightarrow> awaiting {0<..sc_txn c + length rs} (requested rs c) \<and> sc_listeners (requested rs c) = sc_listeners c"
proof (induction rs arbitrary: c)
  case (Cons r rs)
  obtain ns m d where r: "r = (ns, m, d)" by (cases r)
  have "insert (Suc (sc_txn c)) {0<..sc_txn c} = {0<..Suc (sc_txn c)}" by auto
  then have "awaiting {0<..sc_txn (script_request ns m d c)} (script_request ns m d c)"
    using awaiting_request[OF Cons.prems, of ns m d] by (simp add: script_request_def Let_def)
  from Cons.IH[OF this] show ?case by (simp add: requested_def r script_request_def Let_def)
qed (simp add: requested_def)

text \<open>What a frame means to the scripts: the reply to a request, or an event.\<close>

definition tagged :: "nat option \<times> (string \<times> json) list \<Rightarrow> bool" where
  "tagged f \<longleftrightarrow> (case f of (Some k, fs) \<Rightarrow> str_at ''txn'' (JObj fs) = Some (show_nat k) | (None, fs) \<Rightarrow> str_at ''txn'' (JObj fs) = None)"

definition outcome :: "nat list \<Rightarrow> nat option \<times> (string \<times> json) list \<Rightarrow> heard list" where
  "outcome ls f = (case f of (Some k, fs) \<Rightarrow> [Resolved k (JObj fs)] | (None, fs) \<Rightarrow> map (\<lambda>l. Heard l (JObj fs)) ls)"

definition replied :: "(nat option \<times> (string \<times> json) list) list \<Rightarrow> nat list" where
  "replied frs = concat (map (\<lambda>f. case fst f of None \<Rightarrow> [] | Some k \<Rightarrow> [k]) frs)"

lemma frames_awaiting:
  assumes "awaiting P c" "list_all tagged frs" "distinct (replied frs)" "set (replied frs) \<subseteq> P"
  shows "fst (script_frames (map (\<lambda>f. Some (JObj (snd f))) frs) c) = concat (map (outcome (sc_listeners c)) frs)
    \<and> awaiting (P - set (replied frs)) (snd (script_frames (map (\<lambda>f. Some (JObj (snd f))) frs) c))"
  using assms
proof (induction frs arbitrary: c P)
  case (Cons f frs)
  obtain ko fs where f: "f = (ko, fs)" by (cases f)
  show ?case
  proof (cases ko)
    case None
    then show ?thesis
      using Cons.IH[OF Cons.prems(1)] Cons.prems(2-)
      by (simp add: f tagged_def outcome_def replied_def script_message_def split_beta Let_def)
  next
    case (Some k)
    have k: "k \<in> P" "k \<notin> set (replied frs)" "distinct (replied frs)" "set (replied frs) \<subseteq> P - {k}"
      using Cons.prems(3,4) by (auto simp: f Some replied_def)
    define c1 where "c1 = c\<lparr>sc_pending := mdel (show_nat k) (sc_pending c)\<rparr>"
    have "mget (sc_pending c) (show_nat k) = Some k" using Cons.prems(1) k(1) by (simp add: awaiting_def)
    then have st: "script_message (Some (JObj fs)) c = ([Resolved k (JObj fs)], c1)"
      using Cons.prems(2) by (simp add: f Some tagged_def script_message_def c1_def)
    have "awaiting (P - {k}) c1" using Cons.prems(1) by (auto simp: awaiting_def c1_def)
    moreover have "list_all tagged frs" using Cons.prems(2) by simp
    moreover have "P - {k} - set (replied frs) = P - set (replied (f # frs))" by (auto simp: f Some replied_def)
    ultimately show ?thesis
      using Cons.IH[of "P - {k}" c1] k(3,4) by (simp add: f Some outcome_def st split_beta Let_def c1_def)
  qed
qed (simp add: replied_def)

text \<open>Replies resolve the requests they name, in whatever order they arrive among events, and each request once; events
  reach every listener.\<close>

theorem replies_any_order:
  assumes "list_all tagged frs" "distinct (replied frs)" "set (replied frs) \<subseteq> {0<..length rs}"
  shows "fst (script_frames (map (\<lambda>f. Some (JObj (snd f))) frs) (requested rs (fold script_on ls wsOpen))) = concat (map (outcome ls) frs)"
proof -
  have l: "sc_listeners (fold script_on ls c) = sc_listeners c @ ls \<and> sc_txn (fold script_on ls c) = sc_txn c
    \<and> sc_pending (fold script_on ls c) = sc_pending c" for c
    by (induction ls arbitrary: c) (simp_all add: script_on_def)
  have "awaiting {0<..sc_txn (fold script_on ls wsOpen)} (fold script_on ls wsOpen)"
    using l[of wsOpen] by (simp add: awaiting_def wsOpen_def)
  from awaiting_requested[OF this, of rs] have "awaiting {0<..length rs} (requested rs (fold script_on ls wsOpen))"
    "sc_listeners (requested rs (fold script_on ls wsOpen)) = ls" using l[of wsOpen] by (simp_all add: wsOpen_def)
  from frames_awaiting[OF this(1) assms] this(2) show ?thesis by simp
qed

theorem replies_any_order_witness:
  "fst (script_frames (map (\<lambda>f. Some (JObj (snd f))) [(Some (2::nat), [(''txn'', JStr ''2'')]), (None, [(''dir'', JStr ''ev'')]), (Some 1, [(''txn'', JStr ''1'')])])
     (requested [(''identity'', ''hello'', JNull), (''roster'', ''list'', JNull)] (fold script_on [7] wsOpen)))
   = [Resolved 2 (JObj [(''txn'', JStr ''2'')]), Heard 7 (JObj [(''dir'', JStr ''ev'')]), Resolved 1 (JObj [(''txn'', JStr ''1'')])]"
proof -
  have "show_nat 1 = ''1''" "show_nat 2 = ''2''" by code_simp+
  then show ?thesis by (subst replies_any_order) (simp_all add: tagged_def replied_def outcome_def str_at_def numeral_2_eq_2)
qed

subsection \<open>The client with a time limit\<close>

text \<open>The client of \<open>ws_history.mjs\<close>: a request has a random id and is answered by the script itself after eight seconds;
  the results of its promises, each with the number of its request.\<close>

record history_client =
  hc_pending :: "(string, nat) jsmap"
  hc_events :: "json list"

datatype history_event =
    Frame_in "json option"
  | Time_out string

definition history_open :: history_client where
  "history_open = \<lparr>hc_pending = [], hc_events = []\<rparr>"

definition history_ask :: "string \<Rightarrow> nat \<Rightarrow> history_client \<Rightarrow> history_client" where
  "history_ask i k c = c\<lparr>hc_pending := mset_key i k (hc_pending c)\<rparr>"

definition settle_id :: "string \<Rightarrow> json \<Rightarrow> history_client \<Rightarrow> (nat \<times> json) list \<times> history_client" where
  "settle_id i v c = (case mget (hc_pending c) i of None \<Rightarrow> ([], c) | Some k \<Rightarrow> ([(k, v)], c\<lparr>hc_pending := mdel i (hc_pending c)\<rparr>))"

definition timed_out :: json where
  "timed_out = JObj [(''ok'', JBool False), (''d'', JObj [(''msg'', JStr ''timeout'')])]"

definition history_message :: "json option \<Rightarrow> history_client \<Rightarrow> (nat \<times> json) list \<times> history_client" where
  "history_message f c =
     (case f of
        None \<Rightarrow> ([], c)
      | Some m \<Rightarrow>
          if str_at ''dir'' m = Some ''res'' then (case str_at ''txn'' m of None \<Rightarrow> ([], c) | Some i \<Rightarrow> settle_id i m c)
          else if str_at ''dir'' m = Some ''ev'' then ([], c\<lparr>hc_events := hc_events c @ [m]\<rparr>) else ([], c))"

fun history_run :: "history_event list \<Rightarrow> history_client \<Rightarrow> (nat \<times> json) list \<times> history_client" where
  "history_run [] c = ([], c)"
| "history_run (e # es) c =
     (let (r, c1) = (case e of Frame_in f \<Rightarrow> history_message f c | Time_out i \<Rightarrow> settle_id i timed_out c); (rs, c2) = history_run es c1
      in (r @ rs, c2))"

definition pending_ok :: "history_client \<Rightarrow> bool" where
  "pending_ok c \<longleftrightarrow> (\<forall>i j k. mget (hc_pending c) i = Some k \<longrightarrow> mget (hc_pending c) j = Some k \<longrightarrow> i = j)"

lemma history_step:
  assumes "pending_ok c" "(r, c1) = (case e of Frame_in f \<Rightarrow> history_message f c | Time_out i \<Rightarrow> settle_id i timed_out c)"
  shows "(r = [] \<and> hc_pending c1 = hc_pending c \<and> (\<forall>i. e = Time_out i \<longrightarrow> mget (hc_pending c) i = None))
    \<or> (\<exists>i k v. mget (hc_pending c) i = Some k \<and> r = [(k, v)] \<and> hc_pending c1 = mdel i (hc_pending c) \<and> (\<forall>j. e = Time_out j \<longrightarrow> j = i))"
  using assms(2)
  by (auto simp: history_message_def settle_id_def split: history_event.splits option.splits if_splits)

lemma history_settles:
  assumes "pending_ok c" "history_run es c = (rs, c')"
  shows "distinct (map fst rs) \<and> (\<forall>k \<in> fst ` set rs. \<exists>i. mget (hc_pending c) i = Some k)
    \<and> (\<forall>i k. Time_out i \<in> set es \<longrightarrow> mget (hc_pending c) i = Some k \<longrightarrow> k \<in> fst ` set rs)"
  using assms
proof (induction es arbitrary: c rs)
  case (Cons e es)
  obtain r c1 where r: "(case e of Frame_in f \<Rightarrow> history_message f c | Time_out i \<Rightarrow> settle_id i timed_out c) = (r, c1)" by fastforce
  obtain rs2 where rs2: "history_run es c1 = (rs2, c')" "rs = r @ rs2" using Cons.prems(2) r by (auto split: prod.splits)
  from history_step[OF Cons.prems(1) r[symmetric]] show ?case
  proof
    assume a: "r = [] \<and> hc_pending c1 = hc_pending c \<and> (\<forall>i. e = Time_out i \<longrightarrow> mget (hc_pending c) i = None)"
    then have "pending_ok c1" using Cons.prems(1) by (simp add: pending_ok_def)
    from Cons.IH[OF this rs2(1)] a rs2(2) show ?thesis by auto
  next
    assume "\<exists>i k v. mget (hc_pending c) i = Some k \<and> r = [(k, v)] \<and> hc_pending c1 = mdel i (hc_pending c) \<and> (\<forall>j. e = Time_out j \<longrightarrow> j = i)"
    then obtain i k v where a: "mget (hc_pending c) i = Some k" "r = [(k, v)]" "hc_pending c1 = mdel i (hc_pending c)"
      "\<forall>j. e = Time_out j \<longrightarrow> j = i" by blast
    have "pending_ok c1" using Cons.prems(1) by (auto simp: pending_ok_def a(3))
    note IH = Cons.IH[OF this rs2(1)]
    have new: "k \<notin> fst ` set rs2" using IH Cons.prems(1) a(1) by (auto simp: a(3) pending_ok_def split: if_splits)
    have sub: "\<forall>k' \<in> fst ` set rs2. \<exists>j. mget (hc_pending c) j = Some k'" using IH by (auto simp: a(3) split: if_splits)
    have late: "k' \<in> fst ` set rs" if "Time_out j \<in> set (e # es)" "mget (hc_pending c) j = Some k'" for j k'
    proof (cases "j = i")
      case True
      then show ?thesis using that(2) a(1,2) rs2(2) by simp
    next
      case False
      then have "Time_out j \<in> set es" "mget (hc_pending c1) j = Some k'" using that a(3,4) by auto
      then have "k' \<in> fst ` set rs2" using IH by blast
      then show ?thesis using rs2(2) by auto
    qed
    show ?thesis using IH new sub late a(1,2) rs2(2) by auto
  qed
qed simp

text \<open>Whatever arrives, a request is settled at most once, and exactly once when its time is up.\<close>

theorem history_client_settles:
  assumes "c = fold (\<lambda>k. history_ask (f k) k) [0..<n] history_open" "inj_on f {..<n}" "history_run es c = (rs, c')" "k < n"
  shows "distinct (map fst rs) \<and> (Time_out (f k) \<in> set es \<longrightarrow> k \<in> fst ` set rs)"
proof -
  have "inj_on f {..<m} \<Longrightarrow> mget (hc_pending (fold (\<lambda>k. history_ask (f k) k) [0..<m] history_open)) i = Some k \<longleftrightarrow> k < m \<and> i = f k" for m i k
  proof (induction m arbitrary: i k)
    case (Suc m)
    have "inj_on f {..<m}" using Suc.prems by (auto simp: inj_on_def)
    note IH = Suc.IH[OF this]
    have "k < m \<Longrightarrow> f k \<noteq> f m" using Suc.prems by (force simp: inj_on_def)
    then show ?case using IH by (auto simp: history_ask_def less_Suc_eq)
  qed (simp add: history_open_def)
  then have p: "mget (hc_pending c) i = Some k \<longleftrightarrow> k < n \<and> i = f k" for i k using assms(1,2) by simp
  then have "pending_ok c" by (simp add: pending_ok_def)
  from history_settles[OF this assms(3)] show ?thesis using p assms(4) by auto
qed

theorem history_client_settles_witness:
  "distinct (map fst (fst (history_run [Time_out ''x'', Frame_in (Some (JObj [(''dir'', JStr ''res''), (''txn'', JStr ''x'')]))] (history_ask ''x'' 0 history_open))))
    \<and> 0 \<in> fst ` set (fst (history_run [Time_out ''x'', Frame_in (Some (JObj [(''dir'', JStr ''res''), (''txn'', JStr ''x'')]))] (history_ask ''x'' 0 history_open)))"
proof -
  define es where "es = [Time_out ''x'', Frame_in (Some (JObj [(''dir'', JStr ''res''), (''txn'', JStr ''x'')]))]"
  have c: "history_ask ''x'' 0 history_open = fold (\<lambda>k. history_ask ((\<lambda>_. ''x'') k) k) [0..<1] history_open" by simp
  have "inj_on (\<lambda>_. ''x'') {..<1::nat}" "(0::nat) < 1" by (auto simp: inj_on_def)
  note r = history_client_settles[OF c this(1) prod.collapse[symmetric] this(2), of es]
  have "Time_out ''x'' \<in> set es" by (simp add: es_def)
  then show ?thesis using r unfolding es_def[symmetric] by blast
qed

subsection \<open>The stored history\<close>

definition script_body :: "string \<Rightarrow> string \<Rightarrow> nat \<Rightarrow> string" where
  "script_body pre x i = pre @ ''-'' @ show_nat i @ '' @ '' @ x"

definition script_text :: "string \<Rightarrow> string \<Rightarrow> (nat \<Rightarrow> int) \<Rightarrow> nat \<Rightarrow> text_data" where
  "script_text pre x now i = (pre @ ''-'' @ x @ ''-'' @ show_nat i, now i, script_body pre x i)"

definition body_at :: "json \<Rightarrow> string option" where
  "body_at j = (case str_at ''body'' j of Some (c # cs) \<Rightarrow> Some (c # cs) | _ \<Rightarrow> None)"

definition history_request :: "string \<Rightarrow> int \<Rightarrow> json" where
  "history_request x limit = JObj [(''to'', JStr x), (''kind'', JStr ''chat''), (''limit'', JNum limit)]"

text \<open>\<open>PHASE=send\<close>: the exit code and what the daemon then is. The daemon accepts every message.\<close>

definition send_phase :: "string \<Rightarrow> string list \<Rightarrow> string \<Rightarrow> nat \<Rightarrow> int \<Rightarrow> string \<Rightarrow> (nat \<Rightarrow> int) \<Rightarrow> mailbox \<Rightarrow> nat \<times> mailbox" where
  "send_phase own up x n limit pre now mb =
     (let bodies = map (script_body pre x) [0..<n];
          mb' = fold (\<lambda>i box. snd (message_send own up [] (chat_json x (script_text pre x now i)) box)) [0..<n] mb;
          items = message_history (history_request x limit) mb';
          got = filter (\<lambda>b. b \<in> set bodies) (List.map_filter body_at items);
          miss = filter (\<lambda>b. b \<notin> set got) bodies
      in (if miss \<noteq> [] then 2
          else if \<not> list_all (\<lambda>i. i < length got \<and> got ! i = bodies ! i) [0..<n] then 2 else 0, mb'))"

text \<open>\<open>PHASE=check\<close>.\<close>

definition check_phase :: "string \<Rightarrow> nat \<Rightarrow> int \<Rightarrow> mailbox \<Rightarrow> nat" where
  "check_phase x expect limit mb = (if length (message_history (history_request x limit) mb) \<noteq> expect then 2 else 0)"

lemma script_text_inj: "script_body pre x i = script_body pre x j \<longleftrightarrow> i = j" "fst (script_text pre x now i) = fst (script_text pre x now j) \<longleftrightarrow> i = j"
proof -
  have "i = j" if "show_nat i @ '' @ '' @ x = show_nat j @ '' @ '' @ x" for i j
  proof -
    from that have "show_nat i = show_nat j" by simp
    then show ?thesis by simp
  qed
  then show "script_body pre x i = script_body pre x j \<longleftrightarrow> i = j" by (auto simp: script_body_def)
  show "fst (script_text pre x now i) = fst (script_text pre x now j) \<longleftrightarrow> i = j" by (simp add: script_text_def)
qed

definition script_texts :: "string \<Rightarrow> string \<Rightarrow> (nat \<Rightarrow> int) \<Rightarrow> nat \<Rightarrow> exchanged list" where
  "script_texts pre x now n = map (\<lambda>i. (True, script_text pre x now i)) [0..<n]"

definition conv_records :: "string \<Rightarrow> mailbox \<Rightarrow> json list" where
  "conv_records x mb = filter (\<lambda>d. conv_field d = x) (mb_store mb)"

text \<open>No stored message of the conversation has a nonce or a body of the run.\<close>

definition unused :: "string \<Rightarrow> string \<Rightarrow> nat \<Rightarrow> mailbox \<Rightarrow> bool" where
  "unused pre x n mb \<longleftrightarrow> (\<forall>d \<in> set (conv_records x mb). \<forall>i < n.
     str_at ''nonce'' d \<noteq> Some (fst (script_text pre x (\<lambda>_. 0) i)) \<and> body_at d \<noteq> Some (script_body pre x i))"

lemma script_text_nonce: "fst (script_text pre x now i) = fst (script_text pre x (\<lambda>_. 0) i)" "fst (script_text pre x now i) \<noteq> []"
  by (simp_all add: script_text_def)

lemma sends_traffic:
  "fold (\<lambda>i box. snd (message_send own up [] (chat_json x (script_text pre x now i)) box)) is mb
    = traffic own x up (map (\<lambda>i. (True, script_text pre x now i)) is) mb"
  by (induction "is" arbitrary: mb) simp_all

lemma own_record_body: "str_at ''body'' (record_of own x (True, t)) = Some (snd (snd t))"
  by (cases t) (simp add: record_of_def out_record_def own_chat_def text_defs)

lemma record_body: "body_at (record_of own x (True, script_text pre x now i)) = Some (script_body pre x i)"
proof -
  have "script_body pre x i \<noteq> []" by (simp add: script_body_def)
  moreover have "str_at ''body'' (record_of own x (True, script_text pre x now i)) = Some (script_body pre x i)"
    by (simp only: own_record_body) (simp add: script_text_def)
  ultimately show ?thesis by (simp add: body_at_def split: list.split)
qed

lemma fresh_sends:
  assumes "own \<noteq> x" "own \<noteq> []" "x \<noteq> []" "unused pre x n mb"
  shows "mb_store (traffic own x up (script_texts pre x now n) mb) = mb_store mb @ map (record_of own x) (script_texts pre x now n)"
proof (rule traffic_run(1)[OF assms(1-3)])
  show "[] \<notin> nonce_of ` set (script_texts pre x now n)" by (auto simp: script_texts_def script_text_def)
  show "distinct (map nonce_of (script_texts pre x now n))"
    by (auto simp: script_texts_def comp_def distinct_map inj_on_def script_text_inj)
  show "\<forall>d \<in> set (mb_store mb). conv_field d = x \<longrightarrow> str_at ''nonce'' d \<notin> Some ` nonce_of ` set (script_texts pre x now n)"
    using assms(4) script_text_nonce(1)[of pre x now] by (auto simp: unused_def conv_records_def script_texts_def)
qed

lemma known_sends:
  assumes "own \<noteq> x" "own \<noteq> []" "x \<noteq> []"
    and "\<forall>i \<in> set is. \<exists>d \<in> set (mb_store mb). conv_field d = x \<and> str_at ''nonce'' d = Some (fst (script_text pre x now i))"
  shows "mb_store (traffic own x up (map (\<lambda>i. (True, script_text pre x now i)) is) mb) = mb_store mb"
  using assms(4)
proof (induction "is" arbitrary: mb)
  case (Cons i js)
  let ?e = "(True, script_text pre x now i)"
  define mb' where "mb' = snd (message_send own up [] (chat_json x (script_text pre x now i)) mb)"
  have "mb_store mb' = store_append (record_of own x ?e) (mb_store mb)"
    using traffic_step(1)[OF assms(1-3), of ?e up mb] script_text_nonce(2)[of pre x now i] by (simp add: mb'_def)
  also have "\<dots> = mb_store mb" using Cons.prems assms(3) by (auto simp: store_append_def)
  finally have st: "mb_store mb' = mb_store mb" .
  have "mb_store (traffic own x up (map (\<lambda>i. (True, script_text pre x now i)) js) mb') = mb_store mb'"
    by (rule Cons.IH) (use Cons.prems st in simp)
  then show ?case by (simp add: mb'_def[symmetric] st)
qed simp

definition send_verdict :: "string list \<Rightarrow> json list \<Rightarrow> nat" where
  "send_verdict bodies items =
     (let got = filter (\<lambda>b. b \<in> set bodies) (List.map_filter body_at items)
      in if filter (\<lambda>b. b \<notin> set got) bodies \<noteq> [] then 2
         else if \<not> list_all (\<lambda>i. i < length got \<and> got ! i = bodies ! i) [0..<length bodies] then 2 else 0)"

lemma send_phase_verdict:
  "send_phase own up x n limit pre now mb = (let mb' = traffic own x up (script_texts pre x now n) mb
     in (send_verdict (map (script_body pre x) [0..<n]) (message_history (history_request x limit) mb'), mb'))"
  by (simp add: send_phase_def send_verdict_def sends_traffic script_texts_def Let_def)

lemma request_history:
  assumes "x \<noteq> []" "0 \<le> limit" "limit < 2 ^ 64"
  shows "message_history (history_request x limit) mb = drop (length (conv_records x mb) - nat limit) (conv_records x mb)"
  using assms by (simp add: message_history_def history_request_def getStr_def limit_of_def store_history_def conv_records_def Let_def)

lemma verdict_newest:
  assumes "distinct bodies" "\<forall>d \<in> set old. \<forall>b \<in> set bodies. body_at d \<noteq> Some b" "map body_at new = map Some bodies"
  shows "send_verdict bodies (drop (length (old @ new) - l) (old @ new)) = (if length bodies \<le> l then 0 else 2)"
proof -
  have len: "length new = length bodies" using assms(3) by (metis length_map)
  define k where "k = length (old @ new) - l"
  have j: "k - length old = length bodies - l" by (simp add: k_def len)
  have mf: "List.map_filter body_at ns = bs" if "map body_at ns = map Some bs" for ns bs
    using that by (induction ns arbitrary: bs) (auto simp: List.map_filter_simps)
  have new: "List.map_filter body_at (drop i new) = drop i bodies" for i
    by (rule mf) (metis assms(3) drop_map)
  have app: "List.map_filter body_at (xs @ ys) = List.map_filter body_at xs @ List.map_filter body_at ys" for xs ys
    by (simp add: List.map_filter_def)
  have old: "filter (\<lambda>b. b \<in> set bodies) (List.map_filter body_at (drop k old)) = []"
    using assms(2) by (auto simp: filter_empty_conv List.map_filter_def dest!: in_set_dropD)
  have got: "filter (\<lambda>b. b \<in> set bodies) (List.map_filter body_at (drop k (old @ new))) = drop (length bodies - l) bodies"
    by (simp add: app old new j) (auto simp: filter_id_conv dest: in_set_dropD)
  have v: "send_verdict bodies (drop k (old @ new)) = (let got = drop (length bodies - l) bodies
     in if filter (\<lambda>b. b \<notin> set got) bodies \<noteq> [] then 2
        else if \<not> list_all (\<lambda>i. i < length got \<and> got ! i = bodies ! i) [0..<length bodies] then 2 else 0)"
    by (simp only: send_verdict_def got)
  show ?thesis unfolding k_def[symmetric] v
  proof (cases "length bodies \<le> l")
    case True
    then show "(let got = drop (length bodies - l) bodies in if filter (\<lambda>b. b \<notin> set got) bodies \<noteq> [] then 2
        else if \<not> list_all (\<lambda>i. i < length got \<and> got ! i = bodies ! i) [0..<length bodies] then 2 else 0) = (if length bodies \<le> l then 0 else 2)"
      by (simp add: list_all_iff)
  next
    case False
    have "bodies ! 0 \<notin> set (drop (length bodies - l) bodies)"
    proof
      assume "bodies ! 0 \<in> set (drop (length bodies - l) bodies)"
      then obtain i where ix: "i < length (drop (length bodies - l) bodies)" "drop (length bodies - l) bodies ! i = bodies ! 0"
        unfolding in_set_conv_nth by blast
      have i: "bodies ! (length bodies - l + i) = bodies ! 0" by (rule trans[OF nth_drop[symmetric] ix(2)]) (rule diff_le_self)
      have "i < l" using ix(1) False unfolding length_drop by linarith
      have at: "length bodies - l + i < length bodies" "0 < length bodies" "length bodies - l + i \<noteq> 0" using False \<open>i < l\<close> by linarith+
      show False by (rule notE[OF at(3) iffD1[OF nth_eq_iff_index_eq[OF assms(1) at(1,2)] i]])
    qed
    moreover have "bodies ! 0 \<in> set bodies" using False by (intro nth_mem) linarith
    ultimately have "filter (\<lambda>b. b \<notin> set (drop (length bodies - l) bodies)) bodies \<noteq> []" by (auto simp: filter_empty_conv)
    then show "(let got = drop (length bodies - l) bodies in if filter (\<lambda>b. b \<notin> set got) bodies \<noteq> [] then 2
        else if \<not> list_all (\<lambda>i. i < length got \<and> got ! i = bodies ! i) [0..<length bodies] then 2 else 0) = (if length bodies \<le> l then 0 else 2)"
      using False by (simp only: Let_def if_True if_False not_False_eq_True)
  qed
qed



subsection \<open>A text between two daemons\<close>

definition peer_at :: "int \<Rightarrow> json list \<Rightarrow> json option" where
  "peer_at port ps = find (\<lambda>p. jfield ''port'' p = Some (JNum port)) ps"

definition deviceId_of :: "json \<Rightarrow> string" where
  "deviceId_of p = getStr (Some p) ''deviceId'' []"

text \<open>The event that a packet makes the daemon send to its clients, receipts included.\<close>

definition pushed :: "string \<Rightarrow> string \<Rightarrow> json \<Rightarrow> (string \<times> string \<times> json) option" where
  "pushed own from pkt =
     (if from = [] \<or> from = own then None
      else let ackOf = getStr (Some pkt) ''ackOf'' []
      in if ackOf \<noteq> [] then Some (''message'', ''ack'', JObj [(''to'', JStr from), (''nonce'', JStr ackOf)])
         else (let chat = set_field ''direction'' (JStr ''in'') (set_field ''from'' (JStr from) (set_field ''fromId'' (JStr from) pkt))
               in Some (chat_event (set_field ''conv'' (JStr (convKey own chat)) chat))))"

lemma pushed_inbound:
  "mb_page (snd (inbound own from pkt mb)) = (case pushed own from pkt of None \<Rightarrow> mb_page mb | Some e \<Rightarrow> on_chat_event e (mb_page mb))"
  by (simp add: inbound_def pushed_def Let_def)

text \<open>What reaches \<open>b\<close> of a text that \<open>a\<close> sends to a device: at once, or when the daemon has dialled it.\<close>

definition delivered_to :: "string \<Rightarrow> string \<Rightarrow> string list \<Rightarrow> string \<Rightarrow> json \<Rightarrow> mailbox \<Rightarrow> json list" where
  "delivered_to a b up to d A =
     (let (pks, A1) = message_send a up [] d A
      in map snd (filter (\<lambda>pk. fst pk = b) (pks @ (if to \<in> set up then [] else fst (flushQueue to [to] A1)))))"

definition probe_text :: "string \<Rightarrow> string \<Rightarrow> json" where
  "probe_text to x = JObj [(''kind'', JStr ''text''), (''text'', JStr x), (''channel'', JStr ''chat''), (''to'', JStr to)]"

definition first_message :: "string \<Rightarrow> string \<Rightarrow> json list \<Rightarrow> json option" where
  "first_message own from pkts = map_option (\<lambda>e. snd (snd e)) (find (\<lambda>e. fst e = ''message'') (List.map_filter (pushed own from) pkts))"

definition one_to_one :: "string \<Rightarrow> string \<Rightarrow> string list \<Rightarrow> json list \<Rightarrow> string \<Rightarrow> mailbox \<Rightarrow> nat" where
  "one_to_one a b up ps x A =
     (case peer_at 9167 ps of
        None \<Rightarrow> 1
      | Some p \<Rightarrow>
          (case first_message b a (delivered_to a b up (deviceId_of p) (probe_text (deviceId_of p) x) A) of
             None \<Rightarrow> 1
           | Some d \<Rightarrow> if str_at ''body'' d = Some x \<or> str_at ''text'' d = Some x \<or> str_at ''content'' d = Some x then 0 else 2))"

text \<open>The route: up to 20 requests for the roster, then the tests of the peer that is found.\<close>

definition discovered :: "int \<Rightarrow> json list list \<Rightarrow> json option" where
  "discovered port polls = (case List.map_filter (peer_at port) (take 20 polls) of [] \<Rightarrow> None | p # _ \<Rightarrow> Some p)"

definition addrs_of :: "json \<Rightarrow> json list" where
  "addrs_of p = (case jfield ''addrs'' p of Some (JList xs) \<Rightarrow> xs | _ \<Rightarrow> [])"

definition multiroute :: "string \<Rightarrow> string \<Rightarrow> string list \<Rightarrow> json list list \<Rightarrow> string \<Rightarrow> mailbox \<Rightarrow> nat" where
  "multiroute a b up polls x A =
     (case discovered 8122 polls of
        None \<Rightarrow> 1
      | Some p \<Rightarrow>
          if str_at ''via'' p \<noteq> Some ''relay'' then 1
          else if addrs_of p = [] then 1
          else if (case jfield ''host'' p of None \<Rightarrow> True | Some h \<Rightarrow> h \<notin> set (addrs_of p)) then 1
          else (case first_message b a (delivered_to a b up (deviceId_of p) (probe_text (deviceId_of p) x) A) of
             None \<Rightarrow> 1 | Some d \<Rightarrow> if str_at ''body'' d = Some x \<or> str_at ''text'' d = Some x then 0 else 2))"

lemma probe_text_arrives:
  assumes "a \<noteq> b" "a \<noteq> []" "b \<noteq> []" "queue_of b A = []"
  shows "\<exists>d. first_message b a (delivered_to a b up b (probe_text b x) A) = Some d \<and> str_at ''text'' d = Some x"
proof -
  have "delivered_to a b up b (probe_text b x) A = [probe_text b x]"
    using assms by (simp add: delivered_to_def message_send_def probe_text_def own_chat_def getStr_def set_field_def Let_def flushQueue_def
        queueOffline_def queue_of_def kOfflineQueueCap_def)
  moreover obtain d where "pushed b a (probe_text b x) = Some (''message'', ''chat'', d)" "str_at ''text'' d = Some x"
    using assms(1,2) by (simp add: pushed_def probe_text_def getStr_def set_field_def chat_event_def Let_def str_at_def)
  ultimately show ?thesis by (simp add: first_message_def List.map_filter_simps)
qed

text \<open>A text reaches a device that is in the roster, over an open connection or a dialled one.\<close>

theorem one_to_one_passes:
  assumes "a \<noteq> b" "a \<noteq> []" "b \<noteq> []" "queue_of b A = []" and p: "peer_at 9167 ps = Some p" "deviceId_of p = b"
  shows "one_to_one a b up ps x A = 0"
  using probe_text_arrives[OF assms(1-4), of up x] p by (auto simp: one_to_one_def)

theorem one_to_one_passes_witness:
  "one_to_one ''a'' ''b'' [] [JObj [(''port'', JNum 9167), (''deviceId'', JStr ''b'')]] ''hello'' (box_of ''a'') = 0"
  by (rule one_to_one_passes[where p = "JObj [(''port'', JNum 9167), (''deviceId'', JStr ''b'')]"]) (simp_all add: peer_at_def deviceId_of_def getStr_def)

theorem multiroute_passes:
  assumes "a \<noteq> b" "a \<noteq> []" "b \<noteq> []" "queue_of b A = []" and p: "discovered 8122 polls = Some p" "deviceId_of p = b"
    and route: "jfield ''host'' p = Some h" "h \<in> set (addrs_of p)"
  shows "multiroute a b up polls x A = (if str_at ''via'' p = Some ''relay'' then 0 else 1)"
  using probe_text_arrives[OF assms(1-4), of up x] p route by (auto simp: multiroute_def)

theorem multiroute_passes_witness:
  "multiroute ''a'' ''b'' [] [[], [JObj [(''port'', JNum 8122), (''deviceId'', JStr ''b''), (''via'', JStr ''relay''), (''host'', JStr ''h''),
     (''addrs'', JList [JStr ''g'', JStr ''h''])]]] ''hello'' (box_of ''a'') = 0"
  by (subst multiroute_passes[where h = "JStr ''h''" and b = "''b''" and p = "JObj [(''port'', JNum 8122), (''deviceId'', JStr ''b''), (''via'', JStr ''relay''),
      (''host'', JStr ''h''), (''addrs'', JList [JStr ''g'', JStr ''h''])]"])
    (simp_all add: discovered_def peer_at_def deviceId_of_def getStr_def addrs_of_def str_at_def List.map_filter_simps)

subsection \<open>The relay of signals\<close>

text \<open>The event of a signal that the page of \<open>own\<close> sends, at \<open>peer\<close>.\<close>

definition relayed_event :: "string \<Rightarrow> string list \<Rightarrow> string \<Rightarrow> string \<Rightarrow> json \<Rightarrow> (string \<times> json) option" where
  "relayed_event own known peer m d =
     Option.bind (daemon_out own known (''media'', m, Some d)) (\<lambda>pk. if pk_to pk = peer then daemon_in peer pk else None)"

definition signal_json :: "string \<Rightarrow> string \<Rightarrow> (string \<times> json) list \<Rightarrow> json" where
  "signal_json to callId fs = JObj ([(''to'', JStr to), (''callId'', JStr callId)] @ fs)"

definition media_script :: "string \<Rightarrow> string \<Rightarrow> string list \<Rightarrow> string list \<Rightarrow> json list \<Rightarrow> json list \<Rightarrow> string \<Rightarrow> nat" where
  "media_script a b ka kb peersA peersB callId =
     (case peer_at 9127 peersA of
        None \<Rightarrow> 1
      | Some t \<Rightarrow>
          let toB = deviceId_of t;
              toA = (case peer_at 7117 peersB of Some s \<Rightarrow> deviceId_of s | None \<Rightarrow> toB)
          in (case (relayed_event a ka b ''offer'' (signal_json toB callId [(''mode'', JStr ''voice''), (''sdp'', JStr ''v=0 fake-offer-A'')]),
                    relayed_event a ka b ''ice'' (signal_json toB callId [(''candidate'', JStr ''cand-ice-A-1''), (''sdpMLineIndex'', JNum 0), (''sdpMid'', JStr ''0'')])) of
               (Some (_, bo), Some (_, bi)) \<Rightarrow>
                 let okOffer = (str_at ''callId'' bo = Some callId \<and> getStr (Some bo) ''sdp'' [] \<noteq> [] \<and> str_at ''from'' bo = Some toA);
                     okIce = (str_at ''callId'' bi = Some callId \<and> str_at ''candidate'' bi = Some ''cand-ice-A-1'')
                 in (case relayed_event b kb a ''answer'' (signal_json toA callId [(''sdp'', JStr ''v=0 fake-answer-B'')]) of
                       None \<Rightarrow> 1
                     | Some (_, aa) \<Rightarrow>
                         let okAnswer = (str_at ''callId'' aa = Some callId \<and> getStr (Some aa) ''sdp'' [] \<noteq> [] \<and> str_at ''from'' aa = Some toB)
                         in if okOffer \<and> okIce \<and> okAnswer then 0 else 2)
             | _ \<Rightarrow> 1))"

lemma relayed_signal:
  assumes "own \<noteq> peer" "own \<noteq> []" "peer \<noteq> []" "peer \<in> set known" "m \<noteq> []" "m \<noteq> ''remote_host''" "m \<noteq> ''remote_input''"
    and "list_all (\<lambda>f. fst f \<noteq> ''to'' \<and> fst f \<noteq> ''from'' \<and> fst f \<noteq> ''fromId'') fs"
  shows "relayed_event own known peer m (signal_json peer callId fs)
    = Some (m, JObj ([(''from'', JStr own), (''fromId'', JStr own), (''callId'', JStr callId)] @ fs))"
proof -
  have "filter (\<lambda>e. fst e \<noteq> ''to'') fs = fs" "filter (\<lambda>e. fst e \<noteq> ''from'') fs = fs" "filter (\<lambda>e. fst e \<noteq> ''fromId'') fs = fs"
    using assms(8) by (auto simp: list_all_iff filter_id_conv)
  then show ?thesis
    using assms(1-7) by (simp add: relayed_event_def daemon_out_def relayed_def daemon_in_def signal_json_def getStr_def without_def set_field_def)
qed

lemma not_to_itself: "relayed_event own known peer m (signal_json own callId fs) = None"
  by (simp add: relayed_event_def daemon_out_def relayed_def signal_json_def getStr_def)

text \<open>The script passes for two daemons that know each other, exactly if the second roster lists the first device: the
  fallback for a device that is not listed makes the second daemon send to itself, which nobody gets.\<close>

theorem media_script_verdict:
  assumes ab: "a \<noteq> b" "a \<noteq> []" "b \<noteq> []" "b \<in> set ka" "a \<in> set kb" and t: "peer_at 9127 peersA = Some t" "deviceId_of t = b"
    and s: "\<And>s. peer_at 7117 peersB = Some s \<Longrightarrow> deviceId_of s = a"
  shows "media_script a b ka kb peersA peersB callId = (if peer_at 7117 peersB = None then 1 else 0)"
proof (cases "peer_at 7117 peersB")
  case None
  then show ?thesis using t by (simp add: media_script_def not_to_itself relayed_signal[OF ab(1-4)] Let_def)
next
  case (Some p)
  then show ?thesis
    using t s[OF Some] ab
    by (simp add: media_script_def relayed_signal[OF ab(1-4)] relayed_signal[OF ab(1)[symmetric] ab(3,2,5)] str_at_def getStr_def Let_def)
qed

theorem media_script_verdict_witness:
  "media_script ''a'' ''b'' [''b''] [''a''] [JObj [(''port'', JNum 9127), (''deviceId'', JStr ''b'')]] [] ''call-1'' = 1"
  by (subst media_script_verdict[where t = "JObj [(''port'', JNum 9127), (''deviceId'', JStr ''b'')]"]) (simp_all add: peer_at_def deviceId_of_def getStr_def)

end
